(* ===== verification/Mqtt_Prelude.thy ===== *)
theory Mqtt_Prelude
  imports Main "HOL-Library.Multiset" "HOL-Library.Sublist"
begin

text \<open>
  Shared vocabulary of the development: the containers of the \<open>heapless\<close> crate and the
  list operations of the Rust standard library that the code uses.

  A \<open>heapless::Vec<T, N>\<close>, \<open>heapless::Deque<T, N>\<close> or \<open>heapless::String<N>\<close> is a
  sequence that never holds more than \<open>N\<close> elements.  It is a list here; the capacity is an
  argument of the operations that look at it.  A push beyond the capacity is refused and
  hands the element back; \<open>push_unchecked\<close> beyond the capacity is undefined behaviour.
\<close>

named_theorems vec_simps \<open>equations of the bounded sequence operations\<close>

definition vec_is_full :: "nat \<Rightarrow> 'a list \<Rightarrow> bool" where
  "vec_is_full cap xs \<longleftrightarrow> length xs = cap"

definition vec_push :: "nat \<Rightarrow> 'a \<Rightarrow> 'a list \<Rightarrow> 'a + 'a list" where
  \<comment> \<open>\<open>Inl x\<close>: the vector is full and the element is handed back.\<close>
  "vec_push cap x xs = (if length xs < cap then Inr (xs @ [x]) else Inl x)"

definition vec_remove :: "nat \<Rightarrow> 'a list \<Rightarrow> 'a list" where
  \<comment> \<open>Removal that keeps the order; callers pass an index in range.\<close>
  "vec_remove i xs = take i xs @ drop (Suc i) xs"

fun position :: "('a \<Rightarrow> bool) \<Rightarrow> 'a list \<Rightarrow> nat option" where
  \<comment> \<open>\<open>iter().position(p)\<close>: index of the first element that satisfies \<open>p\<close>.\<close>
  "position p [] = None"
| "position p (x # xs) = (if p x then Some 0 else map_option Suc (position p xs))"

lemma length_vec_remove [simp]: "i < length xs \<Longrightarrow> length (vec_remove i xs) = length xs - 1"
  by (simp add: vec_remove_def)

lemma vec_remove_0 [simp]: "vec_remove 0 (x # xs) = xs"
  by (simp add: vec_remove_def)

lemma vec_remove_Suc [simp]: "vec_remove (Suc i) (x # xs) = x # vec_remove i xs"
  by (simp add: vec_remove_def)

lemma set_vec_remove_subset: "set (vec_remove i xs) \<subseteq> set xs"
  by (auto simp: vec_remove_def dest: in_set_takeD in_set_dropD)

lemma mset_vec_remove:
  "i < length xs \<Longrightarrow> add_mset (xs ! i) (mset (vec_remove i xs)) = mset xs"
proof (induction xs arbitrary: i)
  case Nil
  then show ?case by simp
next
  case (Cons x xs)
  then show ?case by (cases i) (auto simp: add_mset_commute)
qed

lemma mset_map_vec_remove:
  "i < length xs \<Longrightarrow> add_mset (f (xs ! i)) (mset (map f (vec_remove i xs))) = mset (map f xs)"
  by (metis mset_map mset_vec_remove image_mset_add_mset)

lemma vec_remove_append [simp]: "vec_remove (length xs) (xs @ y # ys) = xs @ ys"
  by (simp add: vec_remove_def)

lemma subseq_dropD: "subseq xs (drop n ys) \<Longrightarrow> subseq xs ys"
  using list_emb_append2 [of "(=)" xs "drop n ys" "take n ys"] by simp

lemma set_subseq: "subseq xs ys \<Longrightarrow> set xs \<subseteq> set ys"
  by (auto dest: list_emb_set)

lemma position_Some:
  "position p xs = Some i \<Longrightarrow> i < length xs \<and> p (xs ! i) \<and> (\<forall>j < i. \<not> p (xs ! j))"
proof (induction xs arbitrary: i)
  case Nil
  then show ?case by simp
next
  case (Cons x xs)
  show ?case
  proof (cases "p x")
    case True
    with Cons.prems show ?thesis by simp
  next
    case False
    with Cons.prems obtain k where k: "position p xs = Some k" "i = Suc k" by auto
    from Cons.IH [OF k(1)] k(2) False show ?thesis
      by (auto simp: nth_Cons split: nat.splits)
  qed
qed

lemma position_None [simp]: "position p xs = None \<longleftrightarrow> (\<forall>x \<in> set xs. \<not> p x)"
  by (induction xs) auto

lemma position_ex: "(\<exists>i. position p xs = Some i) \<longleftrightarrow> (\<exists>x \<in> set xs. p x)"
  by (metis not_None_eq position_None)

lemma vec_push_Inr: "vec_push cap x xs = Inr ys \<longleftrightarrow> length xs < cap \<and> ys = xs @ [x]"
  by (auto simp: vec_push_def)

lemma vec_push_Inl: "vec_push cap x xs = Inl y \<longleftrightarrow> cap \<le> length xs \<and> y = x"
  by (auto simp: vec_push_def)

lemmas vec_push_iff = vec_push_Inr vec_push_Inl

declare vec_push_Inr [vec_simps] vec_push_Inl [vec_simps] vec_is_full_def [vec_simps]

end
