(* ===== verification/Mqtt_Types.thy ===== *)
theory Mqtt_Types
  imports Mqtt_Prelude "HOL-Library.Word"
begin

text \<open>
  Data shared by all components: the crate's error and event types (\<open>src/src/lib.rs\<close>), the
  outcome of running a piece of code, and the packet types of the \<open>mqttrs2\<close> crate that the
  code builds and matches on.  The packet types are only data here; the encoder and decoder of
  \<open>mqttrs2\<close> are parameters of the model.  Error values of other crates that the code passes
  on without looking at them are opaque codes.
\<close>

type_synonym byte = "8 word"
type_synonym u16 = "16 word"
type_synonym u32 = "32 word"

lemma word_less_inc: "w \<noteq> - 1 \<Longrightarrow> w < w + (1 :: 'a::len word)"
  using inc_less_eq_self_iff_eq [of w] by (simp add: linorder_not_le [symmetric])

lemma word_less_inc_iff: "w \<noteq> - 1 \<Longrightarrow> v < w + (1 :: 'a::len word) \<longleftrightarrow> v \<le> w"
  using less_inc_imp_less_eq [of v w] word_less_inc [of w] by fastforce

section \<open>Packets of mqttrs2\<close>

text \<open>\<open>Pid\<close> wraps a non-zero \<open>u16\<close>: the conversion from \<open>u16\<close> refuses 0.\<close>

type_synonym pid = u16

definition pid_try_from :: "u16 \<Rightarrow> pid option" where
  "pid_try_from w = (if w = 0 then None else Some w)"

datatype qos = AtMostOnce | AtLeastOnce | ExactlyOnce

datatype qospid = QP_AtMostOnce | QP_AtLeastOnce pid | QP_ExactlyOnce pid

fun qospid_qos :: "qospid \<Rightarrow> qos" where
  "qospid_qos QP_AtMostOnce = AtMostOnce"
| "qospid_qos (QP_AtLeastOnce _) = AtLeastOnce"
| "qospid_qos (QP_ExactlyOnce _) = ExactlyOnce"

fun qospid_pid :: "qospid \<Rightarrow> pid option" where
  "qospid_pid QP_AtMostOnce = None"
| "qospid_pid (QP_AtLeastOnce p) = Some p"
| "qospid_pid (QP_ExactlyOnce p) = Some p"

record publish =
  dup :: bool
  qospid :: qospid
  retain :: bool
  topic_name :: string
  payload :: "byte list"

record last_will =
  lw_topic :: string
  lw_message :: "byte list"
  lw_qos :: qos
  lw_retain :: bool

record connect_packet =
  keep_alive :: u16
  client_id :: string
  clean_session :: bool
  last_will_of :: "last_will option"
  username :: "string option"
  password :: "byte list option"

datatype connect_return_code =
  Accepted | RefusedProtocolVersion | RefusedIdentifierRejected | ServerUnavailable
  | BadUsernamePassword | NotAuthorized

datatype subscribe_return_code = Success qos | Failure

type_synonym subscribe_topic = "string \<times> qos"

datatype packet =
    Connect connect_packet
  | Connack bool connect_return_code
  | Publish publish
  | Puback pid
  | Pubrec pid
  | Pubrel pid
  | Pubcomp pid
  | Subscribe pid "subscribe_topic list"
  | Suback pid "subscribe_return_code list"
  | Unsubscribe pid "string list"
  | Unsuback pid
  | Pingreq
  | Pingresp
  | Disconnect

datatype codec_error = WriteZero | OtherCodecError nat

datatype error_kind = ErrorKind nat

section \<open>Errors and events of the crate\<close>

datatype mqtt_error =
    ConnectionFailed2 error_kind
  | DnsFailed
  | BufferTooSmall
  | ConnackError
  | AuthenticationError
  | CodecError codec_error
  | ReceivedMessageTooLong
  | SubscribeOrUnsubscribeFailed
  | InternalError
  | QueueFull qospid
  | UnexpectedAck pid
  | PubsubError nat
  | TopicSizeError

datatype unique_id = UniqueID u32

datatype mqtt_event =
    PublishDone unique_id
  | SubscribeDone unique_id "mqtt_error + qos"
  | UnsubscribeDone unique_id

section \<open>Outcomes\<close>

text \<open>
  What running a piece of the code leads to: it returns \<open>Ok v\<close>, it returns \<open>Err e\<close>, it
  panics (a failed \<open>unwrap\<close>, \<open>expect\<close>, \<open>assert!\<close> or an explicit \<open>panic!\<close>), it
  executes undefined behaviour (an \<open>unsafe\<close> call outside its contract), it waits on a future
  that does not become ready before its caller drops it, or it loops forever.
\<close>

datatype 'a outcome = Ok 'a | Err mqtt_error | Panic | Undefined_Behaviour | Pending | Diverges

fun obind :: "'a outcome \<Rightarrow> ('a \<Rightarrow> 'b outcome) \<Rightarrow> 'b outcome" where
  "obind (Ok v) f = f v"
| "obind (Err e) f = Err e"
| "obind Panic f = Panic"
| "obind Undefined_Behaviour f = Undefined_Behaviour"
| "obind Pending f = Pending"
| "obind Diverges f = Diverges"

lemma obind_Ok_iff: "obind m f = Ok v \<longleftrightarrow> (\<exists>u. m = Ok u \<and> f u = Ok v)"
  by (cases m) auto

definition no_panic :: "'a outcome \<Rightarrow> bool" where
  "no_panic r \<longleftrightarrow> r \<noteq> Panic \<and> r \<noteq> Undefined_Behaviour"

lemma no_panic_simps [simp]:
  "no_panic (Ok v)" "no_panic (Err e)" "no_panic Pending" "no_panic Diverges" "\<not> no_panic Panic"
  "\<not> no_panic Undefined_Behaviour"
  by (simp_all add: no_panic_def)

fun unwrap_sum :: "'e + 'a \<Rightarrow> 'a outcome" where
  \<comment> \<open>\<open>Result::unwrap\<close>\<close>
  "unwrap_sum (Inr v) = Ok v"
| "unwrap_sum (Inl e) = Panic"

fun unwrap_option :: "'a option \<Rightarrow> 'a outcome" where
  \<comment> \<open>\<open>Option::unwrap\<close> and \<open>expect\<close>\<close>
  "unwrap_option (Some v) = Ok v"
| "unwrap_option None = Panic"

definition vec_push_unchecked :: "nat \<Rightarrow> 'a \<Rightarrow> 'a list \<Rightarrow> 'a list outcome" where
  \<comment> \<open>\<open>unsafe\<close>: the caller must leave room for the element.\<close>
  "vec_push_unchecked cap x xs = (if length xs < cap then Ok (xs @ [x]) else Undefined_Behaviour)"

declare vec_push_unchecked_def [vec_simps]

section \<open>Conversions into bounded containers\<close>

definition string_try_from :: "nat \<Rightarrow> string \<Rightarrow> string option" where
  \<comment> \<open>\<open>heapless::String::<N>::try_from\<close>: fails when the text is longer than \<open>N\<close> bytes.\<close>
  "string_try_from cap s = (if length s \<le> cap then Some s else None)"

definition vec_try_from :: "nat \<Rightarrow> 'a list \<Rightarrow> 'a list option" where
  \<comment> \<open>\<open>heapless::Vec::<T, N>::try_from\<close> on a slice\<close>
  "vec_try_from cap xs = (if length xs \<le> cap then Some xs else None)"

fun collect_into :: "nat \<Rightarrow> ('a \<Rightarrow> 'b outcome) \<Rightarrow> 'a list \<Rightarrow> 'b list \<Rightarrow> 'b list outcome" where
  \<comment> \<open>\<open>iter.map(f).collect::<Result<Vec<_, N>, _>>()\<close>: the first error stops the collection; an
     element that does not fit the vector panics.\<close>
  "collect_into cap f [] acc = Ok acc"
| "collect_into cap f (x # xs) acc =
     obind (f x) (\<lambda>y. if length acc < cap then collect_into cap f xs (acc @ [y]) else Panic)"

lemma collect_into_Ok:
  "length acc + length xs \<le> cap \<Longrightarrow> (\<And>x. x \<in> set xs \<Longrightarrow> f x = Ok (g x)) \<Longrightarrow>
    collect_into cap f xs acc = Ok (acc @ map g xs)"
  by (induction xs arbitrary: acc) auto

end
