(* ===== verification/Stack_Buffer.thy ===== *)
theory Stack_Buffer
  imports Mqtt_Types
begin

text \<open>
  \<open>src/src/buffer.rs\<close>: the byte buffer in front of and behind the TCP connection.  A
  \<open>StackBuffer<N>\<close> is an array of \<open>N\<close> bytes with a read and a write position; bytes are
  written behind the write position, read from the read position, and \<open>flip\<close> moves the
  unread bytes to the front.  Positions are \<open>nat\<close> values that the operations keep within the
  array; a slice outside the array and a subtraction below zero are panics.
\<close>

section \<open>Operations\<close>

datatype buffer_error = OutOfBounds

record stack_buffer =
  data :: "byte list"
  read_position :: nat
  write_position :: nat

definition new_buffer :: "nat \<Rightarrow> stack_buffer" where
  "new_buffer n = \<lparr>data = replicate n 0, read_position = 0, write_position = 0\<rparr>"

definition reaable_data :: "stack_buffer \<Rightarrow> byte list outcome" where
  \<comment> \<open>\<open>&self.data[read_position..write_position]\<close>\<close>
  "reaable_data b =
     (if read_position b \<le> write_position b \<and> write_position b \<le> length (data b)
      then Ok (drop (read_position b) (take (write_position b) (data b)))
      else Panic)"

definition flip :: "stack_buffer \<Rightarrow> stack_buffer outcome" where
  \<comment> \<open>\<open>rotate_left\<close> asserts that its argument is within the sl.\<close>
  "flip b =
     (if 0 < read_position b then
        (if read_position b \<le> length (data b) \<and> read_position b \<le> write_position b then
           Ok (b\<lparr>data := rotate (read_position b) (data b),
                 write_position := write_position b - read_position b,
                 read_position := 0\<rparr>)
         else Panic)
      else Ok b)"

definition writeable_data :: "stack_buffer \<Rightarrow> (byte list \<times> stack_buffer) outcome" where
  \<comment> \<open>The slice handed out, as its current bytes, and the buffer it points into.\<close>
  "writeable_data b =
     obind (if write_position b = length (data b) then flip b else Ok b)
       (\<lambda>b'. if write_position b' \<le> length (data b') then Ok (drop (write_position b') (data b'), b')
             else Panic)"

definition fill_writeable :: "byte list \<Rightarrow> stack_buffer \<Rightarrow> stack_buffer" where
  \<comment> \<open>The bytes a caller stores at the front of the slice that \<open>writeable_data\<close> handed out;
     nothing is stored behind the array's end.\<close>
  "fill_writeable bs b =
     b\<lparr>data := take (length (data b))
        (take (write_position b) (data b) @ bs @ drop (write_position b + length bs) (data b))\<rparr>"

definition add_bytes_read :: "nat \<Rightarrow> stack_buffer \<Rightarrow> buffer_error + stack_buffer" where
  "add_bytes_read bytes_read b =
     (if write_position b < read_position b + bytes_read then Inl OutOfBounds
      else Inr (b\<lparr>read_position := read_position b + bytes_read\<rparr>))"

definition commit_bytes_written :: "nat \<Rightarrow> stack_buffer \<Rightarrow> buffer_error + stack_buffer" where
  "commit_bytes_written bytes_written b =
     (if length (data b) < write_position b + bytes_written then Inl OutOfBounds
      else Inr (b\<lparr>write_position := write_position b + bytes_written\<rparr>))"

definition push :: "byte list \<Rightarrow> stack_buffer \<Rightarrow> (buffer_error + stack_buffer) outcome" where
  "push bs b =
     obind (flip b) (\<lambda>b1.
     obind (writeable_data b1) (\<lambda>(writeable, b2).
       if length bs \<le> length writeable
       then Ok (commit_bytes_written (length bs) (fill_writeable bs b2))
       else Ok (Inl OutOfBounds)))"

definition capacity :: "stack_buffer \<Rightarrow> nat" where
  "capacity b = length (data b)"

definition is_max_capacity :: "stack_buffer \<Rightarrow> bool" where
  "is_max_capacity b \<longleftrightarrow> write_position b = 0"

definition is_max_len :: "stack_buffer \<Rightarrow> bool" where
  "is_max_len b \<longleftrightarrow> read_position b = 0 \<and> write_position b = length (data b)"

definition has_remaining_len :: "stack_buffer \<Rightarrow> bool" where
  "has_remaining_len b \<longleftrightarrow> read_position b < write_position b"

definition buffer_reset :: "stack_buffer \<Rightarrow> stack_buffer" where
  "buffer_reset b = b\<lparr>write_position := 0, read_position := 0\<rparr>"

section \<open>Invariant and abstraction\<close>

definition wf_buffer :: "stack_buffer \<Rightarrow> bool" where
  "wf_buffer b \<longleftrightarrow> read_position b \<le> write_position b \<and> write_position b \<le> length (data b)"

definition contents :: "stack_buffer \<Rightarrow> byte list" where
  \<comment> \<open>The unread bytes, oldest first.\<close>
  "contents b = drop (read_position b) (take (write_position b) (data b))"

definition room :: "stack_buffer \<Rightarrow> nat" where
  \<comment> \<open>Length of the slice the next \<open>writeable_data\<close> hands out.\<close>
  "room b = (if write_position b = length (data b) then read_position b
             else length (data b) - write_position b)"

named_theorems buffer_simps \<open>well-formed buffers as byte queues\<close>

lemma wf_new_buffer [simp]: "wf_buffer (new_buffer n)"
  by (simp add: wf_buffer_def new_buffer_def)

lemma contents_new_buffer [simp]: "contents (new_buffer n) = []"
  by (simp add: contents_def new_buffer_def)

lemma capacity_new_buffer [simp]: "capacity (new_buffer n) = n"
  by (simp add: capacity_def new_buffer_def)

lemma wf_reset [simp]: "wf_buffer (buffer_reset b)"
  by (simp add: wf_buffer_def buffer_reset_def)

lemma contents_reset [simp]: "contents (buffer_reset b) = []"
  by (simp add: contents_def buffer_reset_def)

lemma capacity_reset [simp]: "capacity (buffer_reset b) = capacity b"
  by (simp add: capacity_def buffer_reset_def)

lemma length_contents: "wf_buffer b \<Longrightarrow> length (contents b) = write_position b - read_position b"
  by (simp add: wf_buffer_def contents_def)

lemma length_contents_le: "wf_buffer b \<Longrightarrow> length (contents b) \<le> capacity b"
  using length_contents [of b] by (auto simp: capacity_def wf_buffer_def)

lemma reaable_data_wf [buffer_simps]: "wf_buffer b \<Longrightarrow> reaable_data b = Ok (contents b)"
  by (simp add: reaable_data_def wf_buffer_def contents_def)

lemma has_remaining_len_wf [buffer_simps]:
  "wf_buffer b \<Longrightarrow> has_remaining_len b \<longleftrightarrow> contents b \<noteq> []"
  by (simp add: length_contents has_remaining_len_def flip: length_greater_0_conv)

lemma is_max_len_wf: "wf_buffer b \<Longrightarrow> is_max_len b \<longleftrightarrow> length (contents b) = capacity b"
  by (auto simp: is_max_len_def capacity_def wf_buffer_def length_contents)

lemma take_rotate_drop:
  "r \<le> w \<Longrightarrow> w \<le> length xs \<Longrightarrow> take (w - r) (rotate r xs) = drop r (take w xs)"
  by (cases "r = length xs") (auto simp: rotate_drop_take drop_take)

lemma flip_wf:
  assumes "wf_buffer b"
  obtains b' where "flip b = Ok b'" "wf_buffer b'" "contents b' = contents b"
    "capacity b' = capacity b" "read_position b' = 0"
    "write_position b' = length (contents b)"
proof (cases "0 < read_position b")
  case True
  let ?b = "b\<lparr>data := rotate (read_position b) (data b),
              write_position := write_position b - read_position b, read_position := 0\<rparr>"
  from assms True have "flip b = Ok ?b" by (simp add: flip_def wf_buffer_def)
  moreover from assms have "wf_buffer ?b" by (auto simp: wf_buffer_def)
  moreover from assms have "contents ?b = contents b"
    by (simp add: contents_def wf_buffer_def take_rotate_drop)
  ultimately show ?thesis
    using that assms by (simp add: capacity_def length_contents)
next
  case False
  with assms that show ?thesis by (simp add: flip_def length_contents)
qed

lemma writeable_data_wf:
  assumes "wf_buffer b"
  obtains sl b' where "writeable_data b = Ok (sl, b')" "wf_buffer b'"
    "contents b' = contents b" "capacity b' = capacity b" "length sl = room b"
    "write_position b' + room b = capacity b"
proof (cases "write_position b = length (data b)")
  case True
  from assms obtain b' where b': "flip b = Ok b'" "wf_buffer b'" "contents b' = contents b"
    "capacity b' = capacity b" "write_position b' = length (contents b)"
    by (rule flip_wf)
  from assms True have "length (contents b) + read_position b = capacity b"
    by (simp add: length_contents capacity_def wf_buffer_def)
  with that [of "drop (write_position b') (data b')" b'] b' True show ?thesis
    by (simp add: writeable_data_def room_def capacity_def)
next
  case False
  with that [of "drop (write_position b) (data b)" b] assms show ?thesis
    by (simp add: writeable_data_def room_def capacity_def wf_buffer_def)
qed

lemma fill_commit_wf:
  assumes "wf_buffer b" and "write_position b + length bs \<le> capacity b"
  obtains b' where "commit_bytes_written (length bs) (fill_writeable bs b) = Inr b'"
    "wf_buffer b'" "contents b' = contents b @ bs" "capacity b' = capacity b"
    "write_position b' = write_position b + length bs" "read_position b' = read_position b"
proof
  let ?b = "(fill_writeable bs b)\<lparr>write_position := write_position b + length bs\<rparr>"
  from assms show "commit_bytes_written (length bs) (fill_writeable bs b) = Inr ?b"
    by (simp add: commit_bytes_written_def fill_writeable_def capacity_def wf_buffer_def)
  from assms show "wf_buffer ?b" by (simp add: wf_buffer_def fill_writeable_def capacity_def)
  from assms show "contents ?b = contents b @ bs"
    by (simp add: contents_def fill_writeable_def capacity_def wf_buffer_def)
  from assms show "capacity ?b = capacity b"
    by (simp add: capacity_def fill_writeable_def wf_buffer_def)
  show "write_position ?b = write_position b + length bs" by simp
  show "read_position ?b = read_position b" by (simp add: fill_writeable_def)
qed

lemma add_bytes_read_wf [buffer_simps]:
  assumes "wf_buffer b"
  shows "add_bytes_read n b =
    (if n \<le> length (contents b) then Inr (b\<lparr>read_position := read_position b + n\<rparr>)
     else Inl OutOfBounds)"
  using assms by (auto simp: add_bytes_read_def length_contents wf_buffer_def)

lemma consume_wf:
  assumes "wf_buffer b" and "n \<le> length (contents b)"
  shows "wf_buffer (b\<lparr>read_position := read_position b + n\<rparr>)"
    and "contents (b\<lparr>read_position := read_position b + n\<rparr>) = drop n (contents b)"
    and "capacity (b\<lparr>read_position := read_position b + n\<rparr>) = capacity b"
  using assms length_contents [of b]
  by (auto simp: wf_buffer_def contents_def capacity_def add.commute)

section \<open>The buffer as a bounded byte queue\<close>

text \<open>
  The connection uses a buffer in two moves: it asks for the writeable slice and stores bytes
  at its front, or it looks at the readable bytes and marks a prefix of them as read.  The
  locale is that contract; the connection's lemmas rest on it.
\<close>

definition store :: "byte list \<Rightarrow> stack_buffer \<Rightarrow> stack_buffer outcome" where
  \<comment> \<open>Store \<open>bs\<close> in the writeable slice, then \<open>commit_bytes_written(n).unwrap()\<close>.\<close>
  "store bs b = unwrap_sum (commit_bytes_written (length bs) (fill_writeable bs b))"

definition consume :: "nat \<Rightarrow> stack_buffer \<Rightarrow> stack_buffer outcome" where
  \<comment> \<open>\<open>add_bytes_read(n).unwrap()\<close>\<close>
  "consume n b = unwrap_sum (add_bytes_read n b)"

definition avail :: "stack_buffer \<Rightarrow> nat" where
  "avail b = length (data b) - write_position b"

locale byte_fifo =
  fixes inv :: "'b \<Rightarrow> bool"
    and cont :: "'b \<Rightarrow> byte list"
    and cap :: "'b \<Rightarrow> nat"
    and av :: "'b \<Rightarrow> nat"
    and prepare :: "'b \<Rightarrow> (byte list \<times> 'b) outcome"
    and put :: "byte list \<Rightarrow> 'b \<Rightarrow> 'b outcome"
    and readable :: "'b \<Rightarrow> byte list outcome"
    and discard :: "nat \<Rightarrow> 'b \<Rightarrow> 'b outcome"
  assumes prepare: "inv b \<Longrightarrow> \<exists>sl b'. prepare b = Ok (sl, b') \<and> inv b' \<and>
      cont b' = cont b \<and> cap b' = cap b \<and> av b' = length sl"
    and put: "inv b \<Longrightarrow> length bs \<le> av b \<Longrightarrow> \<exists>b'. put bs b = Ok b' \<and> inv b' \<and>
      cont b' = cont b @ bs \<and> cap b' = cap b"
    and readable: "inv b \<Longrightarrow> readable b = Ok (cont b)"
    and discard: "inv b \<Longrightarrow> n \<le> length (cont b) \<Longrightarrow> \<exists>b'. discard n b = Ok b' \<and> inv b' \<and>
      cont b' = drop n (cont b) \<and> cap b' = cap b"
    and discard_over: "inv b \<Longrightarrow> length (cont b) < n \<Longrightarrow> discard n b = Panic"
    and bounded: "inv b \<Longrightarrow> length (cont b) \<le> cap b"
begin

lemma prepare_put:
  assumes "inv b" and "prepare b = Ok (sl, b1)" and "length bs \<le> length sl"
  obtains b2 where "put bs b1 = Ok b2" "inv b2" "cont b2 = cont b @ bs" "cap b2 = cap b"
  using assms prepare [of b] put [of b1 bs] by auto

lemma slice_bound:
  assumes "inv b" and "prepare b = Ok (sl, b1)"
  shows "length (cont b) + length sl \<le> cap b"
proof -
  have "length (replicate (length sl) (0::byte)) \<le> length sl" by simp
  with assms obtain b2 where "inv b2" "cont b2 = cont b @ replicate (length sl) 0" "cap b2 = cap b"
    by (rule prepare_put)
  then show ?thesis using bounded [of b2] by simp
qed

lemma read_discard:
  assumes "inv b" and "n \<le> length (cont b)"
  obtains bs b' where "readable b = Ok bs" "discard n b = Ok b'" "inv b'"
    "take n bs @ cont b' = cont b" "cap b' = cap b"
  using assms readable [of b] discard [of b n] by fastforce

lemma discard_Ok_iff: "inv b \<Longrightarrow> (\<exists>b'. discard n b = Ok b') \<longleftrightarrow> n \<le> length (cont b)"
  using discard [of b n] discard_over [of b n] by force

end

interpretation sb: byte_fifo wf_buffer contents capacity avail writeable_data store reaable_data consume
proof unfold_locales
  fix b :: stack_buffer
  assume wf: "wf_buffer b"
  show "\<exists>sl b'. writeable_data b = Ok (sl, b') \<and> wf_buffer b' \<and> contents b' = contents b \<and>
      capacity b' = capacity b \<and> avail b' = length sl"
    using writeable_data_wf [OF wf] by (metis avail_def capacity_def diff_add_inverse)
  show "reaable_data b = Ok (contents b)" using wf by (rule reaable_data_wf)
  show "length (contents b) \<le> capacity b" using wf by (rule length_contents_le)
next
  fix b :: stack_buffer and bs :: "byte list"
  assume wf: "wf_buffer b" and "length bs \<le> avail b"
  then have "write_position b + length bs \<le> capacity b"
    by (auto simp: avail_def capacity_def wf_buffer_def)
  with wf show "\<exists>b'. store bs b = Ok b' \<and> wf_buffer b' \<and> contents b' = contents b @ bs \<and>
      capacity b' = capacity b"
    by (rule fill_commit_wf) (auto simp: store_def)
next
  fix b :: stack_buffer and n :: nat
  assume "wf_buffer b" and "n \<le> length (contents b)"
  then show "\<exists>b'. consume n b = Ok b' \<and> wf_buffer b' \<and> contents b' = drop n (contents b) \<and>
      capacity b' = capacity b"
    by (simp add: consume_def add_bytes_read_wf consume_wf)
next
  fix b :: stack_buffer and n :: nat
  assume "wf_buffer b" and "length (contents b) < n"
  then show "consume n b = Panic" by (simp add: consume_def add_bytes_read_wf)
qed

lemma store_over: "wf_buffer b \<Longrightarrow> avail b < length bs \<Longrightarrow> store bs b = Panic"
  by (auto simp: store_def commit_bytes_written_def fill_writeable_def avail_def wf_buffer_def)

lemma push_wf:
  assumes wf: "wf_buffer b"
  shows "length (contents b) + length bs \<le> capacity b \<Longrightarrow>
      \<exists>b'. push bs b = Ok (Inr b') \<and> wf_buffer b' \<and> contents b' = contents b @ bs \<and>
        capacity b' = capacity b"
    and "capacity b < length (contents b) + length bs \<Longrightarrow> push bs b = Ok (Inl OutOfBounds)"
proof -
  from wf obtain b1 where b1: "flip b = Ok b1" "wf_buffer b1" "contents b1 = contents b"
    "capacity b1 = capacity b" "read_position b1 = 0" "write_position b1 = length (contents b)"
    by (rule flip_wf)
  from b1(2) obtain sl b2 where b2: "writeable_data b1 = Ok (sl, b2)" "wf_buffer b2"
    "contents b2 = contents b1" "capacity b2 = capacity b1" "length sl = room b1"
    "write_position b2 + room b1 = capacity b1"
    by (rule writeable_data_wf)
  from b1 have room: "room b1 = capacity b - length (contents b)"
    by (auto simp: room_def capacity_def)
  have le: "length (contents b) \<le> capacity b" using wf by (rule length_contents_le)
  {
    assume "length (contents b) + length bs \<le> capacity b"
    with b2 room b1(4) have fit: "write_position b2 + length bs \<le> capacity b2"
      and "length bs \<le> length sl" by auto
    from b2(2) fit obtain b3 where
      "commit_bytes_written (length bs) (fill_writeable bs b2) = Inr b3" "wf_buffer b3"
      "contents b3 = contents b2 @ bs" "capacity b3 = capacity b2"
      by (rule fill_commit_wf)
    with b1 b2 \<open>length bs \<le> length sl\<close>
    show "\<exists>b'. push bs b = Ok (Inr b') \<and> wf_buffer b' \<and> contents b' = contents b @ bs \<and>
        capacity b' = capacity b"
      by (simp add: push_def)
  next
    assume "capacity b < length (contents b) + length bs"
    with room b2(5) le have "\<not> length bs \<le> length sl" by simp
    with b1(1) b2(1) show "push bs b = Ok (Inl OutOfBounds)" by (simp add: push_def)
  }
qed

section \<open>The borrow counter\<close>

text \<open>
  A \<open>StackBufferCell\<close> hands out references to its buffer through an \<open>UnsafeCell\<close>; the
  counter \<open>borrows\<close> is all that keeps two of them from being alive at once.  A plain
  reference (\<open>BufferRef\<close>) may become a mapped one (\<open>MappedBufferRef\<close>), which still owns the
  borrow and marks its bytes as read when it is dropped.
\<close>

record buffer_cell =
  cell_buffer :: stack_buffer
  borrows :: nat

definition new_cell :: "nat \<Rightarrow> buffer_cell" where
  "new_cell n = \<lparr>cell_buffer = new_buffer n, borrows = 0\<rparr>"

definition cell_borrow :: "buffer_cell \<Rightarrow> buffer_cell outcome" where
  "cell_borrow c = (if 0 < borrows c then Panic else Ok (c\<lparr>borrows := borrows c + 1\<rparr>))"

definition bufref_drop :: "buffer_cell \<Rightarrow> buffer_cell outcome" where
  \<comment> \<open>\<open>Drop for BufferRef\<close> with \<open>execute_drop\<close> set\<close>
  "bufref_drop c = (if borrows c = 0 then Panic else Ok (c\<lparr>borrows := borrows c - 1\<rparr>))"

definition bufref_map ::
  "(byte list \<Rightarrow> nat \<times> 't) \<Rightarrow> buffer_cell \<Rightarrow> (nat \<times> 't) outcome" where
  \<comment> \<open>The mapped reference is the number of bytes it will consume and the value.\<close>
  "bufref_map f c = obind (reaable_data (cell_buffer c)) (\<lambda>bs. Ok (f bs))"

definition try_map_maybe ::
  "(byte list \<Rightarrow> 'e + (nat \<times> 't) option) \<Rightarrow> buffer_cell
    \<Rightarrow> (('e + (nat \<times> 't) option) \<times> buffer_cell) outcome" where
  \<comment> \<open>Only \<open>Ok(Some(_))\<close> keeps the borrow; otherwise the plain reference is dropped.\<close>
  "try_map_maybe f c =
     obind (reaable_data (cell_buffer c)) (\<lambda>bs.
       case f bs of
         Inr (Some (bytes_read, v)) \<Rightarrow> Ok (Inr (Some (bytes_read, v)), c)
       | r \<Rightarrow> obind (bufref_drop c) (\<lambda>c'. Ok (r, c')))"

definition mapped_drop :: "nat \<Rightarrow> buffer_cell \<Rightarrow> buffer_cell outcome" where
  "mapped_drop bytes_read c =
     obind (unwrap_sum (add_bytes_read bytes_read (cell_buffer c)))
       (\<lambda>b. bufref_drop (c\<lparr>cell_buffer := b\<rparr>))"

text \<open>
  Runs of a cell: the live references are listed beside it.  A plain reference may write to
  the buffer through \<open>DerefMut\<close>, drop, or become a mapped reference; the closures are the
  packet decoder's shape.
\<close>

datatype cell_ref = Plain | Mapped nat

inductive cell_step ::
  "buffer_cell \<times> cell_ref list \<Rightarrow> buffer_cell \<times> cell_ref list \<Rightarrow> bool" where
  borrow: "cell_borrow c = Ok c' \<Longrightarrow> cell_step (c, rs) (c', Plain # rs)"
| mutate: "wf_buffer b \<Longrightarrow> Plain \<in> set rs \<Longrightarrow> cell_step (c, rs) (c\<lparr>cell_buffer := b\<rparr>, rs)"
| drop_plain: "bufref_drop c = Ok c' \<Longrightarrow> cell_step (c, rs @ Plain # rs') (c', rs @ rs')"
| map_some: "try_map_maybe (f :: byte list \<Rightarrow> codec_error + (nat \<times> packet) option) c
      = Ok (Inr (Some (n, v)), c')
    \<Longrightarrow> cell_step (c, rs @ Plain # rs') (c', rs @ Mapped n # rs')"
| map_other: "try_map_maybe (f :: byte list \<Rightarrow> codec_error + (nat \<times> packet) option) c = Ok (r, c')
    \<Longrightarrow> r = Inl e \<or> r = Inr None \<Longrightarrow> cell_step (c, rs @ Plain # rs') (c', rs @ rs')"
| map_all: "bufref_map (g :: byte list \<Rightarrow> nat \<times> packet) c = Ok (n, v)
    \<Longrightarrow> cell_step (c, rs @ Plain # rs') (c, rs @ Mapped n # rs')"
| drop_mapped: "mapped_drop n c = Ok c' \<Longrightarrow> cell_step (c, rs @ Mapped n # rs') (c', rs @ rs')"

inductive cell_reachable :: "nat \<Rightarrow> buffer_cell \<times> cell_ref list \<Rightarrow> bool" for n where
  start: "cell_reachable n (new_cell n, [])"
| step: "cell_reachable n s \<Longrightarrow> cell_step s t \<Longrightarrow> cell_reachable n t"

definition cell_inv :: "buffer_cell \<times> cell_ref list \<Rightarrow> bool" where
  "cell_inv s \<longleftrightarrow> length (snd s) = borrows (fst s) \<and> borrows (fst s) \<le> 1
     \<and> wf_buffer (cell_buffer (fst s))"

lemma bufref_drop_Ok:
  "bufref_drop c = Ok c' \<longleftrightarrow> 0 < borrows c \<and> c' = c\<lparr>borrows := borrows c - 1\<rparr>"
  by (auto simp: bufref_drop_def)

lemma try_map_maybe_Ok:
  assumes "try_map_maybe f c = Ok (r, c')"
  shows "case r of Inr (Some _) \<Rightarrow> c' = c | _ \<Rightarrow> bufref_drop c = Ok c'"
proof -
  from assms obtain bs where bs: "reaable_data (cell_buffer c) = Ok bs"
    by (auto simp: try_map_maybe_def obind_Ok_iff)
  show ?thesis
  proof (cases "f bs")
    case (Inl e)
    with assms bs show ?thesis by (auto simp: try_map_maybe_def obind_Ok_iff split: sum.splits)
  next
    case (Inr r')
    with assms bs show ?thesis
      by (cases r') (auto simp: try_map_maybe_def obind_Ok_iff split: sum.splits option.splits)
  qed
qed

lemma mapped_drop_wf:
  assumes "wf_buffer (cell_buffer c)" and "mapped_drop n c = Ok c'"
  shows "wf_buffer (cell_buffer c') \<and> contents (cell_buffer c') = drop n (contents (cell_buffer c))
    \<and> n \<le> length (contents (cell_buffer c)) \<and> 0 < borrows c \<and> borrows c' = borrows c - 1"
proof -
  from assms(2) obtain b where b: "consume n (cell_buffer c) = Ok b"
    "bufref_drop (c\<lparr>cell_buffer := b\<rparr>) = Ok c'"
    by (auto simp: mapped_drop_def obind_Ok_iff consume_def)
  from sb.discard_Ok_iff [OF assms(1)] b(1) have n: "n \<le> length (contents (cell_buffer c))" by blast
  from sb.discard [OF assms(1) n] b(1)
  have "wf_buffer b \<and> contents b = drop n (contents (cell_buffer c))" by auto
  with b(2) n show ?thesis by (simp add: bufref_drop_Ok)
qed

lemma cell_inv_single:
  assumes "cell_inv (c, rs @ r # rs')"
  shows "rs = [] \<and> rs' = [] \<and> borrows c = 1 \<and> wf_buffer (cell_buffer c)"
proof -
  from assms have "length rs + length rs' + 1 = borrows c" "borrows c \<le> 1" "wf_buffer (cell_buffer c)"
    by (simp_all add: cell_inv_def)
  then have "length rs = 0" "length rs' = 0" "borrows c = 1" by linarith+
  with \<open>wf_buffer (cell_buffer c)\<close> show ?thesis by simp
qed

lemma cell_step_inv: "cell_step s t \<Longrightarrow> cell_inv s \<Longrightarrow> cell_inv t"
proof (induction rule: cell_step.induct)
  case (borrow c c' rs)
  then show ?case by (auto simp: cell_inv_def cell_borrow_def split: if_splits)
next
  case (mutate b rs c)
  then show ?case by (simp add: cell_inv_def)
next
  case (drop_plain c c' rs rs')
  with cell_inv_single [OF drop_plain(2)] show ?case by (auto simp: cell_inv_def bufref_drop_Ok)
next
  case (map_some f c n v c' rs rs')
  then show ?case by (auto simp: cell_inv_def dest: try_map_maybe_Ok)
next
  case (map_other f c r c' e rs rs')
  then have "bufref_drop c = Ok c'" by (auto dest: try_map_maybe_Ok)
  with cell_inv_single [OF map_other(3)] show ?case by (auto simp: cell_inv_def bufref_drop_Ok)
next
  case (map_all g c n v rs rs')
  then show ?case by (simp add: cell_inv_def)
next
  case (drop_mapped n c c' rs rs')
  with cell_inv_single [OF drop_mapped(2)] mapped_drop_wf [of c n c'] show ?case
    by (simp add: cell_inv_def)
qed

lemma cell_reachable_inv: "cell_reachable n s \<Longrightarrow> cell_inv s"
proof (induction rule: cell_reachable.induct)
  case start
  show ?case by (simp add: cell_inv_def new_cell_def)
next
  case (step s t)
  then show ?case by (blast intro: cell_step_inv)
qed

section \<open>Properties\<close>

text \<open>C11: \<open>push\<close> implements a bounded first-in-first-out queue of bytes: it appends the whole
  slice when the unread bytes and the new ones fit the capacity, wherever the read position
  stands, and refuses it otherwise; a refusal never panics.\<close>

theorem push_is_bounded_enqueue:
  assumes "wf_buffer b"
  shows "if length (contents b) + length bs \<le> capacity b
    then \<exists>b'. push bs b = Ok (Inr b') \<and> wf_buffer b' \<and> capacity b' = capacity b
           \<and> reaable_data b' = Ok (contents b @ bs)
    else push bs b = Ok (Inl OutOfBounds)"
  using push_wf [OF assms, of bs] by (auto simp: reaable_data_wf)

theorem push_is_bounded_enqueue_witness:
  "\<exists>b'. push [4, 5] \<lparr>data = [1, 2, 3, 9], read_position = 1, write_position = 3\<rparr> = Ok (Inr b')
    \<and> reaable_data b' = Ok [2, 3, 4, 5]"
  using push_is_bounded_enqueue
    [of "\<lparr>data = [1, 2, 3, 9], read_position = 1, write_position = 3\<rparr>" "[4, 5]"]
  by (auto simp: wf_buffer_def contents_def capacity_def)

text \<open>C29: whatever sequence of borrows, mutations, mappings and drops a buffer cell goes
  through, at most one reference to its buffer is alive, the counter counts exactly the live
  references, a borrow succeeds exactly when none is alive, and dropping a plain reference
  never panics.\<close>

theorem cell_references_exclusive:
  assumes "cell_reachable n (c, rs)"
  shows "length rs \<le> 1 \<and> borrows c = length rs
    \<and> ((\<exists>c'. cell_borrow c = Ok c') \<longleftrightarrow> rs = [])
    \<and> (Plain \<in> set rs \<longrightarrow> bufref_drop c \<noteq> Panic)"
  using cell_reachable_inv [OF assms]
  by (auto simp: cell_inv_def cell_borrow_def bufref_drop_def)

theorem cell_references_exclusive_witness:
  "borrows (new_cell 4\<lparr>borrows := 1\<rparr>) = 1 \<and> cell_borrow (new_cell 4\<lparr>borrows := 1\<rparr>) = Panic"
proof -
  have "cell_step (new_cell 4, []) (new_cell 4\<lparr>borrows := 1\<rparr>, [Plain])"
    by (rule cell_step.borrow) (simp add: cell_borrow_def new_cell_def)
  then have "cell_reachable 4 (new_cell 4\<lparr>borrows := 1\<rparr>, [Plain])"
    by (rule cell_reachable.step [OF cell_reachable.start])
  from cell_references_exclusive [OF this] show ?thesis by (simp add: cell_borrow_def)
qed

text \<open>A packet decoded out of the buffer stays valid until its reference is dropped: the
  decoder sees all unread bytes, the buffer is unchanged and still borrowed while the packet
  is alive, and dropping it removes exactly the bytes the decoder claimed and frees the
  borrow; a claim beyond the unread bytes panics.\<close>

lemma mapped_reference_lifecycle:
  assumes "wf_buffer (cell_buffer c)" and "borrows c = 1"
    and "try_map_maybe f c = Ok (Inr (Some (n, v)), c')"
  shows "f (contents (cell_buffer c)) = Inr (Some (n, v)) \<and> c' = c
    \<and> (if n \<le> length (contents (cell_buffer c))
        then \<exists>c''. mapped_drop n c' = Ok c'' \<and> borrows c'' = 0
               \<and> reaable_data (cell_buffer c'') = Ok (drop n (contents (cell_buffer c)))
        else mapped_drop n c' = Panic)"
proof -
  from assms(1,3) have f: "f (contents (cell_buffer c)) = Inr (Some (n, v))" and c': "c' = c"
    by (auto simp: try_map_maybe_def reaable_data_wf obind_Ok_iff split: sum.splits option.splits)
  have eq: "mapped_drop n c =
      obind (consume n (cell_buffer c)) (\<lambda>b. Ok (c\<lparr>cell_buffer := b, borrows := 0\<rparr>))"
    using assms(2) by (simp add: mapped_drop_def consume_def bufref_drop_def)
  show ?thesis
  proof (cases "n \<le> length (contents (cell_buffer c))")
    case True
    from sb.discard [OF assms(1) True] eq f c' True show ?thesis
      by (auto simp: reaable_data_wf)
  next
    case False
    with sb.discard_over [OF assms(1), of n] eq f c' show ?thesis by simp
  qed
qed

end
