(* ===== verification/Id_Pool.thy ===== *)
theory Id_Pool
  imports Mqtt_Types
begin

text \<open>
  The contract shared by the two identifier pools of the crate, packet identifiers
  (\<open>src/src/state/pid.rs\<close>) and unique request ids (\<open>src/src/lib.rs\<close>): a counter that issues
  new identifiers and a bounded queue of identifiers that were handed back and are issued
  again first.  A caller that only hands back what it holds never gets an identifier that is
  in use; the lemmas are proved once here and interpreted in both pools.
\<close>

text \<open>
  Runs of a pool against its callers: \<open>H\<close> is the set of identifiers in use, and never more
  than \<open>k\<close> of them.
\<close>

inductive id_run ::
  "('s \<Rightarrow> 'i outcome \<times> 's) \<Rightarrow> ('i \<Rightarrow> 's \<Rightarrow> unit outcome \<times> 's) \<Rightarrow> 's \<Rightarrow> nat \<Rightarrow> 's \<Rightarrow> 'i set \<Rightarrow> bool"
  for acquire release s0 k where
  start: "id_run acquire release s0 k s0 {}"
| acquired: "id_run acquire release s0 k s H \<Longrightarrow> card H < k \<Longrightarrow> acquire s = (Ok i, s')
    \<Longrightarrow> id_run acquire release s0 k s' (insert i H)"
| released: "id_run acquire release s0 k s H \<Longrightarrow> i \<in> H \<Longrightarrow> release i s = (Ok (), s')
    \<Longrightarrow> id_run acquire release s0 k s' (H - {i})"

locale id_pool =
  fixes inv :: "'s \<Rightarrow> bool"
    and free_ids :: "'s \<Rightarrow> 'i list"
    and issued :: "'s \<Rightarrow> 'i set"
    and acquire :: "'s \<Rightarrow> 'i outcome \<times> 's"
    and release :: "'i \<Rightarrow> 's \<Rightarrow> unit outcome \<times> 's"
    and init :: 's
  assumes init: "inv init" "free_ids init = []" "issued init = {}"
    and finite_issued: "inv s \<Longrightarrow> finite (issued s)"
    and acquire_again: "inv s \<Longrightarrow> free_ids s = i # is \<Longrightarrow> i \<in> issued s \<Longrightarrow>
      \<exists>s'. acquire s = (Ok i, s') \<and> inv s' \<and> free_ids s' = is \<and> issued s' = issued s"
    and acquire_fresh: "inv s \<Longrightarrow> free_ids s = [] \<Longrightarrow> acquire s = (Ok i, s') \<Longrightarrow>
      i \<notin> issued s \<and> inv s' \<and> free_ids s' = [] \<and> issued s' = insert i (issued s)"
    and release: "inv s \<Longrightarrow> i \<in> issued s \<Longrightarrow> release i s = (Ok (), s') \<Longrightarrow>
      inv s' \<and> issued s' = issued s \<and> (free_ids s' = free_ids s @ [i] \<or> free_ids s' = free_ids s)"
begin

definition owned :: "'s \<Rightarrow> 'i set \<Rightarrow> bool" where
  "owned s H \<longleftrightarrow> inv s \<and> finite H \<and> distinct (free_ids s) \<and> set (free_ids s) \<inter> H = {}
     \<and> set (free_ids s) \<union> H \<subseteq> issued s"

lemma owned_acquire:
  assumes "owned s H" and "acquire s = (Ok i, s')"
  shows "i \<notin> H \<and> owned s' (insert i H)"
proof (cases "free_ids s")
  case Nil
  with assms acquire_fresh [of s i s'] show ?thesis by (auto simp: owned_def)
next
  case (Cons j js)
  with assms acquire_again [of s j js] show ?thesis by (auto simp: owned_def)
qed

lemma owned_release:
  assumes "owned s H" and "i \<in> H" and "release i s = (Ok (), s')"
  shows "owned s' (H - {i})"
proof -
  from assms have "inv s" "i \<in> issued s" by (auto simp: owned_def)
  from release [OF this assms(3)] assms(1,2) show ?thesis by (auto simp: owned_def)
qed

lemma run_owned: "id_run acquire release init k s H \<Longrightarrow> owned s H"
proof (induction rule: id_run.induct)
  case start
  show ?case by (simp add: owned_def init)
next
  case (acquired s H i s')
  then show ?case by (blast dest: owned_acquire)
next
  case (released s H i s')
  then show ?case by (blast intro: owned_release)
qed

lemma run_acquire_new:
  "id_run acquire release init k s H \<Longrightarrow> acquire s = (Ok i, s') \<Longrightarrow> i \<notin> H"
  using run_owned owned_acquire by blast

end

text \<open>
  A pool with room for \<open>cap\<close> handed-back identifiers.  While at most \<open>k \<le> cap\<close> identifiers
  are in use at a time, none is lost and at most \<open>k\<close> are ever issued.
\<close>

locale bounded_id_pool = id_pool inv free_ids issued acquire release init
  for inv :: "'s \<Rightarrow> bool" and free_ids :: "'s \<Rightarrow> 'i list" and issued :: "'s \<Rightarrow> 'i set"
    and acquire :: "'s \<Rightarrow> 'i outcome \<times> 's" and release :: "'i \<Rightarrow> 's \<Rightarrow> unit outcome \<times> 's"
    and init :: 's +
  fixes cap :: nat
  assumes release_room: "inv s \<Longrightarrow> i \<in> issued s \<Longrightarrow> length (free_ids s) < cap \<Longrightarrow>
      \<exists>s'. release i s = (Ok (), s') \<and> free_ids s' = free_ids s @ [i]"
begin

lemma run_conserved:
  assumes "id_run acquire release init k s H" and "k \<le> cap"
  shows "issued s = set (free_ids s) \<union> H \<and> length (free_ids s) + card H \<le> k"
  using assms
proof (induction rule: id_run.induct)
  case start
  then show ?case by (simp add: init)
next
  case (acquired s H i s')
  from acquired.hyps(1) have own: "owned s H" by (rule run_owned)
  have "i \<notin> H" using own acquired.hyps(3) owned_acquire by blast
  moreover have "finite H" "inv s" using own by (simp_all add: owned_def)
  ultimately have card: "card (insert i H) = Suc (card H)" by simp
  note IH = acquired.IH [OF acquired.prems]
  show ?case
  proof (cases "free_ids s")
    case Nil
    from acquire_fresh [OF \<open>inv s\<close> Nil acquired.hyps(3)] IH Nil card acquired.hyps(2)
    show ?thesis by simp
  next
    case (Cons j js)
    with own have "j \<in> issued s" by (simp add: owned_def)
    from acquire_again [OF \<open>inv s\<close> Cons this] acquired.hyps(3)
    have "i = j" "free_ids s' = js" "issued s' = issued s" by auto
    with IH Cons card show ?thesis by auto
  qed
next
  case (released s H i s')
  from released.hyps(1) have own: "owned s H" by (rule run_owned)
  then have fin: "finite H" and i: "inv s" "i \<in> issued s" using released.hyps(2)
    by (auto simp: owned_def)
  from fin released.hyps(2) have card: "card H = Suc (card (H - {i}))"
    by (metis card.remove)
  note IH = released.IH [OF released.prems]
  with card released.prems have "length (free_ids s) < cap" by simp
  from release_room [OF i this] released.hyps(3) have "free_ids s' = free_ids s @ [i]" by auto
  moreover from release [OF i released.hyps(3)] have "issued s' = issued s" by simp
  moreover have "insert i (set (free_ids s) \<union> (H - {i})) = set (free_ids s) \<union> H"
    using released.hyps(2) by blast
  moreover have "length (free_ids s) + 1 + card (H - {i}) = length (free_ids s) + card H"
    using card by simp
  ultimately show ?case using IH by simp
qed

lemma run_release_room:
  assumes "id_run acquire release init k s H" and "k \<le> cap" and "i \<in> H"
  shows "\<exists>s'. release i s = (Ok (), s') \<and> free_ids s' = free_ids s @ [i]"
proof -
  from assms(1) have own: "owned s H" by (rule run_owned)
  then have "0 < card H" using assms(3) by (auto simp: owned_def card_gt_0_iff)
  with run_conserved [OF assms(1,2)] assms(2) have "length (free_ids s) < cap" by simp
  with own assms(3) show ?thesis by (auto simp: owned_def intro: release_room)
qed

lemma run_issued_bound:
  assumes "id_run acquire release init k s H" and "k \<le> cap"
  shows "card (issued s) \<le> k"
proof -
  from run_conserved [OF assms] have "issued s = set (free_ids s) \<union> H"
    "length (free_ids s) + card H \<le> k" by auto
  moreover have "card (set (free_ids s) \<union> H) \<le> length (free_ids s) + card H"
    by (meson add_le_mono card_Un_le card_length le_refl le_trans)
  ultimately show ?thesis by simp
qed

end

end
