(* ===== verification/Pid_Pool.thy ===== *)
theory Pid_Pool
  imports Id_Pool
begin

text \<open>
  \<open>src/src/state/pid.rs\<close>: the pool of packet identifiers.  A \<open>PidPool<POOL_SIZE>\<close> issues
  identifiers 1, 2, 3, ... and reuses those handed back, oldest first; when more than
  \<open>POOL_SIZE\<close> are waiting for reuse, further ones are lost.  The static \<open>POOL\<close> is a
  \<open>PidPool<16>\<close>; its critical section makes every operation atomic, so it is a value of type
  \<open>pid_pool\<close> that the callers thread.
\<close>

section \<open>Operations\<close>

definition PID_POOL_SIZE :: nat where
  "PID_POOL_SIZE = 16"

record pid_pool =
  pool :: "u16 list"
  next_new_pid :: u16

definition new_pid_pool :: pid_pool where
  "new_pid_pool = \<lparr>pool = [], next_new_pid = 1\<rparr>"

definition pid_take :: "pid_pool \<Rightarrow> pid outcome \<times> pid_pool" where
  "pid_take p =
     (let pid = next_new_pid p in
      if next_new_pid p = 0xFFFF then (Panic, p)
      else let p' = p\<lparr>next_new_pid := next_new_pid p + 1\<rparr>
           in (unwrap_option (pid_try_from pid), p'))"

definition pool_next_pid :: "pid_pool \<Rightarrow> pid outcome \<times> pid_pool" where
  "pool_next_pid p =
     (case pool p of
        pid # rest \<Rightarrow> (unwrap_option (pid_try_from pid), p\<lparr>pool := rest\<rparr>)
      | [] \<Rightarrow> pid_take p)"

definition pool_free_pid :: "nat \<Rightarrow> pid \<Rightarrow> pid_pool \<Rightarrow> pid_pool" where
  \<comment> \<open>A pid that finds the queue full is only logged.\<close>
  "pool_free_pid pool_size pid p =
     (case vec_push pool_size pid (pool p) of
        Inr q \<Rightarrow> p\<lparr>pool := q\<rparr>
      | Inl _ \<Rightarrow> p)"

definition next_pid :: "pid_pool \<Rightarrow> pid outcome \<times> pid_pool" where
  "next_pid p = pool_next_pid p"

definition free_pid :: "pid \<Rightarrow> pid_pool \<Rightarrow> pid_pool" where
  "free_pid pid p = pool_free_pid PID_POOL_SIZE pid p"

section \<open>The pool as an identifier pool\<close>

definition pid_inv :: "pid_pool \<Rightarrow> bool" where
  "pid_inv p \<longleftrightarrow> next_new_pid p \<noteq> 0"

definition pids_issued :: "pid_pool \<Rightarrow> pid set" where
  "pids_issued p = {w. 0 < w \<and> w < next_new_pid p}"

lemma unat_u16_max: "unat (- 1 :: u16) = 65535"
proof -
  have "(- 1 :: u16) = 65535" by simp
  then show ?thesis by (simp only: unat_numeral) simp
qed

lemma finite_pids_issued [simp]: "finite (pids_issued p)"
  by (rule finite_subset [of _ UNIV]) auto

lemma next_pid_again:
  "pool p = i # is \<Longrightarrow> i \<in> pids_issued p \<Longrightarrow> next_pid p = (Ok i, p\<lparr>pool := is\<rparr>)"
  by (auto simp: next_pid_def pool_next_pid_def pid_try_from_def pids_issued_def)

lemma next_pid_fresh:
  assumes "pid_inv p" and "pool p = []" and "next_pid p = (Ok i, p')"
  shows "i \<notin> pids_issued p \<and> i \<noteq> 0 \<and> pid_inv p' \<and> pool p' = []
    \<and> pids_issued p' = insert i (pids_issued p)"
proof -
  let ?w = "next_new_pid p"
  from assms have w: "?w \<noteq> - 1" and i: "i = ?w" and p': "p' = p\<lparr>next_new_pid := ?w + 1\<rparr>"
    by (auto simp: next_pid_def pool_next_pid_def pid_take_def pid_try_from_def pid_inv_def Let_def
        split: if_splits)
  from w have "?w + 1 \<noteq> 0" using word_less_inc [of ?w] by auto
  moreover from w assms(1) have "{v. 0 < v \<and> v < ?w + 1} = insert ?w {v. 0 < v \<and> v < ?w}"
    by (auto simp: word_less_inc_iff pid_inv_def word_gt_0)
  ultimately show ?thesis using assms(1,2) by (simp add: i p' pid_inv_def pids_issued_def)
qed

lemma free_pid_issued:
  "pid_inv (free_pid i p) = pid_inv p \<and> pids_issued (free_pid i p) = pids_issued p
    \<and> pool (free_pid i p) = (if length (pool p) < PID_POOL_SIZE then pool p @ [i] else pool p)"
  by (auto simp: free_pid_def pool_free_pid_def vec_push_def pid_inv_def pids_issued_def)

interpretation pids: bounded_id_pool pid_inv pool pids_issued next_pid
  "\<lambda>i p. (Ok (), free_pid i p)" new_pid_pool PID_POOL_SIZE
proof unfold_locales
  show "pid_inv new_pid_pool" "pool new_pid_pool = []" "pids_issued new_pid_pool = {}"
    by (auto simp: pid_inv_def new_pid_pool_def pids_issued_def word_less_nat_alt)
next
  fix p :: pid_pool and i :: u16 and rest
  assume "pid_inv p" "pool p = i # rest" "i \<in> pids_issued p"
  then show "\<exists>p'. next_pid p = (Ok i, p') \<and> pid_inv p' \<and> pool p' = rest
      \<and> pids_issued p' = pids_issued p"
    by (auto simp: next_pid_again pid_inv_def pids_issued_def)
next
  fix p p' :: pid_pool and i :: u16
  assume "pid_inv p" "pool p = []" "next_pid p = (Ok i, p')"
  then show "i \<notin> pids_issued p \<and> pid_inv p' \<and> pool p' = [] \<and> pids_issued p' = insert i (pids_issued p)"
    using next_pid_fresh by blast
next
  fix p p' :: pid_pool and i :: u16
  assume "pid_inv p" "(Ok (), free_pid i p) = (Ok (), p')"
  then show "pid_inv p' \<and> pids_issued p' = pids_issued p
      \<and> (pool p' = pool p @ [i] \<or> pool p' = pool p)"
    using free_pid_issued [of i p] by auto
next
  fix p :: pid_pool and i :: u16
  assume "length (pool p) < PID_POOL_SIZE"
  then show "\<exists>p'. (Ok (), free_pid i p) = (Ok (), p') \<and> pool p' = pool p @ [i]"
    by (simp add: free_pid_issued)
qed (simp)

section \<open>Properties\<close>

text \<open>C12: in any run of the pool against callers that hand back only what they hold, the next
  packet identifier it issues is not zero and is not in use.\<close>

theorem next_pid_never_in_use:
  assumes "id_run next_pid (\<lambda>i p. (Ok (), free_pid i p)) new_pid_pool k p H"
    and "next_pid p = (Ok i, p')"
  shows "i \<noteq> 0 \<and> i \<notin> H"
proof -
  from assms(1) have own: "pids.owned p H" by (rule pids.run_owned)
  have "i \<notin> H" using assms by (rule pids.run_acquire_new)
  moreover have "i \<noteq> 0"
  proof (cases "pool p")
    case Nil
    then show ?thesis using own assms(2) next_pid_fresh by (auto simp: pids.owned_def)
  next
    case (Cons j js)
    with own have "j \<in> pids_issued p" by (simp add: pids.owned_def)
    with next_pid_again [OF Cons this] assms(2) show ?thesis by (auto simp: pids_issued_def)
  qed
  ultimately show ?thesis by simp
qed

lemma pid_run_two:
  "id_run next_pid (\<lambda>i p. (Ok (), free_pid i p)) new_pid_pool 2 \<lparr>pool = [1], next_new_pid = 3\<rparr> {2}"
proof -
  let ?run = "id_run next_pid (\<lambda>i p. (Ok (), free_pid i p)) new_pid_pool 2"
  have "?run new_pid_pool {}" by (rule id_run.start)
  then have "?run \<lparr>pool = [], next_new_pid = 2\<rparr> {1}"
    by (rule id_run.acquired [where H = "{}", simplified])
      (simp_all add: next_pid_def pool_next_pid_def pid_take_def pid_try_from_def new_pid_pool_def)
  then have "?run \<lparr>pool = [], next_new_pid = 3\<rparr> {2, 1}"
    by (rule id_run.acquired) (simp_all add: next_pid_def pool_next_pid_def pid_take_def pid_try_from_def)
  then have "?run \<lparr>pool = [1], next_new_pid = 3\<rparr> ({2, 1} - {1})"
    by (rule id_run.released) (simp_all add: free_pid_def pool_free_pid_def vec_push_def PID_POOL_SIZE_def)
  moreover have "{2, 1} - {1 :: u16} = {2}" by auto
  ultimately show ?thesis by simp
qed

theorem next_pid_never_in_use_witness:
  "next_pid \<lparr>pool = [1], next_new_pid = 3\<rparr> = (Ok 1, \<lparr>pool = [], next_new_pid = 3\<rparr>)
    \<and> (1 :: pid) \<noteq> 0 \<and> (1 :: pid) \<notin> {2}"
proof -
  have "next_pid \<lparr>pool = [1], next_new_pid = 3\<rparr> = (Ok 1, \<lparr>pool = [], next_new_pid = 3\<rparr>)"
    by (simp add: next_pid_def pool_next_pid_def pid_try_from_def)
  with next_pid_never_in_use [OF pid_run_two this] show ?thesis by simp
qed

text \<open>While at most 16 packet identifiers are in use at a time, the pool loses none: every
  identifier issued so far is in use or waiting for reuse, no more than 16 distinct ones are
  ever issued, and asking for one below that limit never panics.\<close>

theorem pid_pool_reuses_within_sixteen:
  assumes "id_run next_pid (\<lambda>i p. (Ok (), free_pid i p)) new_pid_pool k p H" and "k \<le> 16"
  shows "pids_issued p = set (pool p) \<union> H \<and> card (pids_issued p) \<le> k
    \<and> (card H < k \<longrightarrow> (\<exists>i p'. next_pid p = (Ok i, p')))"
proof -
  have k: "k \<le> PID_POOL_SIZE" using assms(2) by (simp add: PID_POOL_SIZE_def)
  from assms(1) have own: "pids.owned p H" by (rule pids.run_owned)
  have card: "card (pids_issued p) \<le> k" using assms(1) k by (rule pids.run_issued_bound)
  have "\<exists>i p'. next_pid p = (Ok i, p')"
  proof (cases "pool p")
    case Nil
    have "next_new_pid p \<noteq> - 1"
    proof
      assume "next_new_pid p = - 1"
      then have "x \<in> pids_issued p" if "x \<in> {1..17}" for x
        using that unat_u16_max by (auto simp: pids_issued_def word_less_nat_alt word_le_nat_alt)
      then have sub: "{1..17} \<subseteq> pids_issued p" by blast
      have "card {1..17 :: u16} \<le> k"
        using card_mono [OF finite_pids_issued sub] card by linarith
      moreover have "card {1..17 :: u16} = 17" by code_simp
      ultimately show False using assms(2) by simp
    qed
    with Nil own show ?thesis
      by (auto simp: next_pid_def pool_next_pid_def pid_take_def pid_try_from_def Let_def
          pids.owned_def pid_inv_def)
  next
    case (Cons j js)
    with own have "j \<in> pids_issued p" by (simp add: pids.owned_def)
    with Cons show ?thesis by (simp add: next_pid_again)
  qed
  with pids.run_conserved [OF assms(1) k] card show ?thesis by simp
qed

theorem pid_pool_reuses_within_sixteen_witness:
  "pids_issued \<lparr>pool = [1], next_new_pid = 3\<rparr> = {2, 1}"
  using pid_pool_reuses_within_sixteen [OF pid_run_two] by simp

end
