(* ===== verification/Control_Flow.thy ===== *)
theory Control_Flow
  imports Mqtt_Types
begin

text \<open>
  Rust control flow over an explicit state: early returns (\<open>?\<close>) and loops that need not end.
  A step takes a state and gives an outcome and the state it reached.
\<close>

section \<open>Sequencing\<close>

text \<open>\<open>and_then r f\<close> is \<open>let v = r?; f(v)\<close>: \<open>f\<close> runs on the value and the state reached when
  \<open>r\<close> returned \<open>Ok\<close>; every other outcome ends the computation in the state it reached.\<close>

fun and_then :: "'a outcome \<times> 's \<Rightarrow> ('a \<Rightarrow> 's \<Rightarrow> 'b outcome \<times> 's) \<Rightarrow> 'b outcome \<times> 's" where
  "and_then (Ok v, s) f = f v s"
| "and_then (Err e, s) f = (Err e, s)"
| "and_then (Panic, s) f = (Panic, s)"
| "and_then (Undefined_Behaviour, s) f = (Undefined_Behaviour, s)"
| "and_then (Pending, s) f = (Pending, s)"
| "and_then (Diverges, s) f = (Diverges, s)"

lemma and_then_cong [fundef_cong]:
  assumes "r = r'" and "\<And>v s. r' = (Ok v, s) \<Longrightarrow> f v s = g v s"
  shows "and_then r f = and_then r' g"
  using assms by (cases "(r, f)" rule: and_then.cases) auto

lemma and_then_Ok:
  "and_then r f = (Ok v, s') \<longleftrightarrow> (\<exists>u s. r = (Ok u, s) \<and> f u s = (Ok v, s'))"
  by (cases "(r, f)" rule: and_then.cases) auto

lemma and_then_split:
  "P (and_then r f) \<longleftrightarrow>
    (\<forall>v s. r = (Ok v, s) \<longrightarrow> P (f v s)) \<and> (\<forall>e s. r = (Err e, s) \<longrightarrow> P (Err e, s)) \<and>
    (\<forall>s. r = (Panic, s) \<longrightarrow> P (Panic, s)) \<and>
    (\<forall>s. r = (Undefined_Behaviour, s) \<longrightarrow> P (Undefined_Behaviour, s)) \<and>
    (\<forall>s. r = (Pending, s) \<longrightarrow> P (Pending, s)) \<and> (\<forall>s. r = (Diverges, s) \<longrightarrow> P (Diverges, s))"
  by (cases "(r, f)" rule: and_then.cases) auto

lemma and_then_state:
  assumes "I (snd r)" and "\<And>v s. r = (Ok v, s) \<Longrightarrow> I s \<Longrightarrow> I (snd (f v s))"
  shows "I (snd (and_then r f))"
  using assms by (cases "(r, f)" rule: and_then.cases) auto

lemma and_then_assoc: "and_then (and_then r f) g = and_then r (\<lambda>v s. and_then (f v s) g)"
  by (cases "(r, f)" rule: and_then.cases) simp_all

section \<open>Loops\<close>

text \<open>
  \<open>run_loop body\<close> is \<open>loop { ... }\<close>: the body gives \<open>Ok (Some v)\<close> to return \<open>v\<close> from the
  loop, \<open>Ok None\<close> to go round again, and any other outcome to leave the loop with it.  A loop
  that never leaves has the outcome \<open>Diverges\<close>.
\<close>

partial_function (option) loop_result ::
  "('s \<Rightarrow> 'a option outcome \<times> 's) \<Rightarrow> 's \<Rightarrow> ('a outcome \<times> 's) option" where
  "loop_result body s =
     (case body s of
        (Ok None, s') \<Rightarrow> loop_result body s'
      | (Ok (Some v), s') \<Rightarrow> Some (Ok v, s')
      | (Err e, s') \<Rightarrow> Some (Err e, s')
      | (Panic, s') \<Rightarrow> Some (Panic, s')
      | (Undefined_Behaviour, s') \<Rightarrow> Some (Undefined_Behaviour, s')
      | (Pending, s') \<Rightarrow> Some (Pending, s')
      | (Diverges, s') \<Rightarrow> Some (Diverges, s'))"

declare loop_result.simps [code]

definition run_loop :: "('s \<Rightarrow> 'a option outcome \<times> 's) \<Rightarrow> 's \<Rightarrow> 'a outcome \<times> 's" where
  "run_loop body s = (case loop_result body s of Some r \<Rightarrow> r | None \<Rightarrow> (Diverges, s))"

fun leave :: "'a option outcome \<Rightarrow> 'a outcome" where
  \<comment> \<open>The outcome with which a body that does not go round again leaves its loop.\<close>
  "leave (Ok (Some v)) = Ok v"
| "leave (Ok None) = Diverges"
| "leave (Err e) = Err e"
| "leave Panic = Panic"
| "leave Undefined_Behaviour = Undefined_Behaviour"
| "leave Pending = Pending"
| "leave Diverges = Diverges"

lemma loop_result_again: "body s = (Ok None, s') \<Longrightarrow> loop_result body s = loop_result body s'"
  by (subst loop_result.simps) simp

lemma loop_result_leave:
  "body s = (r, s') \<Longrightarrow> r \<noteq> Ok None \<Longrightarrow> loop_result body s = Some (leave r, s')"
  by (subst loop_result.simps) (cases r rule: leave.cases; simp)

lemma run_loop_leave: "body s = (r, s') \<Longrightarrow> r \<noteq> Ok None \<Longrightarrow> run_loop body s = (leave r, s')"
  by (simp add: run_loop_def loop_result_leave)

lemma run_loop_again:
  "body s = (Ok None, s') \<Longrightarrow> fst (run_loop body s') \<noteq> Diverges \<Longrightarrow> run_loop body s = run_loop body s'"
  by (auto simp: run_loop_def loop_result_again split: option.splits)

text \<open>Total correctness: a measure that every further round decreases.\<close>

lemma run_loop_total:
  fixes m :: "'s \<Rightarrow> nat"
  assumes "I s"
    and again: "\<And>s s'. I s \<Longrightarrow> body s = (Ok None, s') \<Longrightarrow> I s' \<and> m s' < m s"
    and exit: "\<And>s r s'. I s \<Longrightarrow> body s = (r, s') \<Longrightarrow> r \<noteq> Ok None \<Longrightarrow> Q (leave r) s'"
  shows "\<exists>r s'. loop_result body s = Some (r, s') \<and> Q r s'"
  using \<open>I s\<close>
proof (induction "m s" arbitrary: s rule: less_induct)
  case less
  obtain r s' where b: "body s = (r, s')" by (cases "body s")
  show ?case
  proof (cases "r = Ok None")
    case True
    with b again [OF less.prems] have "I s'" "m s' < m s" by auto
    from less.hyps [OF this(2,1)] b True show ?thesis by (simp add: loop_result_again)
  next
    case False
    with b exit [OF less.prems b] show ?thesis by (simp add: loop_result_leave)
  qed
qed

text \<open>Partial correctness: an invariant of the rounds.\<close>

lemma loop_result_partial:
  fixes body :: "'s \<Rightarrow> 'a option outcome \<times> 's"
  assumes "loop_result body s = Some (r, s')" and "I s"
    and again: "\<And>s s'. I s \<Longrightarrow> body s = (Ok None, s') \<Longrightarrow> I s'"
    and exit: "\<And>s r s'. I s \<Longrightarrow> body s = (r, s') \<Longrightarrow> r \<noteq> Ok None \<Longrightarrow> Q (leave r) s'"
  shows "Q r s'"
proof -
  have "body = body \<longrightarrow> I s \<longrightarrow> Q (fst (r, s')) (snd (r, s'))"
  proof (rule loop_result.raw_induct
      [where P = "\<lambda>b s x. b = body \<longrightarrow> I s \<longrightarrow> Q (fst x) (snd x)", OF _ assms(1)])
    fix f :: "('s \<Rightarrow> 'a option outcome \<times> 's) \<Rightarrow> 's \<Rightarrow> ('a outcome \<times> 's) option"
      and b :: "'s \<Rightarrow> 'a option outcome \<times> 's" and s x
    assume IH: "\<And>b s x. f b s = Some x \<Longrightarrow> b = body \<longrightarrow> I s \<longrightarrow> Q (fst x) (snd x)"
      and eq: "(case b s of (Ok None, s') \<Rightarrow> f b s' | (Ok (Some v), s') \<Rightarrow> Some (Ok v, s')
        | (Err e, s') \<Rightarrow> Some (Err e, s') | (Panic, s') \<Rightarrow> Some (Panic, s')
        | (Undefined_Behaviour, s') \<Rightarrow> Some (Undefined_Behaviour, s')
        | (Pending, s') \<Rightarrow> Some (Pending, s') | (Diverges, s') \<Rightarrow> Some (Diverges, s')) = Some x"
    show "b = body \<longrightarrow> I s \<longrightarrow> Q (fst x) (snd x)"
    proof (intro impI)
      assume b: "b = body" and inv: "I s"
      obtain o1 s1 where bs: "body s = (o1, s1)" by (cases "body s")
      show "Q (fst x) (snd x)"
      proof (cases "o1 = Ok None")
        case True
        with eq b bs have "f body s1 = Some x" by simp
        with IH again [OF inv] bs True show ?thesis by blast
      next
        case False
        with eq b bs have "x = (leave o1, s1)" by (cases o1 rule: leave.cases) auto
        with exit [OF inv bs False] show ?thesis by simp
      qed
    qed
  qed
  with \<open>I s\<close> show ?thesis by simp
qed

text \<open>What a loop does, as a relation: \<open>R\<close> for the rounds that go on and \<open>Q\<close> for the way out.\<close>

lemma run_loop_rel:
  assumes refl: "R s s" and diverges: "Q s Diverges s"
    and again: "\<And>s s'. body s = (Ok None, s') \<Longrightarrow> R s s'"
    and exit: "\<And>s r s'. body s = (r, s') \<Longrightarrow> r \<noteq> Ok None \<Longrightarrow> Q s (leave r) s'"
    and trans_R: "\<And>s s1 s2. R s s1 \<Longrightarrow> R s1 s2 \<Longrightarrow> R s s2"
    and trans_Q: "\<And>s s1 r s2. R s s1 \<Longrightarrow> Q s1 r s2 \<Longrightarrow> Q s r s2"
  shows "Q s (fst (run_loop body s)) (snd (run_loop body s))"
proof (cases "loop_result body s")
  case None
  with diverges show ?thesis by (simp add: run_loop_def)
next
  case (Some x)
  then have "Q s (fst x) (snd x)"
    using loop_result_partial [where I = "R s" and Q = "Q s" and body = body and s = s
        and r = "fst x" and s' = "snd x"]
    by (auto intro: refl trans_R trans_Q again exit)
  with Some show ?thesis by (simp add: run_loop_def)
qed

lemma run_loop_terminates:
  fixes m :: "'s \<Rightarrow> nat"
  assumes "I s"
    and "\<And>s s'. I s \<Longrightarrow> body s = (Ok None, s') \<Longrightarrow> I s' \<and> m s' < m s"
    and "\<And>s r s'. I s \<Longrightarrow> body s = (r, s') \<Longrightarrow> r \<noteq> Ok None \<Longrightarrow> Q (leave r) s'"
  shows "Q (fst (run_loop body s)) (snd (run_loop body s))"
proof -
  have "\<exists>r s'. loop_result body s = Some (r, s') \<and> Q r s'"
    using assms by (rule run_loop_total)
  then show ?thesis by (auto simp: run_loop_def)
qed

end
