(* ===== verification/Session_World.thy ===== *)
theory Session_World
  imports Pid_Pool Control_Flow
begin

text \<open>
  What the protocol components of \<open>src/src/state\<close> share: the \<open>SendResult\<close> they return, the \<open>ConnectionState\<close> trait they write packets to,
  and the state around them (packet identifier pool, published events, delivered messages).

  The connection and the clock are an arbitrary environment of type \<open>'e\<close>.  A component uses
  it through \<open>try_write_packet\<close> and \<open>time::now\<close> only; instants and durations are nanoseconds
  as \<open>nat\<close>, whose subtraction stops at 0 as the one of \<open>std::time::Instant\<close> does.
  Events published on an embassy channel are appended to a log, oldest first; a publisher that
  has to wait for room is modelled as the publication that follows.
\<close>

section \<open>SendResult\<close>

datatype send_result = PartiallySent | SentAll

fun add_send_result :: "send_result \<Rightarrow> send_result \<Rightarrow> send_result" where
  "add_send_result SentAll SentAll = SentAll"
| "add_send_result _ _ = PartiallySent"

instantiation send_result :: comm_monoid_add
begin

definition zero_send_result :: send_result where
  "zero_send_result = SentAll"

definition plus_send_result :: "send_result \<Rightarrow> send_result \<Rightarrow> send_result" where
  "plus_send_result = add_send_result"

instance
proof (standard, goal_cases)
  case (1 earlier now later)
  then show ?case
    by (cases earlier; cases now; cases later) (simp_all add: plus_send_result_def)
next
  case (2 earlier later)
  then show ?case by (cases earlier; cases later) (simp_all add: plus_send_result_def)
next
  case (3 r)
  then show ?case by (cases r) (simp_all add: zero_send_result_def plus_send_result_def)
qed

end

lemma plus_send_result [simp]:
  "SentAll + SentAll = SentAll" "PartiallySent + r = PartiallySent" "r + PartiallySent = PartiallySent"
  for r :: send_result
  by (cases r; simp add: plus_send_result_def)+

definition send_next ::
  "send_result \<Rightarrow> ('s \<Rightarrow> send_result outcome \<times> 's) \<Rightarrow> 's \<Rightarrow> send_result outcome \<times> 's" where
  \<comment> \<open>\<open>SendResult::next\<close> and \<open>next_sync\<close>: the continuation runs unless packets are left over.\<close>
  "send_next self f s =
     (if self \<noteq> PartiallySent then and_then (f s) (\<lambda>r s'. (Ok (self + r), s')) else (Ok self, s))"

lemma SentAll_plus [simp]: "SentAll + r = r"
  by (cases r) simp_all

lemma send_next_SentAll [simp]: "send_next SentAll f s = f s"
  by (cases "f s") (auto simp: send_next_def split: and_then_split)

lemma send_next_PartiallySent [simp]: "send_next PartiallySent f s = (Ok PartiallySent, s)"
  by (simp add: send_next_def)

section \<open>The environment of a component\<close>

type_synonym instant = nat
type_synonym duration = nat

definition from_secs :: "nat \<Rightarrow> duration" where
  "from_secs s = s * 1000000000"

definition from_millis :: "nat \<Rightarrow> duration" where
  "from_millis ms = ms * 1000000"

record 'e ops =
  try_write_packet :: "packet \<Rightarrow> 'e \<Rightarrow> bool outcome \<times> 'e"
  time_now :: "'e \<Rightarrow> instant \<times> 'e"

text \<open>The const generics of the crate's types.\<close>

record sizes =
  QUEUE :: nat
  BUFFER :: nat
  TOPIC :: nat

record received_publish =
  rp_dup :: bool
  rp_qospid :: qospid
  rp_retain :: bool
  rp_topic_name :: string
  rp_payload :: "byte list"

record 'e world =
  pid_static :: pid_pool
  event_log :: "mqtt_event list"
  received_log :: "received_publish list"
  env :: 'e

definition publish_event :: "mqtt_event \<Rightarrow> 'e world \<Rightarrow> 'e world" where
  "publish_event ev w = w\<lparr>event_log := event_log w @ [ev]\<rparr>"

definition world_free_pid :: "pid \<Rightarrow> 'e world \<Rightarrow> 'e world" where
  "world_free_pid pid w = w\<lparr>pid_static := free_pid pid (pid_static w)\<rparr>"

definition world_next_pid :: "'e world \<Rightarrow> pid outcome \<times> 'e world" where
  "world_next_pid w = (case next_pid (pid_static w) of (r, p) \<Rightarrow> (r, w\<lparr>pid_static := p\<rparr>))"

text \<open>A component's own state travels beside the world.\<close>

definition try_write :: "'e ops \<Rightarrow> packet \<Rightarrow> 's \<times> 'e world \<Rightarrow> bool outcome \<times> 's \<times> 'e world" where
  "try_write ops p st =
     (case try_write_packet ops p (env (snd st)) of
        (r, e) \<Rightarrow> (r, fst st, (snd st)\<lparr>env := e\<rparr>))"

definition read_clock :: "'e ops \<Rightarrow> 's \<times> 'e world \<Rightarrow> instant \<times> 's \<times> 'e world" where
  "read_clock ops st =
     (case time_now ops (env (snd st)) of (t, e) \<Rightarrow> (t, fst st, (snd st)\<lparr>env := e\<rparr>))"

text \<open>
  The contract of \<open>ConnectionState::try_write_packet\<close>: a packet is taken over exactly when the
  result is \<open>Ok(true)\<close>, packets leave in the order in which they were taken over, and the call
  is memory safe.
  \<open>emits e ps e'\<close> says that the environment went from \<open>e\<close> to \<open>e'\<close> taking over the packets
  \<open>ps\<close>.
\<close>

locale packet_sink =
  fixes ops :: "'e ops"
    and emits :: "'e \<Rightarrow> packet list \<Rightarrow> 'e \<Rightarrow> bool"
  assumes emits_Nil: "emits e [] e"
    and emits_append: "emits e ps e1 \<Longrightarrow> emits e1 qs e2 \<Longrightarrow> emits e (ps @ qs) e2"
    and write_taken: "try_write_packet ops p e = (Ok True, e') \<Longrightarrow> emits e [p] e'"
    and write_not_taken: "try_write_packet ops p e = (r, e') \<Longrightarrow> r \<noteq> Ok True \<Longrightarrow> emits e [] e'"
    and clock_silent: "time_now ops e = (t, e') \<Longrightarrow> emits e [] e'"
    and write_defined: "fst (try_write_packet ops p e) \<noteq> Undefined_Behaviour"
begin

definition emitted :: "'s \<times> 'e world \<Rightarrow> packet list \<Rightarrow> 's \<times> 'e world \<Rightarrow> bool" where
  "emitted st ps st' \<longleftrightarrow> emits (env (snd st)) ps (env (snd st'))"

lemma emitted_Nil [simp, intro]: "emitted st [] st"
  by (simp add: emitted_def emits_Nil)

lemma emitted_same_env: "env (snd st') = env (snd st) \<Longrightarrow> emitted st [] st'"
  by (simp add: emitted_def emits_Nil)

lemma emitted_append: "emitted st ps st1 \<Longrightarrow> emitted st1 qs st2 \<Longrightarrow> emitted st (ps @ qs) st2"
  unfolding emitted_def by (rule emits_append)

lemma emitted_Cons: "emitted st [p] st1 \<Longrightarrow> emitted st1 qs st2 \<Longrightarrow> emitted st (p # qs) st2"
  using emitted_append [of st "[p]"] by simp

lemma emitted_silent: "emitted st [] st1 \<Longrightarrow> emitted st1 qs st2 \<Longrightarrow> emitted st qs st2"
  using emitted_append [of st "[]"] by simp

lemma emitted_env_cong:
  "emitted st ps st' \<Longrightarrow> env (snd st1) = env (snd st) \<Longrightarrow> env (snd st1') = env (snd st')
    \<Longrightarrow> emitted st1 ps st1'"
  by (simp add: emitted_def)

lemma try_write_emitted:
  assumes "try_write ops p st = (r, st')"
  shows "emitted st (if r = Ok True then [p] else []) st'"
  using assms write_taken [of p "env (snd st)"] write_not_taken [of p "env (snd st)"]
  by (auto simp: try_write_def emitted_def split: prod.splits)

lemma try_write_defined: "try_write ops p st = (r, st') \<Longrightarrow> r \<noteq> Undefined_Behaviour"
  using write_defined [of p "env (snd st)"] by (auto simp: try_write_def split: prod.splits)

lemma read_clock_emitted: "read_clock ops st = (t, st') \<Longrightarrow> emitted st [] st'"
  using clock_silent [of "env (snd st)"]
  by (auto simp: read_clock_def emitted_def split: prod.splits)

end

text \<open>What writing packets and reading the clock leave alone.\<close>

definition quiet :: "'e world \<Rightarrow> 'e world \<Rightarrow> bool" where
  "quiet w w' \<longleftrightarrow> pid_static w' = pid_static w \<and> event_log w' = event_log w
     \<and> received_log w' = received_log w"

lemma quiet_refl [simp, intro]: "quiet w w"
  by (simp add: quiet_def)

lemma quiet_trans [trans]: "quiet w w1 \<Longrightarrow> quiet w1 w2 \<Longrightarrow> quiet w w2"
  by (simp add: quiet_def)

lemma try_write_frame:
  "try_write ops p st = (r, st') \<Longrightarrow> fst st' = fst st \<and> quiet (snd st) (snd st')"
  by (auto simp: try_write_def quiet_def split: prod.splits)

lemma try_write_cases:
  obtains r w' where "try_write ops p (s, w) = (r, s, w')" "quiet w w'"
  by (cases "try_write_packet ops p (env w)") (auto simp: try_write_def quiet_def)

lemma read_clock_cases:
  obtains t w' where "read_clock ops (s, w) = (t, s, w')" "quiet w w'"
  by (cases "time_now ops (env w)") (auto simp: read_clock_def quiet_def)

lemma try_write_lift:
  "try_write ops p (s, w) = (case try_write ops p (t, w) of (r, _, w') \<Rightarrow> (r, s, w'))"
  by (simp add: try_write_def split: prod.splits)

lemma read_clock_frame:
  "read_clock ops st = (t, st') \<Longrightarrow> fst st' = fst st \<and> quiet (snd st) (snd st')"
  by (auto simp: read_clock_def quiet_def split: prod.splits)

lemma publish_event_simps [simp]:
  "event_log (publish_event ev w) = event_log w @ [ev]"
  "env (publish_event ev w) = env w"
  "pid_static (publish_event ev w) = pid_static w"
  "received_log (publish_event ev w) = received_log w"
  by (simp_all add: publish_event_def)

lemma world_free_pid_simps [simp]:
  "event_log (world_free_pid i w) = event_log w"
  "env (world_free_pid i w) = env w"
  "pid_static (world_free_pid i w) = free_pid i (pid_static w)"
  "received_log (world_free_pid i w) = received_log w"
  by (simp_all add: world_free_pid_def)

end
