(* ===== verification/Client_Config.thy ===== *)
theory Client_Config
  imports Mqtt_Types
begin

text \<open>
  The configuration types of \<open>src/src/lib.rs\<close>: host, credentials and the topics that are
  subscribed to automatically.  DNS is a parameter: a function that answers a host name or
  fails.
\<close>

datatype ip_addr = V4 "32 word" | V6 "128 word"

datatype host = Hostname string | Ip ip_addr

record client_credentials =
  cred_username :: string
  cred_password :: string

record auto_subscribe =
  as_topic :: string
  as_qos :: qos

record client_config =
  config_host :: host
  config_port :: "u16 option"
  config_client_id :: string
  config_credentials :: "client_credentials option"
  config_auto_subscribes :: "auto_subscribe list"

definition MAX_TOPIC_SIZE :: nat where
  "MAX_TOPIC_SIZE = 64"

definition MAX_AUTO_SUBSCRIBES :: nat where
  "MAX_AUTO_SUBSCRIBES = 10"

definition auto_subscribe_topic :: "nat \<Rightarrow> auto_subscribe \<Rightarrow> subscribe_topic outcome" where
  \<comment> \<open>\<open>TryInto<SubscribeTopic>\<close>; the first argument is the size of the codec's topic strings.\<close>
  "auto_subscribe_topic cap a =
     (case string_try_from cap (as_topic a) of
        None \<Rightarrow> Err TopicSizeError
      | Some topic \<Rightarrow> Ok (topic, as_qos a))"

definition new_auto_subscribe :: "string \<Rightarrow> qos \<Rightarrow> auto_subscribe outcome" where
  \<comment> \<open>\<open>push_str(topic).unwrap()\<close> on an empty \<open>Topic\<close>\<close>
  "new_auto_subscribe topic q =
     obind (unwrap_option (string_try_from MAX_TOPIC_SIZE topic)) (\<lambda>t.
       Ok \<lparr>as_topic = t, as_qos = q\<rparr>)"

definition resolve :: "(string \<Rightarrow> ip_addr option) \<Rightarrow> host \<Rightarrow> ip_addr outcome" where
  "resolve dns h =
     (case h of
        Hostname name \<Rightarrow> (case dns name of Some ip \<Rightarrow> Ok ip | None \<Rightarrow> Err DnsFailed)
      | Ip ip \<Rightarrow> Ok ip)"

definition new_config :: "host \<Rightarrow> u16 option \<Rightarrow> string \<Rightarrow> client_credentials option \<Rightarrow> client_config" where
  "new_config h port cid cred =
     \<lparr>config_host = h, config_port = port, config_client_id = cid, config_credentials = cred,
      config_auto_subscribes = []\<rparr>"

fun push_auto_subscribes :: "qos \<Rightarrow> string list \<Rightarrow> client_config \<Rightarrow> client_config outcome" where
  \<comment> \<open>The loop of \<open>new_with_auto_subscribes\<close>\<close>
  "push_auto_subscribes q [] this = Ok this"
| "push_auto_subscribes q (topic # topics) this =
     obind (new_auto_subscribe topic q) (\<lambda>a.
     obind (unwrap_sum (vec_push MAX_AUTO_SUBSCRIBES a (config_auto_subscribes this))) (\<lambda>v.
       push_auto_subscribes q topics (this\<lparr>config_auto_subscribes := v\<rparr>)))"

definition new_with_auto_subscribes ::
  "host \<Rightarrow> u16 option \<Rightarrow> string \<Rightarrow> client_credentials option \<Rightarrow> string list \<Rightarrow> qos
    \<Rightarrow> client_config outcome" where
  "new_with_auto_subscribes h port cid cred topics q =
     push_auto_subscribes q topics (new_config h port cid cred)"

lemma new_auto_subscribe_Ok:
  "new_auto_subscribe t q = (if length t \<le> MAX_TOPIC_SIZE then Ok \<lparr>as_topic = t, as_qos = q\<rparr> else Panic)"
  by (simp add: new_auto_subscribe_def string_try_from_def)

lemma push_auto_subscribes_result:
  "push_auto_subscribes q ts c =
    (if (\<forall>t \<in> set ts. length t \<le> MAX_TOPIC_SIZE)
        \<and> (ts = [] \<or> length (config_auto_subscribes c) + length ts \<le> MAX_AUTO_SUBSCRIBES)
     then Ok (c\<lparr>config_auto_subscribes := config_auto_subscribes c @ map (\<lambda>t. \<lparr>as_topic = t, as_qos = q\<rparr>) ts\<rparr>)
     else Panic)"
proof (induction ts arbitrary: c)
  case Nil
  then show ?case by simp
next
  case (Cons t ts)
  show ?case
  proof (cases "length t \<le> MAX_TOPIC_SIZE \<and> length (config_auto_subscribes c) < MAX_AUTO_SUBSCRIBES")
    case True
    then have "push_auto_subscribes q (t # ts) c = push_auto_subscribes q ts
      (c\<lparr>config_auto_subscribes := config_auto_subscribes c @ [\<lparr>as_topic = t, as_qos = q\<rparr>]\<rparr>)"
      by (simp add: new_auto_subscribe_Ok vec_push_def)
    with True Cons.IH show ?thesis by auto
  next
    case False
    then show ?thesis by (auto simp: new_auto_subscribe_Ok vec_push_def)
  qed
qed

text \<open>Building a configuration with automatic subscriptions keeps all topics in order when
  there are at most 10 of them and none is longer than 64 bytes, and panics otherwise.\<close>

lemma new_with_auto_subscribes_bounds:
  "new_with_auto_subscribes h port cid cred topics q =
    (if length topics \<le> 10 \<and> list_all (\<lambda>t. length t \<le> 64) topics
     then Ok ((new_config h port cid cred)
       \<lparr>config_auto_subscribes := map (\<lambda>t. \<lparr>as_topic = t, as_qos = q\<rparr>) topics\<rparr>)
     else Panic)"
  by (auto simp: new_with_auto_subscribes_def push_auto_subscribes_result new_config_def
      MAX_TOPIC_SIZE_def MAX_AUTO_SUBSCRIBES_def list_all_iff)

end
