(* ===== verification/Tcp_Connection.thy ===== *)
theory Tcp_Connection
  imports Stack_Buffer Session_World Client_Config
begin

text \<open>
  \<open>src/src/state/connection/mod.rs\<close>: the TCP connection to the broker with its send and
  receive buffers and the connection state machine.

  The network stack, the DNS client and the codec of \<open>mqttrs2\<close> are parameters.  An awaited
  network operation gives \<open>None\<close> when it does not complete before its future is dropped; a
  single poll of a read gives \<open>None\<close> when no data is there.  A borrow of a buffer cell lasts to
  the end of its scope, also when the scope is left early or its future is dropped.
\<close>

section \<open>Parameters and state\<close>

datatype connection_state_value = ConnectSent | Connected | Disconnected | ErrorState

record codec =
  encode_slice :: "packet \<Rightarrow> nat \<Rightarrow> codec_error + byte list"
  decode_slice :: "byte list \<Rightarrow> codec_error + packet option"
  decode_slice_with_len :: "byte list \<Rightarrow> codec_error + (nat \<times> packet) option"
  topic_path_size :: nat
  topics_size :: nat

record 'n network_ops =
  nw_resolve :: "string \<Rightarrow> ip_addr option"
  nw_connect :: "ip_addr \<times> u16 \<Rightarrow> 'n \<Rightarrow> (error_kind + unit) option \<times> 'n"
  nw_write :: "byte list \<Rightarrow> 'n \<Rightarrow> (error_kind + nat) option \<times> 'n"
  nw_flush :: "'n \<Rightarrow> (error_kind + unit) option \<times> 'n"
  nw_read :: "nat \<Rightarrow> 'n \<Rightarrow> (error_kind + byte list) option \<times> 'n"
  nw_poll_read :: "nat \<Rightarrow> 'n \<Rightarrow> (error_kind + byte list) option \<times> 'n"

record 'n tcp =
  watch :: "connection_state_value option"
  network :: 'n
  connection :: bool
  send_buffer :: buffer_cell
  recv_buffer :: buffer_cell
  tcp_last_will :: "last_will option"
  tcp_config :: client_config

definition MQTT_DEFAULT_PORT :: u16 where
  "MQTT_DEFAULT_PORT = 1883"

definition KEEP_ALIVE :: nat where
  "KEEP_ALIVE = 60"

definition new_tcp :: "nat \<Rightarrow> 'n \<Rightarrow> last_will option \<Rightarrow> client_config \<Rightarrow> 'n tcp" where
  "new_tcp buffer_size net will config =
     \<lparr>watch = None, network = net, connection = False, send_buffer = new_cell buffer_size,
      recv_buffer = new_cell buffer_size, tcp_last_will = will, tcp_config = config\<rparr>"

section \<open>Buffers and network inside the connection\<close>

definition on_send :: "(stack_buffer \<Rightarrow> ('a \<times> stack_buffer) outcome) \<Rightarrow> 'n tcp \<Rightarrow> 'a outcome \<times> 'n tcp" where
  "on_send f c =
     and_then (f (cell_buffer (send_buffer c)), c) (\<lambda>(v, b) c.
       (Ok v, c\<lparr>send_buffer := (send_buffer c)\<lparr>cell_buffer := b\<rparr>\<rparr>))"

definition on_recv :: "(stack_buffer \<Rightarrow> ('a \<times> stack_buffer) outcome) \<Rightarrow> 'n tcp \<Rightarrow> 'a outcome \<times> 'n tcp" where
  "on_recv f c =
     and_then (f (cell_buffer (recv_buffer c)), c) (\<lambda>(v, b) c.
       (Ok v, c\<lparr>recv_buffer := (recv_buffer c)\<lparr>cell_buffer := b\<rparr>\<rparr>))"

definition unit_step :: "(stack_buffer \<Rightarrow> stack_buffer outcome) \<Rightarrow> stack_buffer \<Rightarrow> (unit \<times> stack_buffer) outcome" where
  "unit_step f b = obind (f b) (\<lambda>b'. Ok ((), b'))"

definition look :: "(stack_buffer \<Rightarrow> 'a outcome) \<Rightarrow> stack_buffer \<Rightarrow> ('a \<times> stack_buffer) outcome" where
  "look f b = obind (f b) (\<lambda>v. Ok (v, b))"

definition with_send_buffer :: "('n tcp \<Rightarrow> 'a outcome \<times> 'n tcp) \<Rightarrow> 'n tcp \<Rightarrow> 'a outcome \<times> 'n tcp" where
  \<comment> \<open>\<open>let mut send_buffer = self.send_buffer.borrow(); ...\<close> up to the end of the scope\<close>
  "with_send_buffer f c =
     and_then (cell_borrow (send_buffer c), c) (\<lambda>cell c.
       case f (c\<lparr>send_buffer := cell\<rparr>) of (r, c1) \<Rightarrow>
         and_then (bufref_drop (send_buffer c1), c1) (\<lambda>cell c1. (r, c1\<lparr>send_buffer := cell\<rparr>)))"

definition with_recv_buffer :: "('n tcp \<Rightarrow> 'a outcome \<times> 'n tcp) \<Rightarrow> 'n tcp \<Rightarrow> 'a outcome \<times> 'n tcp" where
  "with_recv_buffer f c =
     and_then (cell_borrow (recv_buffer c), c) (\<lambda>cell c.
       case f (c\<lparr>recv_buffer := cell\<rparr>) of (r, c1) \<Rightarrow>
         and_then (bufref_drop (recv_buffer c1), c1) (\<lambda>cell c1. (r, c1\<lparr>recv_buffer := cell\<rparr>)))"

definition network_result ::
  "('n \<Rightarrow> (error_kind + 'a) option \<times> 'n) \<Rightarrow> 'n tcp \<Rightarrow> 'a outcome \<times> 'n tcp" where
  \<comment> \<open>The \<open>network_write!\<close>, \<open>network_read!\<close> and \<open>network_flush!\<close> macros\<close>
  "network_result f c =
     (case f (network c) of
        (Some (Inr v), n) \<Rightarrow> (Ok v, c\<lparr>network := n\<rparr>)
      | (Some (Inl e), n) \<Rightarrow> (Err (ConnectionFailed2 e), c\<lparr>network := n\<rparr>)
      | (None, n) \<Rightarrow> (Pending, c\<lparr>network := n\<rparr>))"

definition network_try_read :: "'n network_ops \<Rightarrow> nat \<Rightarrow> 'n tcp \<Rightarrow> byte list outcome \<times> 'n tcp" where
  \<comment> \<open>One poll; a read that is not ready counts as no bytes.\<close>
  "network_try_read net len c =
     (case nw_poll_read net len (network c) of
        (Some (Inr bs), n) \<Rightarrow> (Ok bs, c\<lparr>network := n\<rparr>)
      | (Some (Inl e), n) \<Rightarrow> (Err (ConnectionFailed2 e), c\<lparr>network := n\<rparr>)
      | (None, n) \<Rightarrow> (Ok [], c\<lparr>network := n\<rparr>))"

definition require_connection :: "'n tcp \<Rightarrow> unit outcome \<times> 'n tcp" where
  \<comment> \<open>\<open>self.connection.borrow_mut().as_mut().unwrap()\<close>\<close>
  "require_connection c = (if connection c then (Ok (), c) else (Panic, c))"

text \<open>The three moves between a buffer and the network that the module repeats: write readable
  bytes and mark them as read, and read into the writeable slice and commit.\<close>

definition write_readable :: "'n network_ops \<Rightarrow> 'n tcp \<Rightarrow> nat outcome \<times> 'n tcp" where
  "write_readable net c =
     and_then (on_send (look reaable_data) c) (\<lambda>bytes c.
     and_then (network_result (nw_write net bytes) c) (\<lambda>bytes_sent c.
     and_then (on_send (unit_step (consume bytes_sent)) c) (\<lambda>_ c. (Ok bytes_sent, c))))"

definition read_writeable :: "'n network_ops \<Rightarrow> 'n tcp \<Rightarrow> nat outcome \<times> 'n tcp" where
  "read_writeable net c =
     and_then (on_recv writeable_data c) (\<lambda>buf c.
     and_then (network_result (nw_read net (length buf)) c) (\<lambda>bytes c.
     and_then (on_recv (unit_step (store bytes)) c) (\<lambda>_ c. (Ok (length bytes), c))))"

definition try_read_writeable :: "'n network_ops \<Rightarrow> 'n tcp \<Rightarrow> nat outcome \<times> 'n tcp" where
  "try_read_writeable net c =
     and_then (on_recv writeable_data c) (\<lambda>buf c.
     and_then (network_try_read net (length buf) c) (\<lambda>bytes c.
     and_then (on_recv (unit_step (store bytes)) c) (\<lambda>_ c. (Ok (length bytes), c))))"

section \<open>Writing packets\<close>

definition inherent_try_write_packet :: "codec \<Rightarrow> packet \<Rightarrow> 'n tcp \<Rightarrow> bool outcome \<times> 'n tcp" where
  \<comment> \<open>The method of \<open>impl TcpConnectionState\<close>, which the module itself calls\<close>
  "inherent_try_write_packet cd p c =
     with_send_buffer (\<lambda>c.
       and_then (on_send (unit_step flip) c) (\<lambda>_ c.
       and_then (on_send writeable_data c) (\<lambda>buf c.
         case encode_slice cd p (length buf) of
           Inr bytes \<Rightarrow> and_then (on_send (unit_step (store bytes)) c) (\<lambda>_ c. (Ok True, c))
         | Inl WriteZero \<Rightarrow>
             if is_max_capacity (cell_buffer (send_buffer c)) then (Err BufferTooSmall, c)
             else (Ok False, c)
         | Inl err \<Rightarrow> (Err (CodecError err), c)))) c"

definition trait_try_write_packet :: "codec \<Rightarrow> packet \<Rightarrow> 'n tcp \<Rightarrow> bool outcome \<times> 'n tcp" where
  \<comment> \<open>The method of \<open>impl ConnectionState for TcpConnectionState\<close>, which the protocol
     components call\<close>
  "trait_try_write_packet cd p c =
     with_send_buffer (\<lambda>c.
       and_then (on_send writeable_data c) (\<lambda>buf c.
         case encode_slice cd p (length buf) of
           Inl WriteZero \<Rightarrow> (Ok False, c)
         | Inr bytes \<Rightarrow> and_then (on_send (unit_step (store bytes)) c) (\<lambda>_ c. (Ok True, c))
         | Inl err \<Rightarrow> (Err (CodecError err), c))) c"

section \<open>Sending and receiving\<close>

definition send_all_intern :: "'n network_ops \<Rightarrow> 'n tcp \<Rightarrow> unit outcome \<times> 'n tcp" where
  "send_all_intern net c =
     with_send_buffer (\<lambda>c.
       and_then
         (run_loop (\<lambda>c.
            if has_remaining_len (cell_buffer (send_buffer c)) then
              and_then (write_readable net c) (\<lambda>_ c. (Ok None, c))
            else (Ok (Some ()), c)) c)
         (\<lambda>_ c. network_result (nw_flush net) c)) c"

definition send_all :: "'n network_ops \<Rightarrow> 'n tcp \<Rightarrow> unit outcome \<times> 'n tcp" where
  "send_all net c = and_then (require_connection c) (\<lambda>_ c. send_all_intern net c)"

definition tcp_send :: "'n network_ops \<Rightarrow> 'n tcp \<Rightarrow> unit outcome \<times> 'n tcp" where
  "tcp_send net c =
     with_send_buffer (\<lambda>c.
       if \<not> has_remaining_len (cell_buffer (send_buffer c)) then (Ok (), c)
       else
         and_then (require_connection c) (\<lambda>_ c.
         and_then (write_readable net c) (\<lambda>_ c.
           network_result (nw_flush net) c))) c"

definition write_packet_async ::
  "codec \<Rightarrow> 'n network_ops \<Rightarrow> packet \<Rightarrow> 'n tcp \<Rightarrow> unit outcome \<times> 'n tcp" where
  "write_packet_async cd net p =
     run_loop (\<lambda>c.
       and_then (inherent_try_write_packet cd p c) (\<lambda>sent c.
         if sent then (Ok (Some ()), c)
         else and_then (tcp_send net c) (\<lambda>_ c. (Ok None, c))))"

text \<open>A received packet keeps the receive buffer borrowed; it is the number of bytes it stands
  for and the packet.\<close>

definition try_read_packet :: "codec \<Rightarrow> 'n tcp \<Rightarrow> (nat \<times> packet) option outcome \<times> 'n tcp" where
  "try_read_packet cd c =
     and_then (cell_borrow (recv_buffer c), c) (\<lambda>cell c.
       let max_len = is_max_len (cell_buffer cell) in
       and_then (try_map_maybe (decode_slice_with_len cd) cell, c\<lparr>recv_buffer := cell\<rparr>) (\<lambda>(r, cell') c.
         let c' = c\<lparr>recv_buffer := cell'\<rparr> in
         case r of
           Inl err \<Rightarrow> (Err (CodecError err), c')
         | Inr None \<Rightarrow> if max_len then (Err BufferTooSmall, c') else (Ok None, c')
         | Inr (Some packet) \<Rightarrow> (Ok (Some packet), c')))"

definition drop_packet :: "nat \<times> packet \<Rightarrow> 'n tcp \<Rightarrow> unit outcome \<times> 'n tcp" where
  "drop_packet m c =
     and_then (mapped_drop (fst m) (recv_buffer c), c) (\<lambda>cell c. (Ok (), c\<lparr>recv_buffer := cell\<rparr>))"

definition read_packet :: "codec \<Rightarrow> 'n network_ops \<Rightarrow> 'n tcp \<Rightarrow> (nat \<times> packet) outcome \<times> 'n tcp" where
  "read_packet cd net c =
     and_then (require_connection c) (\<lambda>_ c.
       run_loop (\<lambda>c.
         and_then (try_read_packet cd c) (\<lambda>r c.
           case r of
             Some packet \<Rightarrow> (Ok (Some packet), c)
           | None \<Rightarrow>
               and_then (with_recv_buffer (read_writeable net) c) (\<lambda>_ c. (Ok None, c))))
         c)"

definition send_receive :: "'n network_ops \<Rightarrow> 'n tcp \<Rightarrow> unit outcome \<times> 'n tcp" where
  "send_receive net c =
     with_send_buffer (with_recv_buffer (\<lambda>c.
       and_then (on_recv (unit_step flip) c) (\<lambda>_ c.
       and_then (require_connection c) (\<lambda>_ c.
       and_then
         (run_loop (\<lambda>c.
            if has_remaining_len (cell_buffer (send_buffer c)) then
              and_then (write_readable net c) (\<lambda>_ c.
              and_then (network_result (nw_flush net) c) (\<lambda>_ c.
              and_then (try_read_writeable net c) (\<lambda>bytes_received c.
                if 0 < bytes_received then (Ok (Some True), c) else (Ok None, c))))
            else (Ok (Some False), c)) c)
         (\<lambda>received c.
            if received then (Ok (), c)
            else and_then (read_writeable net c) (\<lambda>_ c. (Ok (), c))))))) c"

definition run_io :: "codec \<Rightarrow> 'n network_ops \<Rightarrow> 'n tcp \<Rightarrow> (nat \<times> packet) outcome \<times> 'n tcp" where
  "run_io cd net c =
     (if watch c \<noteq> Some Connected then (Panic, c)
      else
        run_loop (\<lambda>c.
          and_then (send_receive net c) (\<lambda>_ c. try_read_packet cd c)) c)"

definition run_io_nonblocking ::
  "codec \<Rightarrow> 'n network_ops \<Rightarrow> 'n tcp \<Rightarrow> (nat \<times> packet) option outcome \<times> 'n tcp" where
  "run_io_nonblocking cd net c =
     (if watch c \<noteq> Some Connected then (Panic, c)
      else
        and_then (tcp_send net c) (\<lambda>_ c.
        and_then (require_connection c) (\<lambda>_ c.
        and_then (with_recv_buffer (try_read_writeable net) c) (\<lambda>_ c.
          try_read_packet cd c))))"

section \<open>Connecting and disconnecting\<close>

definition set_watch :: "connection_state_value \<Rightarrow> 'n tcp \<Rightarrow> 'n tcp" where
  \<comment> \<open>\<open>self.inner.sender().send(value)\<close>\<close>
  "set_watch v c = c\<lparr>watch := Some v\<rparr>"

definition get_state :: "'n tcp \<Rightarrow> connection_state_value option" where
  "get_state c = watch c"

definition set_error :: "'n tcp \<Rightarrow> 'n tcp" where
  "set_error c = set_watch ErrorState c"

fun process_suback :: "subscribe_return_code list \<Rightarrow> auto_subscribe list \<Rightarrow> unit outcome" where
  "process_suback (code # codes) (a # as) =
     (case code of
        Success q \<Rightarrow> process_suback codes as
      | Failure \<Rightarrow> Err SubscribeOrUnsubscribeFailed)"
| "process_suback _ _ = Ok ()"

fun chunks5 :: "'a list \<Rightarrow> 'a list list" where
  \<comment> \<open>\<open>slice.chunks(5)\<close>\<close>
  "chunks5 [] = []"
| "chunks5 (x # xs) = take 5 (x # xs) # chunks5 (drop 4 xs)"

text \<open>Connecting takes packet identifiers from the pool, which travels beside the connection.\<close>

definition on_tcp :: "('n tcp \<Rightarrow> 'a outcome \<times> 'n tcp) \<Rightarrow> 'n tcp \<times> pid_pool \<Rightarrow> 'a outcome \<times> 'n tcp \<times> pid_pool" where
  "on_tcp f st = (case f (fst st) of (r, c) \<Rightarrow> (r, c, snd st))"

definition take_pid :: "'n tcp \<times> pid_pool \<Rightarrow> pid outcome \<times> 'n tcp \<times> pid_pool" where
  "take_pid st = (case next_pid (snd st) of (r, p) \<Rightarrow> (r, fst st, p))"

definition subscribe_chunk :: "codec \<Rightarrow> 'n network_ops \<Rightarrow> auto_subscribe list
    \<Rightarrow> 'n tcp \<times> pid_pool \<Rightarrow> unit outcome \<times> 'n tcp \<times> pid_pool" where
  \<comment> \<open>One round of the loop of \<open>subscribe_auto_subscribes\<close>; the suback is dropped at its end,
     also when the round fails.\<close>
  "subscribe_chunk cd net chunk st =
     and_then (take_pid st) (\<lambda>pid st.
     and_then (collect_into (topics_size cd) (auto_subscribe_topic (topic_path_size cd)) chunk [], st)
       (\<lambda>topics st.
     and_then (on_tcp (write_packet_async cd net (Subscribe pid topics)) st) (\<lambda>_ st.
     and_then (on_tcp (send_all net) st) (\<lambda>_ st.
     and_then (on_tcp (read_packet cd net) st) (\<lambda>next_packet st.
       let result = (case snd next_packet of
                       Suback _ codes \<Rightarrow> process_suback codes chunk
                     | _ \<Rightarrow> Err ConnackError)
       in and_then (on_tcp (drop_packet next_packet) st) (\<lambda>_ st. (result, st)))))))"

fun subscribe_chunks :: "codec \<Rightarrow> 'n network_ops \<Rightarrow> auto_subscribe list list
    \<Rightarrow> 'n tcp \<times> pid_pool \<Rightarrow> unit outcome \<times> 'n tcp \<times> pid_pool" where
  "subscribe_chunks cd net [] st = (Ok (), st)"
| "subscribe_chunks cd net (chunk # rest) st =
     and_then (subscribe_chunk cd net chunk st) (\<lambda>_ st. subscribe_chunks cd net rest st)"

definition subscribe_auto_subscribes :: "codec \<Rightarrow> 'n network_ops
    \<Rightarrow> 'n tcp \<times> pid_pool \<Rightarrow> unit outcome \<times> 'n tcp \<times> pid_pool" where
  "subscribe_auto_subscribes cd net st =
     subscribe_chunks cd net (chunks5 (config_auto_subscribes (tcp_config (fst st)))) st"

definition process_connack :: "codec \<Rightarrow> 'n network_ops \<Rightarrow> connect_return_code
    \<Rightarrow> 'n tcp \<times> pid_pool \<Rightarrow> unit outcome \<times> 'n tcp \<times> pid_pool" where
  "process_connack cd net code st =
     (case code of
        Accepted \<Rightarrow>
          and_then (subscribe_auto_subscribes cd net st) (\<lambda>_ (c, p). (Ok (), set_watch Connected c, p))
      | RefusedProtocolVersion \<Rightarrow> (Err ConnackError, set_watch ErrorState (fst st), snd st)
      | RefusedIdentifierRejected \<Rightarrow> (Err ConnackError, set_watch ErrorState (fst st), snd st)
      | ServerUnavailable \<Rightarrow> (Err ConnackError, set_watch ErrorState (fst st), snd st)
      | BadUsernamePassword \<Rightarrow> (Err AuthenticationError, set_watch ErrorState (fst st), snd st)
      | NotAuthorized \<Rightarrow> (Err AuthenticationError, set_watch ErrorState (fst st), snd st))"

definition string_bytes :: "string \<Rightarrow> byte list" where
  "string_bytes s = map of_char s"

definition connect_packet_of :: "'n tcp \<Rightarrow> packet" where
  "connect_packet_of c =
     (let creds = config_credentials (tcp_config c) in
      Connect \<lparr>keep_alive = of_nat KEEP_ALIVE,
               client_id = config_client_id (tcp_config c),
               clean_session = False,
               last_will_of = tcp_last_will c,
               username = map_option cred_username creds,
               password = map_option (\<lambda>cr. string_bytes (cred_password cr)) creds\<rparr>)"

definition reset_buffers :: "'n tcp \<Rightarrow> unit outcome \<times> 'n tcp" where
  "reset_buffers c =
     and_then (with_recv_buffer (on_recv (unit_step (\<lambda>b. Ok (buffer_reset b)))) c) (\<lambda>_ c.
       with_send_buffer (on_send (unit_step (\<lambda>b. Ok (buffer_reset b)))) c)"

definition open_connection :: "'n network_ops \<Rightarrow> 'n tcp \<Rightarrow> unit outcome \<times> 'n tcp" where
  "open_connection net c =
     (let port = (case config_port (tcp_config c) of Some p \<Rightarrow> p | None \<Rightarrow> MQTT_DEFAULT_PORT) in
      and_then (resolve (nw_resolve net) (config_host (tcp_config c)), c) (\<lambda>ip c.
      and_then (network_result (nw_connect net (ip, port)) c) (\<lambda>_ c.
        (Ok (), c\<lparr>connection := True\<rparr>))))"

definition send_connect :: "codec \<Rightarrow> 'n network_ops \<Rightarrow> 'n tcp \<Rightarrow> connect_return_code outcome \<times> 'n tcp" where
  \<comment> \<open>From writing the CONNECT packet to dropping the packet received in answer\<close>
  "send_connect cd net c =
     and_then (inherent_try_write_packet cd (connect_packet_of c) c) (\<lambda>sent c.
       if \<not> sent then (Err BufferTooSmall, c)
       else
         and_then (tcp_send net c) (\<lambda>_ c.
         and_then (read_packet cd net (set_watch ConnectSent c)) (\<lambda>next_packet c.
           let connack = (case snd next_packet of Connack _ code \<Rightarrow> Ok code | _ \<Rightarrow> Err ConnackError)
           in and_then (drop_packet next_packet c) (\<lambda>_ c. (connack, c)))))"

definition tcp_connect :: "codec \<Rightarrow> 'n network_ops
    \<Rightarrow> 'n tcp \<times> pid_pool \<Rightarrow> unit outcome \<times> 'n tcp \<times> pid_pool" where
  "tcp_connect cd net st =
     (if watch (fst st) = None \<or> watch (fst st) = Some ErrorState then
        and_then (on_tcp reset_buffers st) (\<lambda>_ st.
        and_then (on_tcp (open_connection net) st) (\<lambda>_ st.
        and_then (on_tcp (send_connect cd net) st) (\<lambda>code st.
          process_connack cd net code st)))
      else (Panic, st))"

definition tcp_disconnect :: "codec \<Rightarrow> 'n network_ops \<Rightarrow> 'n tcp \<Rightarrow> unit outcome \<times> 'n tcp" where
  "tcp_disconnect cd net c =
     (if watch c = Some Connected then
        and_then (send_all net c) (\<lambda>_ c.
        and_then (inherent_try_write_packet cd Disconnect c) (\<lambda>sent c.
          if \<not> sent then (Panic, c)
          else
            and_then (send_all net c) (\<lambda>_ c.
            and_then (require_connection c) (\<lambda>_ c.
              (Ok (), set_watch Disconnected (c\<lparr>connection := False\<rparr>))))))
      else (Panic, c))"

section \<open>Writing a packet\<close>

text \<open>\<open>encodes_as cd p bs\<close>: the encoder writes \<open>bs\<close> for the packet \<open>p\<close> into every slice that is
  long enough, and reports \<open>WriteZero\<close> for a shorter one.\<close>

definition encodes_as :: "codec \<Rightarrow> packet \<Rightarrow> byte list \<Rightarrow> bool" where
  "encodes_as cd p bs \<longleftrightarrow>
     (\<forall>n. encode_slice cd p n = (if length bs \<le> n then Inr bs else Inl WriteZero))"

definition send_queue :: "'n tcp \<Rightarrow> byte list" where
  "send_queue c = contents (cell_buffer (send_buffer c))"

definition recv_queue :: "'n tcp \<Rightarrow> byte list" where
  "recv_queue c = contents (cell_buffer (recv_buffer c))"

definition send_capacity :: "'n tcp \<Rightarrow> nat" where
  "send_capacity c = capacity (cell_buffer (send_buffer c))"

definition recv_capacity :: "'n tcp \<Rightarrow> nat" where
  "recv_capacity c = capacity (cell_buffer (recv_buffer c))"

definition wf_tcp :: "'n tcp \<Rightarrow> bool" where
  "wf_tcp c \<longleftrightarrow> wf_buffer (cell_buffer (send_buffer c)) \<and> wf_buffer (cell_buffer (recv_buffer c))"

definition idle :: "'n tcp \<Rightarrow> bool" where
  \<comment> \<open>no reference to a buffer is alive\<close>
  "idle c \<longleftrightarrow> borrows (send_buffer c) = 0 \<and> borrows (recv_buffer c) = 0"

definition set_send :: "stack_buffer \<Rightarrow> 'n tcp \<Rightarrow> 'n tcp" where
  "set_send b c = c\<lparr>send_buffer := (send_buffer c)\<lparr>cell_buffer := b\<rparr>\<rparr>"

definition set_recv :: "stack_buffer \<Rightarrow> 'n tcp \<Rightarrow> 'n tcp" where
  "set_recv b c = c\<lparr>recv_buffer := (recv_buffer c)\<lparr>cell_buffer := b\<rparr>\<rparr>"

lemma prepared_store:
  assumes "wf_buffer b" and "writeable_data b = Ok (sl, b1)"
  shows "length bs \<le> length sl \<Longrightarrow> \<exists>b2. store bs b1 = Ok b2 \<and> wf_buffer b2
      \<and> contents b2 = contents b @ bs \<and> capacity b2 = capacity b"
    and "length sl < length bs \<Longrightarrow> store bs b1 = Panic"
proof -
  from sb.prepare [OF assms(1)] assms(2) have b1: "wf_buffer b1" "contents b1 = contents b"
    "capacity b1 = capacity b" "avail b1 = length sl" by auto
  show "length bs \<le> length sl \<Longrightarrow> \<exists>b2. store bs b1 = Ok b2 \<and> wf_buffer b2
      \<and> contents b2 = contents b @ bs \<and> capacity b2 = capacity b"
    using sb.put [OF b1(1), of bs] b1 by auto
  show "length sl < length bs \<Longrightarrow> store bs b1 = Panic"
    using store_over [OF b1(1), of bs] b1 by auto
qed

lemma set_send_simps [simp]:
  "send_queue (set_send b c) = contents b" "send_capacity (set_send b c) = capacity b"
  "cell_buffer (send_buffer (set_send b c)) = b"
  "borrows (send_buffer (set_send b c)) = borrows (send_buffer c)"
  "recv_buffer (set_send b c) = recv_buffer c" "watch (set_send b c) = watch c"
  "network (set_send b c) = network c" "connection (set_send b c) = connection c"
  "tcp_config (set_send b c) = tcp_config c" "set_send b (set_send b' c) = set_send b c"
  by (simp_all add: set_send_def send_queue_def send_capacity_def)

lemma trait_write_idle:
  assumes "borrows (send_buffer c) = 0"
  shows "trait_try_write_packet cd p c =
    and_then (writeable_data (cell_buffer (send_buffer c)), c) (\<lambda>(sl, b1) c.
      case encode_slice cd p (length sl) of
        Inl WriteZero \<Rightarrow> (Ok False, set_send b1 c)
      | Inr bytes \<Rightarrow>
          and_then (store bytes b1, set_send b1 c) (\<lambda>b2 c. (Ok True, set_send b2 c))
      | Inl err \<Rightarrow> (Err (CodecError err), set_send b1 c))"
  using assms
  by (cases "writeable_data (cell_buffer (send_buffer c))")
    (auto simp: trait_try_write_packet_def with_send_buffer_def cell_borrow_def bufref_drop_def
      on_send_def unit_step_def set_send_def store_def commit_bytes_written_def
      split: sum.splits codec_error.splits)

text \<open>The bytes of a sequence of packets, each encoded for some length of the slice.\<close>

inductive encodes :: "codec \<Rightarrow> packet list \<Rightarrow> byte list \<Rightarrow> bool" for cd where
  encodes_Nil: "encodes cd [] []"
| encodes_snoc: "encodes cd ps bs \<Longrightarrow> encode_slice cd p n = Inr b \<Longrightarrow> encodes cd (ps @ [p]) (bs @ b)"

lemma encodes_one: "encode_slice cd p n = Inr b \<Longrightarrow> encodes cd [p] b"
  using encodes_snoc [OF encodes_Nil] by simp

lemma encodes_append: "encodes cd qs cs \<Longrightarrow> encodes cd ps bs \<Longrightarrow> encodes cd (ps @ qs) (bs @ cs)"
  by (induction rule: encodes.induct) (auto dest: encodes_snoc)

text \<open>Nothing but the bytes of the send buffer changes, and those grow by the packets' bytes.\<close>

definition tcp_emits :: "codec \<Rightarrow> 'n tcp \<times> 'k \<Rightarrow> packet list \<Rightarrow> 'n tcp \<times> 'k \<Rightarrow> bool" where
  "tcp_emits cd e ps e' \<longleftrightarrow>
     (\<exists>b. fst e' = set_send b (fst e)) \<and>
     (wf_buffer (cell_buffer (send_buffer (fst e))) \<longrightarrow>
        wf_buffer (cell_buffer (send_buffer (fst e')))
        \<and> send_capacity (fst e') = send_capacity (fst e)
        \<and> (\<exists>bs. encodes cd ps bs \<and> send_queue (fst e') = send_queue (fst e) @ bs))"

definition tcp_ops :: "codec \<Rightarrow> ('k \<Rightarrow> instant \<times> 'k) \<Rightarrow> ('n tcp \<times> 'k) ops" where
  "tcp_ops cd clock =
     \<lparr>try_write_packet = (\<lambda>p (c, k). case trait_try_write_packet cd p c of (r, c') \<Rightarrow> (r, c', k)),
      time_now = (\<lambda>(c, k). case clock k of (t, k') \<Rightarrow> (t, c, k'))\<rparr>"

lemma set_send_same [intro]: "\<exists>b. c = set_send b c"
  by (rule exI [of _ "cell_buffer (send_buffer c)"]) (simp add: set_send_def)

lemma trait_write_cases:
  obtains (taken) sl b1 bs b2 where "writeable_data (cell_buffer (send_buffer c)) = Ok (sl, b1)"
      "encode_slice cd p (length sl) = Inr bs" "store bs b1 = Ok b2"
      "trait_try_write_packet cd p c = (Ok True, set_send b2 c)"
  | (prepared) r sl b1 where "writeable_data (cell_buffer (send_buffer c)) = Ok (sl, b1)" "r \<noteq> Ok True"
      "trait_try_write_packet cd p c = (r, set_send b1 c)"
  | (unchanged) r where "r \<noteq> Ok True" "trait_try_write_packet cd p c = (r, c)"
proof (cases "borrows (send_buffer c) = 0")
  case False
  with unchanged show ?thesis
    by (simp add: trait_try_write_packet_def with_send_buffer_def cell_borrow_def)
next
  case idle: True
  note eq = trait_write_idle [OF idle, of cd p]
  show ?thesis
  proof (cases "\<exists>x. writeable_data (cell_buffer (send_buffer c)) = Ok x")
    case False
    with eq unchanged show ?thesis by (cases "writeable_data (cell_buffer (send_buffer c))") auto
  next
    case True
    then obtain sl b1 where w: "writeable_data (cell_buffer (send_buffer c)) = Ok (sl, b1)" by auto
    show ?thesis
    proof (cases "encode_slice cd p (length sl)")
      case (Inl e)
      with eq w prepared show ?thesis by (cases e) auto
    next
      case (Inr bs)
      with eq w taken prepared show ?thesis by (cases "store bs b1") (auto simp: store_def)
    qed
  qed
qed

lemma obind_defined:
  "m \<noteq> Undefined_Behaviour \<Longrightarrow> (\<And>v. f v \<noteq> Undefined_Behaviour) \<Longrightarrow> obind m f \<noteq> Undefined_Behaviour"
  by (cases m) auto

lemma trait_write_defined: "fst (trait_try_write_packet cd p c) \<noteq> Undefined_Behaviour"
proof (cases "borrows (send_buffer c) = 0")
  case False
  then show ?thesis by (simp add: trait_try_write_packet_def with_send_buffer_def cell_borrow_def)
next
  case True
  have "writeable_data b \<noteq> Undefined_Behaviour" for b
    unfolding writeable_data_def by (rule obind_defined) (simp_all add: flip_def)
  moreover have "store bs b \<noteq> Undefined_Behaviour" for bs b
    by (simp add: store_def commit_bytes_written_def)
  ultimately show ?thesis
    by (auto simp: trait_write_idle [OF True] split: and_then_split sum.splits codec_error.splits)
qed

interpretation tcp: packet_sink "tcp_ops cd clock :: ('n tcp \<times> 'k) ops" "tcp_emits cd"
  for cd and clock :: "'k \<Rightarrow> instant \<times> 'k"
proof unfold_locales
  fix e e1 e2 :: "'n tcp \<times> 'k" and ps qs
  show "tcp_emits cd e [] e"
    by (auto simp: tcp_emits_def intro: encodes_Nil)
  assume "tcp_emits cd e ps e1" "tcp_emits cd e1 qs e2"
  then show "tcp_emits cd e (ps @ qs) e2"
    by (auto simp: tcp_emits_def intro: encodes_append)
next
  fix p and e e' :: "'n tcp \<times> 'k"
  assume w: "try_write_packet (tcp_ops cd clock) p e = (Ok True, e')"
  obtain c k where e: "e = (c, k)" by fastforce
  with w have w': "trait_try_write_packet cd p c = (Ok True, fst e')"
    by (auto simp: tcp_ops_def split: prod.splits)
  show "tcp_emits cd e [p] e'"
  proof (cases rule: trait_write_cases [of c cd p])
    case (taken sl b1 bs b2)
    have "store bs b1 = Ok b2 \<longrightarrow> length bs \<le> length sl" if "wf_buffer (cell_buffer (send_buffer c))"
      using prepared_store [OF that taken(1), of bs] by (auto simp: not_less [symmetric])
    with taken w' prepared_store(1) [of _ sl b1 bs] encodes_one [OF taken(2)] show ?thesis
      by (auto simp: tcp_emits_def e send_queue_def send_capacity_def)
  qed (use w' in auto)
next
  fix p r and e e' :: "'n tcp \<times> 'k"
  assume w: "try_write_packet (tcp_ops cd clock) p e = (r, e')" "r \<noteq> Ok True"
  obtain c k where e: "e = (c, k)" by fastforce
  with w have w': "trait_try_write_packet cd p c = (r, fst e')"
    by (auto simp: tcp_ops_def split: prod.splits)
  show "tcp_emits cd e [] e'"
  proof (cases rule: trait_write_cases [of c cd p])
    case (prepared r' sl b1)
    from prepared(3) w' have e': "fst e' = set_send b1 c" by simp
    from prepared(1) sb.prepare [of "cell_buffer (send_buffer c)"] show ?thesis
      by (auto simp: e' tcp_emits_def e send_queue_def send_capacity_def intro: encodes_Nil)
  qed (use w w' e in \<open>auto simp: tcp_emits_def intro: encodes_Nil\<close>)
next
  fix t and e e' :: "'n tcp \<times> 'k"
  assume "time_now (tcp_ops cd clock) e = (t, e')"
  then show "tcp_emits cd e [] e'"
    by (auto simp: tcp_ops_def tcp_emits_def intro: encodes_Nil split: prod.splits)
next
  fix p and e :: "'n tcp \<times> 'k"
  show "fst (try_write_packet (tcp_ops cd clock) p e) \<noteq> Undefined_Behaviour"
    using trait_write_defined [of cd p "fst e"] by (auto simp: tcp_ops_def split: prod.splits)
qed

end
