(* ===== verification/Tcp_Streams.thy ===== *)
theory Tcp_Streams
  imports Tcp_Connection
begin

text \<open>
  What the connection of \<open>src/src/state/connection/mod.rs\<close> does with the bytes: over a network
  that is an ordered byte stream, no operation loses, repeats or reorders a byte in either
  direction, whatever its outcome, and none panics on an open connection whose buffers are
  free.
\<close>

definition same_setup :: "'n tcp \<Rightarrow> 'n tcp \<Rightarrow> bool" where
  "same_setup c c' \<longleftrightarrow> watch c' = watch c \<and> connection c' = connection c
     \<and> tcp_config c' = tcp_config c \<and> tcp_last_will c' = tcp_last_will c"

definition ready :: "bool \<Rightarrow> bool \<Rightarrow> 'n tcp \<Rightarrow> bool" where
  "ready S R c \<longleftrightarrow> wf_tcp c \<and> connection c \<and> (S \<longrightarrow> borrows (send_buffer c) = 0)
     \<and> (R \<longrightarrow> borrows (recv_buffer c) = 0)"

lemma try_read_packet_wf:
  assumes wf: "wf_buffer (cell_buffer (recv_buffer c))" and idle: "borrows (recv_buffer c) = 0"
  shows "try_read_packet cd c =
    (case decode_slice_with_len cd (recv_queue c) of
       Inl e \<Rightarrow> (Err (CodecError e), c)
     | Inr None \<Rightarrow>
         if length (recv_queue c) = recv_capacity c then (Err BufferTooSmall, c) else (Ok None, c)
     | Inr (Some pk) \<Rightarrow> (Ok (Some pk), c\<lparr>recv_buffer := (recv_buffer c)\<lparr>borrows := 1\<rparr>\<rparr>))"
proof -
  have "is_max_len (cell_buffer (recv_buffer c)) \<longleftrightarrow> length (recv_queue c) = recv_capacity c"
    using is_max_len_wf [OF wf] by (simp add: recv_queue_def recv_capacity_def)
  with idle show ?thesis
    by (auto simp: try_read_packet_def cell_borrow_def try_map_maybe_def bufref_drop_def
        reaable_data_wf [OF wf] recv_queue_def split: sum.splits option.splits)
qed

section \<open>The contract of a network connection\<close>

text \<open>
  The contract of \<open>embedded_io_async::{Read, Write}\<close> that the code relies on: a successful write
  of a non-empty slice takes a non-empty prefix of it, a successful read stores the next bytes
  that arrive into a prefix of the slice, and an operation that fails or is dropped before it
  completes transfers nothing.  \<open>sent\<close> are the bytes written so far, \<open>incoming\<close> the bytes still
  to be read.
\<close>


locale byte_stream =
  fixes net :: "'n network_ops"
    and sent :: "'n \<Rightarrow> byte list"
    and incoming :: "'n \<Rightarrow> byte list"
  assumes wrote: "nw_write net bs n = (Some (Inr k), n') \<Longrightarrow> bs \<noteq> [] \<Longrightarrow>
      0 < k \<and> k \<le> length bs \<and> sent n' = sent n @ take k bs \<and> incoming n' = incoming n"
    and not_wrote: "nw_write net bs n = (r, n') \<Longrightarrow> (\<nexists>k. r = Some (Inr k)) \<Longrightarrow>
      sent n' = sent n \<and> incoming n' = incoming n"
    and flushed: "nw_flush net n = (fl, n') \<Longrightarrow> sent n' = sent n \<and> incoming n' = incoming n"
    and received: "nw_read net len n = (Some (Inr bs), n') \<Longrightarrow>
      length bs \<le> len \<and> incoming n = bs @ incoming n' \<and> sent n' = sent n"
    and not_received: "nw_read net len n = (rd, n') \<Longrightarrow> (\<nexists>bs. rd = Some (Inr bs)) \<Longrightarrow>
      sent n' = sent n \<and> incoming n' = incoming n"
    and polled: "nw_poll_read net len n = (Some (Inr bs), n') \<Longrightarrow>
      length bs \<le> len \<and> incoming n = bs @ incoming n' \<and> sent n' = sent n"
    and not_polled: "nw_poll_read net len n = (rd, n') \<Longrightarrow> (\<nexists>bs. rd = Some (Inr bs)) \<Longrightarrow>
      sent n' = sent n \<and> incoming n' = incoming n"
begin

definition conserves :: "nat \<Rightarrow> 'n tcp \<Rightarrow> 'n tcp \<Rightarrow> bool" where
  "conserves k c c' \<longleftrightarrow>
     same_setup c c' \<and> borrows (send_buffer c') = borrows (send_buffer c)
     \<and> borrows (recv_buffer c') = borrows (recv_buffer c) + k
     \<and> wf_tcp c' \<and> send_capacity c' = send_capacity c \<and> recv_capacity c' = recv_capacity c
     \<and> sent (network c') @ send_queue c' = sent (network c) @ send_queue c
     \<and> recv_queue c' @ incoming (network c') = recv_queue c @ incoming (network c)"

lemma conserves_refl [simp, intro]: "wf_tcp c \<Longrightarrow> conserves 0 c c"
  by (simp add: conserves_def same_setup_def)

lemma conserves_trans: "conserves 0 c c1 \<Longrightarrow> conserves k c1 c2 \<Longrightarrow> conserves k c c2"
  unfolding conserves_def same_setup_def by (elim conjE) simp

lemma conserves_wf: "conserves k c c' \<Longrightarrow> wf_tcp c'"
  by (simp add: conserves_def)

text \<open>\<open>safe S R c x\<close>: the result \<open>x\<close> of a piece of code run from \<open>c\<close> with well-formed buffers
  conserves the streams, and is no panic when the connection is open, its buffers are well-formed and those of them
  that the code borrows itself are free: the send buffer if \<open>S\<close>, the receive buffer if \<open>R\<close>.\<close>

definition safe :: "bool \<Rightarrow> bool \<Rightarrow> 'n tcp \<Rightarrow> 'a outcome \<times> 'n tcp \<Rightarrow> bool" where
  "safe S R c x \<longleftrightarrow> (wf_tcp c \<longrightarrow> conserves 0 c (snd x)) \<and> (ready S R c \<longrightarrow> no_panic (fst x))"

lemma ready_conserved: "conserves 0 c c' \<Longrightarrow> ready S R c \<Longrightarrow> ready S R c'"
  by (auto simp: conserves_def ready_def same_setup_def)

lemma ready_wf: "ready S R c \<Longrightarrow> wf_tcp c"
  by (simp add: ready_def)

lemma safeI: "(wf_tcp c \<Longrightarrow> safe S R c x) \<Longrightarrow> safe S R c x"
  by (auto simp: safe_def dest: ready_wf)

lemma safe_return [simp]: "safe S R c (Ok v, c)" "safe S R c (Err e, c)"
  by (simp_all add: safe_def)

lemma safe_weaken: "safe S R c x \<Longrightarrow> (S \<longrightarrow> S') \<Longrightarrow> (R \<longrightarrow> R') \<Longrightarrow> safe S' R' c x"
  by (auto simp: safe_def ready_def)

lemma safe_and_then:
  assumes r: "safe S R c r" and f: "\<And>v c1. r = (Ok v, c1) \<Longrightarrow> safe S R c1 (f v c1)"
  shows "safe S R c (and_then r f)"
proof (cases "\<exists>v c1. r = (Ok v, c1)")
  case True
  then obtain v c1 where r1: "r = (Ok v, c1)" by blast
  with r f [OF r1] show ?thesis
    by (auto simp: safe_def dest: ready_wf intro: conserves_trans ready_conserved conserves_wf)
next
  case False
  with r show ?thesis
    by (cases "(r, f)" rule: and_then.cases) (auto simp: safe_def no_panic_def)
qed

lemma borrowing_send:
  "conserves 0 (c\<lparr>send_buffer := (send_buffer c)\<lparr>borrows := 1\<rparr>\<rparr>) c1 \<Longrightarrow> borrows (send_buffer c) = 0 \<Longrightarrow>
    conserves 0 c (c1\<lparr>send_buffer := (send_buffer c1)\<lparr>borrows := 0\<rparr>\<rparr>)"
  by (auto simp: conserves_def same_setup_def wf_tcp_def send_queue_def recv_queue_def
      send_capacity_def recv_capacity_def)

lemma borrowing_recv:
  "conserves 0 (c\<lparr>recv_buffer := (recv_buffer c)\<lparr>borrows := 1\<rparr>\<rparr>) c1 \<Longrightarrow> borrows (recv_buffer c) = 0 \<Longrightarrow>
    conserves 0 c (c1\<lparr>recv_buffer := (recv_buffer c1)\<lparr>borrows := 0\<rparr>\<rparr>)"
  by (auto simp: conserves_def same_setup_def wf_tcp_def send_queue_def recv_queue_def
      send_capacity_def recv_capacity_def)

lemma safe_with_send:
  assumes "\<And>c. safe False R c (f c)"
  shows "safe True R c (with_send_buffer f c)"
proof (rule safeI)
  assume wf: "wf_tcp c"
  show ?thesis
  proof (cases "0 < borrows (send_buffer c)")
    case True
    with wf show ?thesis by (simp add: with_send_buffer_def cell_borrow_def safe_def ready_def)
  next
    case False
    let ?c = "c\<lparr>send_buffer := (send_buffer c)\<lparr>borrows := 1\<rparr>\<rparr>"
    obtain r c1 where f: "f ?c = (r, c1)" by (cases "f ?c")
    with wf assms [of ?c] have 1: "conserves 0 ?c c1" "ready False R ?c \<longrightarrow> no_panic r"
      by (simp_all add: safe_def wf_tcp_def)
    from 1(1) have b: "borrows (send_buffer c1) = 1" by (simp add: conserves_def)
    from f b False
    have "with_send_buffer f c = (r, c1\<lparr>send_buffer := (send_buffer c1)\<lparr>borrows := 0\<rparr>\<rparr>)"
      by (simp add: with_send_buffer_def cell_borrow_def bufref_drop_def)
    with 1 False borrowing_send [OF 1(1)] show ?thesis
      by (auto simp: safe_def ready_def wf_tcp_def)
  qed
qed
lemma safe_with_recv:
  assumes "\<And>c. safe S False c (f c)"
  shows "safe S True c (with_recv_buffer f c)"
proof (rule safeI)
  assume wf: "wf_tcp c"
  show ?thesis
  proof (cases "0 < borrows (recv_buffer c)")
    case True
    with wf show ?thesis by (simp add: with_recv_buffer_def cell_borrow_def safe_def ready_def)
  next
    case False
    let ?c = "c\<lparr>recv_buffer := (recv_buffer c)\<lparr>borrows := 1\<rparr>\<rparr>"
    obtain r c1 where f: "f ?c = (r, c1)" by (cases "f ?c")
    with wf assms [of ?c] have 1: "conserves 0 ?c c1" "ready S False ?c \<longrightarrow> no_panic r"
      by (simp_all add: safe_def wf_tcp_def)
    from 1(1) have b: "borrows (recv_buffer c1) = 1" by (simp add: conserves_def)
    from f b False
    have "with_recv_buffer f c = (r, c1\<lparr>recv_buffer := (recv_buffer c1)\<lparr>borrows := 0\<rparr>\<rparr>)"
      by (simp add: with_recv_buffer_def cell_borrow_def bufref_drop_def)
    with 1 False borrowing_recv [OF 1(1)] show ?thesis
      by (auto simp: safe_def ready_def wf_tcp_def)
  qed
qed
lemma leave_no_panic: "no_panic r \<Longrightarrow> no_panic (leave r)"
  by (cases r rule: leave.cases) (simp_all add: no_panic_def)

lemma safe_run_loop:
  assumes "\<And>c. safe S R c (body c)"
  shows "safe S R c (run_loop body c)"
proof -
  have "safe S R c (fst (run_loop body c), snd (run_loop body c))"
  proof (rule run_loop_rel [where R = "\<lambda>c c'. safe S R c (Ok (), c')"
        and Q = "\<lambda>c r c'. safe S R c (r, c')"])
    fix s s' assume "body s = (Ok None, s')"
    with assms [of s] show "safe S R s (Ok (), s')" by (simp add: safe_def)
  next
    fix s s' r assume "body s = (r, s')"
    with assms [of s] show "safe S R s (leave r, s')"
      by (auto simp: safe_def intro: leave_no_panic)
  qed (auto simp: safe_def dest: ready_wf intro: conserves_trans ready_conserved conserves_wf)
  then show ?thesis by simp
qed

lemma require_connection_Ok: "require_connection c = (Ok v, c') \<Longrightarrow> c' = c"
  by (simp add: require_connection_def split: if_splits)

lemma safe_require: "safe S R c (require_connection c)"
  by (simp add: require_connection_def safe_def ready_def)

lemma safe_flush: "safe S R c (network_result (nw_flush net) c)"
  by (cases "nw_flush net (network c)")
    (auto simp: network_result_def safe_def conserves_def same_setup_def wf_tcp_def send_queue_def
      recv_queue_def send_capacity_def recv_capacity_def dest!: flushed split: option.splits sum.splits)


lemmas tcp_views = same_setup_def wf_tcp_def send_queue_def recv_queue_def send_capacity_def
  recv_capacity_def

lemma safe_flip_recv: "safe S R c (on_recv (unit_step flip) c)"
proof (rule safeI)
  assume wf: "wf_tcp c"
  then obtain b where "flip (cell_buffer (recv_buffer c)) = Ok b" "wf_buffer b"
    "contents b = contents (cell_buffer (recv_buffer c))"
    "capacity b = capacity (cell_buffer (recv_buffer c))"
    by (auto simp: wf_tcp_def elim: flip_wf [of "cell_buffer (recv_buffer c)"])
  with wf show ?thesis
    by (simp add: on_recv_def unit_step_def safe_def conserves_def tcp_views)
qed

lemma safe_write_readable:
  assumes "has_remaining_len (cell_buffer (send_buffer c))"
  shows "safe S R c (write_readable net c)"
proof (rule safeI)
  assume wf_tcp: "wf_tcp c"
  then have wf: "wf_buffer (cell_buffer (send_buffer c))" by (simp add: wf_tcp_def)
  let ?q = "contents (cell_buffer (send_buffer c))"
  from wf assms have q: "?q \<noteq> []" by (simp add: has_remaining_len_wf)
  obtain r n where w: "nw_write net ?q (network c) = (r, n)" by (cases "nw_write net ?q (network c)")
  show ?thesis
  proof (cases "\<exists>k. r = Some (Inr k)")
    case True
    then obtain k where r: "r = Some (Inr k)" by blast
    with wrote [OF w [unfolded r] q] have k: "k \<le> length ?q" "sent n = sent (network c) @ take k ?q"
      "incoming n = incoming (network c)" by auto
    from sb.discard [OF wf k(1)] obtain b where "consume k (cell_buffer (send_buffer c)) = Ok b"
      "wf_buffer b" "contents b = drop k ?q" "capacity b = capacity (cell_buffer (send_buffer c))"
      by auto
    with wf wf_tcp w r k show ?thesis
      by (auto simp: write_readable_def on_send_def look_def unit_step_def reaable_data_wf
          network_result_def safe_def conserves_def tcp_views)
  next
    case False
    with not_wrote [OF w] w wf wf_tcp show ?thesis
      by (auto simp: write_readable_def on_send_def look_def unit_step_def reaable_data_wf
          network_result_def safe_def conserves_def tcp_views split: option.splits sum.splits)
  qed
qed

lemma safe_receive:
  \<comment> \<open>what the two reading moves share: \<open>f\<close> is the network's part\<close>
  assumes got: "\<And>len c v c1. f len c = (Ok v, c1) \<Longrightarrow> \<exists>n. c1 = c\<lparr>network := n\<rparr> \<and> length v \<le> len
      \<and> incoming (network c) = v @ incoming n \<and> sent n = sent (network c)"
    and not_got: "\<And>len c r c1. f len c = (r, c1) \<Longrightarrow> (\<nexists>v. r = Ok v) \<Longrightarrow> no_panic r \<and>
      (\<exists>n. c1 = c\<lparr>network := n\<rparr> \<and> incoming (network c) = incoming n \<and> sent n = sent (network c))"
  shows "safe S R c
    (and_then (on_recv writeable_data c) (\<lambda>buf c.
     and_then (f (length buf) c) (\<lambda>bytes c.
     and_then (on_recv (unit_step (store bytes)) c) (\<lambda>_ c. (Ok (length bytes), c)))))"
  (is "safe S R c ?m")
proof (rule safeI)
  assume wf_tcp: "wf_tcp c"
  then have wf: "wf_buffer (cell_buffer (recv_buffer c))" by (simp add: wf_tcp_def)
  from sb.prepare [OF wf] obtain sl b1 where b1: "writeable_data (cell_buffer (recv_buffer c)) = Ok (sl, b1)"
    "wf_buffer b1" "contents b1 = contents (cell_buffer (recv_buffer c))"
    "capacity b1 = capacity (cell_buffer (recv_buffer c))" "avail b1 = length sl" by blast
  let ?c1 = "set_recv b1 c"
  have "conserves 0 c ?c1" using b1 wf_tcp by (simp add: conserves_def tcp_views set_recv_def)
  have w: "on_recv writeable_data c = (Ok sl, ?c1)" using b1 by (simp add: on_recv_def set_recv_def)
  obtain r c2 where f: "f (length sl) ?c1 = (r, c2)" by (cases "f (length sl) ?c1")
  show ?thesis
  proof (cases "\<exists>v. r = Ok v")
    case True
    then obtain v where r: "r = Ok v" by blast
    with got [of "length sl" ?c1 v c2] f obtain n where n: "c2 = ?c1\<lparr>network := n\<rparr>" "length v \<le> length sl"
      "incoming (network c) = v @ incoming n" "sent n = sent (network c)" by (auto simp: set_recv_def)
    from sb.put [OF b1(2), of v] n(2) b1(5) obtain b2 where "store v b1 = Ok b2" "wf_buffer b2"
      "contents b2 = contents b1 @ v" "capacity b2 = capacity b1" by auto
    with w f r n b1 wf_tcp show ?thesis
      by (simp add: on_recv_def unit_step_def safe_def conserves_def tcp_views set_recv_def)
  next
    case False
    with not_got [of "length sl" ?c1 r c2] f obtain n where n: "c2 = ?c1\<lparr>network := n\<rparr>" "no_panic r"
      "incoming (network c) = incoming n" "sent n = sent (network c)" by (auto simp: set_recv_def)
    have "conserves 0 c c2" using b1 n wf_tcp
      by (simp add: conserves_def tcp_views set_recv_def)
    with w f False n(2) show ?thesis by (cases r) (simp_all add: safe_def)
  qed
qed

lemma safe_read_writeable: "safe S R c (read_writeable net c)"
  unfolding read_writeable_def
proof (rule safe_receive)
  fix len v and c c1 :: "'n tcp"
  assume "network_result (nw_read net len) c = (Ok v, c1)"
  then show "\<exists>n. c1 = c\<lparr>network := n\<rparr> \<and> length v \<le> len
      \<and> incoming (network c) = v @ incoming n \<and> sent n = sent (network c)"
    by (auto simp: network_result_def dest!: received split: prod.splits option.splits sum.splits)
next
  fix len and r :: "byte list outcome" and c c1 :: "'n tcp"
  assume "network_result (nw_read net len) c = (r, c1)" "\<nexists>v. r = Ok v"
  then show "no_panic r \<and> (\<exists>n. c1 = c\<lparr>network := n\<rparr>
      \<and> incoming (network c) = incoming n \<and> sent n = sent (network c))"
    by (auto simp: network_result_def dest!: not_received split: prod.splits option.splits sum.splits)
qed

lemma safe_try_read_writeable: "safe S R c (try_read_writeable net c)"
  unfolding try_read_writeable_def
proof (rule safe_receive)
  fix len v and c c1 :: "'n tcp"
  assume r: "network_try_read net len c = (Ok v, c1)"
  obtain x n where x: "nw_poll_read net len (network c) = (x, n)" by (cases "nw_poll_read net len (network c)")
  with r have "c1 = c\<lparr>network := n\<rparr>" "x = Some (Inr v) \<or> x = None \<and> v = []"
    by (auto simp: network_try_read_def split: option.splits sum.splits)
  with x polled [of len "network c" v n] not_polled [OF x]
  show "\<exists>n. c1 = c\<lparr>network := n\<rparr> \<and> length v \<le> len
      \<and> incoming (network c) = v @ incoming n \<and> sent n = sent (network c)"
    by (intro exI [of _ n]) auto
next
  fix len and r :: "byte list outcome" and c c1 :: "'n tcp"
  assume "network_try_read net len c = (r, c1)" "\<nexists>v. r = Ok v"
  then show "no_panic r \<and> (\<exists>n. c1 = c\<lparr>network := n\<rparr>
      \<and> incoming (network c) = incoming n \<and> sent n = sent (network c))"
    by (auto simp: network_try_read_def dest!: not_polled split: prod.splits option.splits sum.splits)
qed


lemma safe_send_all_intern: "safe True R c (send_all_intern net c)"
  unfolding send_all_intern_def
  by (intro safe_with_send safe_and_then safe_run_loop safe_flush)
    (auto intro!: safe_and_then safe_write_readable)

lemma safe_send_all: "safe True R c (send_all net c)"
  unfolding send_all_def by (intro safe_and_then safe_require safe_send_all_intern)

lemma safe_tcp_send: "safe True R c (tcp_send net c)"
  unfolding tcp_send_def
  by (rule safe_with_send)
    (auto intro!: safe_and_then safe_require safe_write_readable safe_flush dest: require_connection_Ok)

lemma safe_send_receive: "safe True True c (send_receive net c)"
  unfolding send_receive_def
  by (intro safe_with_send safe_with_recv safe_and_then safe_flip_recv safe_require safe_run_loop)
    (auto intro!: safe_and_then safe_write_readable safe_flush safe_read_writeable
      safe_try_read_writeable)

text \<open>\<open>lends\<close>: as \<open>safe\<close>, but a packet that is returned keeps the receive buffer borrowed and is
  what the decoder makes of the bytes received.\<close>

definition lends :: "codec \<Rightarrow> 'n tcp \<Rightarrow> (nat \<times> packet) option outcome \<times> 'n tcp \<Rightarrow> bool" where
  "lends cd c x \<longleftrightarrow>
     (case x of
        (Ok (Some pk), c') \<Rightarrow>
          wf_tcp c \<longrightarrow> conserves 1 c c' \<and> decode_slice_with_len cd (recv_queue c') = Inr (Some pk)
      | _ \<Rightarrow> safe True True c x)"

lemma lendsI: "(wf_tcp c \<Longrightarrow> lends cd c x) \<Longrightarrow> lends cd c x"
  using ready_wf [of True True c]
  by (cases "wf_tcp c")
    (auto simp: lends_def safe_def split: prod.splits outcome.splits option.splits)

lemma lends_other: "(\<nexists>pk. fst x = Ok (Some pk)) \<Longrightarrow> lends cd c x = safe True True c x"
  by (auto simp: lends_def split: prod.splits outcome.splits option.splits)

lemma lends_packet: "lends cd c (Ok (Some pk), c') \<longleftrightarrow>
    (wf_tcp c \<longrightarrow> conserves 1 c c' \<and> decode_slice_with_len cd (recv_queue c') = Inr (Some pk))"
  by (simp add: lends_def)

lemma lends_after:
  assumes c: "conserves 0 c c1" and x: "lends cd c1 x"
  shows "lends cd c x"
proof (cases "\<exists>pk. fst x = Ok (Some pk)")
  case True
  then obtain pk c' where "x = (Ok (Some pk), c')" by (cases x) auto
  with c x show ?thesis by (auto simp: lends_packet intro: conserves_trans dest: conserves_wf)
next
  case False
  with c x show ?thesis
    by (auto simp: lends_other safe_def intro: conserves_trans ready_conserved dest: conserves_wf)
qed

lemma lends_and_then:
  assumes r: "safe True True c r" and f: "\<And>v c1. r = (Ok v, c1) \<Longrightarrow> lends cd c1 (f v c1)"
  shows "lends cd c (and_then r f)"
proof (rule lendsI)
  assume wf: "wf_tcp c"
  show ?thesis
  proof (cases "\<exists>v c1. r = (Ok v, c1)")
    case True
    then obtain v c1 where r1: "r = (Ok v, c1)" by blast
    with r wf have "conserves 0 c c1" by (simp add: safe_def)
    from lends_after [OF this f [OF r1]] r1 show ?thesis by simp
  next
    case False
    with r show ?thesis
      by (cases "(r, f)" rule: and_then.cases) (auto simp: safe_def lends_other no_panic_def)
  qed
qed

lemma lends_try_read_packet: "lends cd c (try_read_packet cd c)"
proof (rule lendsI)
  assume wf: "wf_tcp c"
  show ?thesis
  proof (cases "borrows (recv_buffer c) = 0")
    case False
    with wf show ?thesis
      by (simp add: try_read_packet_def cell_borrow_def lends_other safe_def ready_def)
  next
    case idle: True
    from wf have "wf_buffer (cell_buffer (recv_buffer c))" by (simp add: wf_tcp_def)
    from try_read_packet_wf [OF this idle] idle wf show ?thesis
      by (auto simp: lends_def conserves_def tcp_views split: sum.splits option.splits)
  qed
qed

text \<open>A loop that ends with a packet.\<close>

lemma lends_run_loop:
  assumes "\<And>c. lends cd c (body c)"
  shows "lends cd c (case run_loop body c of (r, c') \<Rightarrow> (obind r (\<lambda>pk. Ok (Some pk)), c'))"
proof (rule lendsI)
  assume wf: "wf_tcp c"
  have "wf_tcp c \<longrightarrow> lends cd c (obind (fst (run_loop body c)) (\<lambda>pk. Ok (Some pk)), snd (run_loop body c))"
  proof (rule run_loop_rel [where R = "\<lambda>c c'. wf_tcp c \<longrightarrow> conserves 0 c c'"
      and Q = "\<lambda>c r c'. wf_tcp c \<longrightarrow> lends cd c (obind r (\<lambda>pk. Ok (Some pk)), c')"])
    fix s s' assume "body s = (Ok None, s')"
    with assms [of s] show "wf_tcp s \<longrightarrow> conserves 0 s s'" by (simp add: lends_def safe_def)
  next
    fix s s' r assume "body s = (r, s')" "r \<noteq> Ok None"
    with assms [of s] show "wf_tcp s \<longrightarrow> lends cd s (obind (leave r) (\<lambda>pk. Ok (Some pk)), s')"
      by (cases r rule: leave.cases) (auto simp: lends_def)
  qed (auto simp: lends_other safe_def intro: conserves_trans lends_after dest: conserves_wf)
  with wf show ?thesis by (simp add: split_beta)
qed

lemma run_io_lends:
  assumes "run_io cd net c = (r, c')" and "watch c = Some Connected"
  shows "lends cd c (obind r (\<lambda>pk. Ok (Some pk)), c')"
proof -
  have "lends cd c (case run_loop (\<lambda>c. and_then (send_receive net c) (\<lambda>_ c. try_read_packet cd c)) c
      of (r, c') \<Rightarrow> (obind r (\<lambda>pk. Ok (Some pk)), c'))"
    by (rule lends_run_loop) (auto intro: lends_and_then safe_send_receive lends_try_read_packet)
  with assms show ?thesis by (simp add: run_io_def)
qed

lemma read_packet_lends:
  assumes "read_packet cd net c = (r, c')"
  shows "lends cd c (obind r (\<lambda>pk. Ok (Some pk)), c')"
proof (cases "connection c")
  case False
  with assms show ?thesis
    by (simp add: read_packet_def require_connection_def lends_def safe_def ready_def)
next
  case True
  let ?body = "\<lambda>c. and_then (try_read_packet cd c) (\<lambda>r c. case r of Some packet \<Rightarrow> (Ok (Some packet), c)
    | None \<Rightarrow> and_then (with_recv_buffer (read_writeable net) c) (\<lambda>_ c. (Ok None, c)))"
  have "lends cd s (?body s)" for s
  proof -
    obtain r1 s1 where t: "try_read_packet cd s = (r1, s1)" by (cases "try_read_packet cd s")
    with lends_try_read_packet [of cd s] have l: "lends cd s (r1, s1)" by simp
    show ?thesis
    proof (rule lendsI)
      assume wf: "wf_tcp s"
      show ?thesis
      proof (cases "r1 = Ok None")
        case True
        with l wf have "conserves 0 s s1" by (simp add: lends_def safe_def)
        moreover have "lends cd s1 (and_then (with_recv_buffer (read_writeable net) s1) (\<lambda>_ c. (Ok None, c)))"
          by (rule lends_and_then [OF safe_weaken [OF safe_with_recv [OF safe_read_writeable]]])
            (simp_all add: lends_def)
        ultimately show ?thesis using t True by (simp add: lends_after)
      next
        case False
        with t l show ?thesis by (cases r1) (auto split: option.splits)
      qed
    qed
  qed
  from lends_run_loop [OF this, of c] assms True show ?thesis
    by (simp add: read_packet_def require_connection_def)
qed


lemma run_io_nonblocking_lends:
  assumes "run_io_nonblocking cd net c = (r, c')" and "watch c = Some Connected"
  shows "lends cd c (r, c')"
proof -
  have "safe True True c1 (with_recv_buffer (try_read_writeable net) c1)" for c1
    by (rule safe_weaken [OF safe_with_recv [OF safe_try_read_writeable]]) simp_all
  moreover have "safe True True c1 (tcp_send net c1)" "safe True True c1 (require_connection c1)" for c1
    by (rule safe_tcp_send, rule safe_require)
  ultimately show ?thesis
    using assms unfolding run_io_nonblocking_def
    by (auto intro!: lends_and_then lends_try_read_packet dest!: sym [of _ "(r, c')"])
qed

end
end
