(* ===== verification/Test_Doubles.thy ===== *)
theory Test_Doubles
  imports Tcp_Streams
begin

text \<open>
  \<open>src/src/state/connection/test.rs\<close>: the network and the connection that the crate's own tests
  run against.  \<open>TestTcpConnect\<close> is a network that takes every byte at once and whose received
  bytes the test supplies; \<open>DummyConnectionState\<close> holds one written packet at a time.  They
  instantiate the contracts of the network and of \<open>ConnectionState\<close>.  Wakers are left out: a
  poll of a future gives the same result whoever wakes it.
\<close>

section \<open>TestTcpConnect\<close>

record test_network =
  bytes_sent :: "byte list"
  bytes_received :: "byte list"

definition new_test_network :: test_network where
  "new_test_network = \<lparr>bytes_sent = [], bytes_received = []\<rparr>"

definition test_read :: "nat \<Rightarrow> test_network \<Rightarrow> (error_kind + byte list) option \<times> test_network" where
  \<comment> \<open>\<open>poll\<close> of \<open>TestConnectionReadFuture\<close>\<close>
  "test_read len n =
     (if bytes_received n = [] then (None, n)
      else if len < length (bytes_received n) then
        (Some (Inr (take len (bytes_received n))), n\<lparr>bytes_received := drop len (bytes_received n)\<rparr>)
      else (Some (Inr (bytes_received n)), n\<lparr>bytes_received := []\<rparr>))"

definition test_write :: "byte list \<Rightarrow> test_network \<Rightarrow> (error_kind + nat) option \<times> test_network" where
  "test_write buf n = (Some (Inr (length buf)), n\<lparr>bytes_sent := bytes_sent n @ buf\<rparr>)"

definition test_flush :: "test_network \<Rightarrow> (error_kind + unit) option \<times> test_network" where
  "test_flush n = (Some (Inr ()), n)"

definition test_connect :: "ip_addr \<times> u16 \<Rightarrow> test_network \<Rightarrow> (error_kind + unit) option \<times> test_network" where
  "test_connect remote n = (Some (Inr ()), n)"

definition add_bytes_to_receive :: "byte list \<Rightarrow> test_network \<Rightarrow> test_network" where
  "add_bytes_to_receive buf n = n\<lparr>bytes_received := bytes_received n @ buf\<rparr>"

definition add_packet_to_receive :: "codec \<Rightarrow> packet \<Rightarrow> test_network \<Rightarrow> test_network outcome" where
  "add_packet_to_receive cd p n =
     obind (unwrap_sum (encode_slice cd p 1024)) (\<lambda>bs. Ok (add_bytes_to_receive bs n))"

definition assert_packet_written :: "codec \<Rightarrow> test_network \<Rightarrow> (packet \<times> test_network) outcome" where
  \<comment> \<open>The packet the assertion closure is given, and the network without its bytes\<close>
  "assert_packet_written cd n =
     (case decode_slice_with_len cd (bytes_sent n) of
        Inr (Some (len, p)) \<Rightarrow> Ok (p, n\<lparr>bytes_sent := drop len (bytes_sent n)\<rparr>)
      | _ \<Rightarrow> Panic)"

definition assert_nothing_written :: "test_network \<Rightarrow> unit outcome" where
  "assert_nothing_written n = (if bytes_sent n = [] then Ok () else Panic)"

datatype addr_type = IPv4 | IPv6 | Either

definition test_dns :: "(string \<rightharpoonup> ip_addr) \<Rightarrow> addr_type \<Rightarrow> string \<Rightarrow> ip_addr option" where
  \<comment> \<open>\<open>TestDns::get_host_by_name\<close>\<close>
  "test_dns hosts ty name =
     (case hosts name of
        Some ip \<Rightarrow>
          (case (ip, ty) of
             (ip, Either) \<Rightarrow> Some ip
           | (V4 v4, IPv4) \<Rightarrow> Some (V4 v4)
           | (V6 v6, IPv6) \<Rightarrow> Some (V6 v6)
           | _ \<Rightarrow> None)
      | None \<Rightarrow> None)"

definition test_net :: "(string \<Rightarrow> ip_addr option) \<Rightarrow> test_network network_ops" where
  "test_net dns =
     \<lparr>nw_resolve = dns, nw_connect = test_connect, nw_write = test_write, nw_flush = test_flush,
      nw_read = test_read, nw_poll_read = test_read\<rparr>"

interpretation test: byte_stream "test_net dns" bytes_sent bytes_received for dns
  by unfold_locales
    (auto simp: test_net_def test_write_def test_flush_def test_read_def split: if_splits)

section \<open>DummyConnectionState\<close>

text \<open>The packets are kept encoded; \<open>assert_packet_written\<close> decodes and removes the one that was
  written.  \<open>write_packet\<close> and \<open>run_io\<close> sleep until the slot they wait for changes.\<close>

record dummy_connection =
  next_packet :: "byte list option"
  packet_written :: "byte list option"

definition new_dummy :: dummy_connection where
  "new_dummy = \<lparr>next_packet = None, packet_written = None\<rparr>"

definition dummy_try_write_packet :: "codec \<Rightarrow> packet \<Rightarrow> dummy_connection \<Rightarrow> bool outcome \<times> dummy_connection" where
  "dummy_try_write_packet cd p d =
     (case packet_written d of
        None \<Rightarrow>
          and_then (unwrap_sum (encode_slice cd p 1024), d) (\<lambda>bs d.
            (Ok True, d\<lparr>packet_written := Some bs\<rparr>))
      | Some _ \<Rightarrow> (Ok False, d))"

definition dummy_assert_packet_written :: "codec \<Rightarrow> dummy_connection \<Rightarrow> packet outcome \<times> dummy_connection" where
  "dummy_assert_packet_written cd d =
     (case packet_written d of
        None \<Rightarrow> (Panic, d)
      | Some bs \<Rightarrow>
          (let d' = d\<lparr>packet_written := None\<rparr> in
           case decode_slice cd bs of
             Inr (Some p) \<Rightarrow> (Ok p, d')
           | _ \<Rightarrow> (Panic, d')))"

definition set_next_packet :: "codec \<Rightarrow> packet \<Rightarrow> dummy_connection \<Rightarrow> unit outcome \<times> dummy_connection" where
  "set_next_packet cd p d =
     and_then (unwrap_sum (encode_slice cd p 1024), d) (\<lambda>bs d. (Ok (), d\<lparr>next_packet := Some bs\<rparr>))"

definition dummy_write_packet :: "codec \<Rightarrow> packet \<Rightarrow> dummy_connection \<Rightarrow> unit outcome \<times> dummy_connection" where
  "dummy_write_packet cd p d =
     and_then (dummy_try_write_packet cd p d) (\<lambda>sent d.
       if sent then (Ok (), d) else (Pending, d))"

definition dummy_run_io :: "codec \<Rightarrow> dummy_connection \<Rightarrow> packet outcome \<times> dummy_connection" where
  \<comment> \<open>\<open>run_io\<close>; \<open>run_io_nonblocking\<close> differs in the type of its result only.\<close>
  "dummy_run_io cd d =
     (case next_packet d of
        None \<Rightarrow> (Pending, d)
      | Some bs \<Rightarrow>
          (let d' = d\<lparr>next_packet := None\<rparr> in
           case decode_slice cd bs of
             Inr (Some p) \<Rightarrow> (Ok p, d')
           | _ \<Rightarrow> (Panic, d')))"

definition dummy_get_state :: "dummy_connection \<Rightarrow> connection_state_value option" where
  "dummy_get_state d = Some Connected"

definition dummy_connect :: "dummy_connection \<Rightarrow> unit outcome \<times> dummy_connection" where
  \<comment> \<open>So are \<open>disconnect\<close> and \<open>set_error\<close>.\<close>
  "dummy_connect d = (Panic, d)"

text \<open>The environment of a component test is a dummy and a clock.\<close>

definition dummy_ops :: "codec \<Rightarrow> ('k \<Rightarrow> instant \<times> 'k) \<Rightarrow> (dummy_connection \<times> 'k) ops" where
  "dummy_ops cd clock =
     \<lparr>try_write_packet = (\<lambda>p (d, k). case dummy_try_write_packet cd p d of (r, d') \<Rightarrow> (r, d', k)),
      time_now = (\<lambda>(d, k). case clock k of (t, k') \<Rightarrow> (t, d, k'))\<rparr>"

definition dummy_emits :: "codec \<Rightarrow> dummy_connection \<times> 'k \<Rightarrow> packet list \<Rightarrow> dummy_connection \<times> 'k \<Rightarrow> bool" where
  "dummy_emits cd e ps e' \<longleftrightarrow>
     ps = [] \<and> packet_written (fst e') = packet_written (fst e) \<or>
     (\<exists>p bs. ps = [p] \<and> packet_written (fst e) = None \<and> encode_slice cd p 1024 = Inr bs
        \<and> packet_written (fst e') = Some bs)"

interpretation dummy: packet_sink "dummy_ops cd clock :: (dummy_connection \<times> 'k) ops" "dummy_emits cd"
  for cd and clock :: "'k \<Rightarrow> instant \<times> 'k"
proof unfold_locales
  fix p and e e' :: "dummy_connection \<times> 'k"
  assume "try_write_packet (dummy_ops cd clock) p e = (Ok True, e')"
  then show "dummy_emits cd e [p] e'"
    by (cases e; cases "encode_slice cd p 1024")
      (auto simp: dummy_ops_def dummy_try_write_packet_def dummy_emits_def
        split: prod.splits option.splits)
next
  fix p r and e e' :: "dummy_connection \<times> 'k"
  assume "try_write_packet (dummy_ops cd clock) p e = (r, e')" "r \<noteq> Ok True"
  then show "dummy_emits cd e [] e'"
    by (cases e; cases "encode_slice cd p 1024")
      (auto simp: dummy_ops_def dummy_try_write_packet_def dummy_emits_def
        split: prod.splits option.splits)
next
  fix p and e :: "dummy_connection \<times> 'k"
  show "fst (try_write_packet (dummy_ops cd clock) p e) \<noteq> Undefined_Behaviour"
    by (cases e; cases "encode_slice cd p 1024")
      (auto simp: dummy_ops_def dummy_try_write_packet_def split: option.splits)
qed (auto simp: dummy_emits_def dummy_ops_def split: prod.splits)

end
