(* ===== verification/Publish_Out.thy ===== *)
theory Publish_Out
  imports Test_Doubles
begin

text \<open>
  \<open>src/src/state/publish2.rs\<close>: outgoing publishes.  A message waits in \<open>send_publish\<close> until it is
  written to the connection, then, depending on its quality of service, it is finished, waits
  for the PUBACK, or goes through PUBREC, PUBREL and PUBCOMP.  An entry that waits too long is
  sent again.
\<close>

section \<open>State\<close>

definition RESEND_DURATION :: duration where
  "RESEND_DURATION = from_secs 5"

record owned_publish = publish +
  op_unique_id :: unique_id

definition borrow :: "owned_publish \<Rightarrow> packet" where
  "borrow op = Publish (publish.truncate op)"

definition new_from_publish :: "sizes \<Rightarrow> publish \<Rightarrow> unique_id \<Rightarrow> owned_publish outcome" where
  "new_from_publish n p uid =
     (case string_try_from (TOPIC n) (topic_name p) of
        None \<Rightarrow> Err TopicSizeError
      | Some topic \<Rightarrow>
          (case vec_try_from (BUFFER n) (payload p) of
             None \<Rightarrow> Err BufferTooSmall
           | Some bytes \<Rightarrow>
               Ok \<lparr>dup = dup p, qospid = qospid p, retain = retain p, topic_name = topic,
                   payload = bytes, op_unique_id = uid\<rparr>))"

text \<open>\<open>AwaitPuback\<close> and \<open>AwaitPubrec\<close> have the same fields.\<close>

record await_publish =
  ap_pid :: pid
  ap_publish :: owned_publish
  publish_sent :: instant

record await_pubcomp =
  ac_pid :: pid
  pubrel_sent :: instant
  ac_unique_id :: unique_id

record send_pubrel =
  sr_pid :: pid
  sr_unique_id :: "unique_id option"

record publishes_inner =
  send_publish :: "owned_publish list"
  await_pubacks :: "await_publish list"
  await_pubrecs :: "await_publish list"
  send_pubrels :: "send_pubrel list"
  await_pubcomps :: "await_pubcomp list"

definition new_publishes :: publishes_inner where
  "new_publishes =
     \<lparr>send_publish = [], await_pubacks = [], await_pubrecs = [], send_pubrels = [], await_pubcomps = []\<rparr>"

section \<open>Conversions between the entries\<close>

definition await_puback_from :: "'e ops \<Rightarrow> owned_publish \<Rightarrow> 's \<times> 'e world
    \<Rightarrow> await_publish outcome \<times> 's \<times> 'e world" where
  "await_puback_from ops value st =
     (case qospid value of
        QP_AtLeastOnce pid \<Rightarrow>
          (case read_clock ops st of (now, st1) \<Rightarrow>
             (Ok \<lparr>ap_pid = pid, ap_publish = value, publish_sent = now\<rparr>, st1))
      | _ \<Rightarrow> (Panic, st))"

definition await_pubrec_from :: "'e ops \<Rightarrow> owned_publish \<Rightarrow> 's \<times> 'e world
    \<Rightarrow> await_publish outcome \<times> 's \<times> 'e world" where
  "await_pubrec_from ops value st =
     (case qospid value of
        QP_ExactlyOnce pid \<Rightarrow>
          (case read_clock ops st of (now, st1) \<Rightarrow>
             (Ok \<lparr>ap_pid = pid, ap_publish = value, publish_sent = now\<rparr>, st1))
      | _ \<Rightarrow> (Panic, st))"

definition await_pubcomp_from :: "'e ops \<Rightarrow> send_pubrel \<Rightarrow> 's \<times> 'e world
    \<Rightarrow> await_pubcomp outcome \<times> 's \<times> 'e world" where
  "await_pubcomp_from ops value st =
     (case read_clock ops st of (now, st1) \<Rightarrow>
        and_then (unwrap_option (sr_unique_id value), st1) (\<lambda>uid st.
          (Ok \<lparr>ac_pid = sr_pid value, pubrel_sent = now, ac_unique_id = uid\<rparr>, st)))"

definition new_anonymous :: "pid \<Rightarrow> send_pubrel" where
  "new_anonymous pid = \<lparr>sr_pid = pid, sr_unique_id = None\<rparr>"

definition send_pubrel_from :: "await_publish \<Rightarrow> send_pubrel" where
  "send_pubrel_from value = \<lparr>sr_pid = ap_pid value, sr_unique_id = Some (op_unique_id (ap_publish value))\<rparr>"

section \<open>Acknowledgements received\<close>

definition process_puback :: "pid \<Rightarrow> publishes_inner \<times> 'e world
    \<Rightarrow> unit outcome \<times> publishes_inner \<times> 'e world" where
  "process_puback pid st =
     (case st of (s, w) \<Rightarrow>
        (case position (\<lambda>p. ap_pid p = pid) (await_pubacks s) of
           Some index \<Rightarrow>
             (let publish = await_pubacks s ! index;
                  s1 = s\<lparr>await_pubacks := vec_remove index (await_pubacks s)\<rparr>;
                  w1 = world_free_pid (ap_pid publish) w;
                  w2 = publish_event (PublishDone (op_unique_id (ap_publish publish))) w1
              in (Ok (), s1, w2))
         | None \<Rightarrow> (Err (UnexpectedAck pid), s, w)))"

definition process_pubrec :: "sizes \<Rightarrow> pid \<Rightarrow> publishes_inner \<times> 'e world
    \<Rightarrow> unit outcome \<times> publishes_inner \<times> 'e world" where
  "process_pubrec n pid st =
     (case st of (s, w) \<Rightarrow>
        (case (case position (\<lambda>p. ap_pid p = pid) (await_pubrecs s) of
                 Some index \<Rightarrow>
                   (send_pubrel_from (await_pubrecs s ! index),
                    s\<lparr>await_pubrecs := vec_remove index (await_pubrecs s)\<rparr>)
               | None \<Rightarrow> (new_anonymous pid, s)) of
           (pubrel, s1) \<Rightarrow>
             (case vec_push (QUEUE n) pubrel (send_pubrels s1) of
                Inr q \<Rightarrow> (Ok (), s1\<lparr>send_pubrels := q\<rparr>, w)
              | Inl pubrel \<Rightarrow> (Err (QueueFull (QP_ExactlyOnce (sr_pid pubrel))), s1, w))))"

definition process_pubcomp :: "pid \<Rightarrow> publishes_inner \<times> 'e world
    \<Rightarrow> unit outcome \<times> publishes_inner \<times> 'e world" where
  "process_pubcomp pid st =
     (case st of (s, w) \<Rightarrow>
        (case position (\<lambda>p. ac_pid p = pid) (await_pubcomps s) of
           Some index \<Rightarrow>
             (let publish = await_pubcomps s ! index;
                  s1 = s\<lparr>await_pubcomps := vec_remove index (await_pubcomps s)\<rparr>;
                  w1 = world_free_pid (ac_pid publish) w;
                  w2 = publish_event (PublishDone (ac_unique_id publish)) w1
              in (Ok (), s1, w2))
         | None \<Rightarrow> (Err (UnexpectedAck pid), s, w)))"

definition process_incoming_packet :: "sizes \<Rightarrow> packet \<Rightarrow> publishes_inner \<times> 'e world
    \<Rightarrow> unit outcome \<times> publishes_inner \<times> 'e world" where
  "process_incoming_packet n p st =
     (case p of
        Puback pid \<Rightarrow> process_puback pid st
      | Pubrec pid \<Rightarrow> process_pubrec n pid st
      | Pubcomp pid \<Rightarrow> process_pubcomp pid st
      | _ \<Rightarrow> (Ok (), st))"

section \<open>Sending\<close>

definition has_space :: "sizes \<Rightarrow> owned_publish \<Rightarrow> publishes_inner \<Rightarrow> bool" where
  "has_space n current s =
     (case qospid_qos (qospid current) of
        AtMostOnce \<Rightarrow> True
      | AtLeastOnce \<Rightarrow> \<not> vec_is_full (QUEUE n) (await_pubacks s)
      | ExactlyOnce \<Rightarrow> \<not> vec_is_full (QUEUE n) (await_pubrecs s))"

definition file_published :: "'e ops \<Rightarrow> sizes \<Rightarrow> owned_publish \<Rightarrow> publishes_inner \<times> 'e world
    \<Rightarrow> unit outcome \<times> publishes_inner \<times> 'e world" where
  \<comment> \<open>The \<open>match\<close> on a publish that was written and removed from \<open>send_publish\<close>\<close>
  "file_published ops n current st =
     (case qospid_qos (qospid current) of
        AtMostOnce \<Rightarrow> (Ok (), fst st, publish_event (PublishDone (op_unique_id current)) (snd st))
      | AtLeastOnce \<Rightarrow>
          and_then (await_puback_from ops current st) (\<lambda>entry (s, w).
          and_then (vec_push_unchecked (QUEUE n) entry (await_pubacks s), s, w) (\<lambda>q (s, w).
            (Ok (), s\<lparr>await_pubacks := q\<rparr>, w)))
      | ExactlyOnce \<Rightarrow>
          and_then (await_pubrec_from ops current st) (\<lambda>entry (s, w).
          and_then (vec_push_unchecked (QUEUE n) entry (await_pubrecs s), s, w) (\<lambda>q (s, w).
            (Ok (), s\<lparr>await_pubrecs := q\<rparr>, w))))"

lemma read_clock_fst: "fst (snd (read_clock ops st)) = fst st"
  by (cases "time_now ops (env (snd st))") (simp add: read_clock_def)

lemma await_publish_from_fst:
  "fst (snd (await_puback_from ops v st)) = fst st" "fst (snd (await_pubrec_from ops v st)) = fst st"
  "fst (snd (await_pubcomp_from ops r st)) = fst st"
  using read_clock_fst [of ops st]
  by (auto simp: await_puback_from_def await_pubrec_from_def await_pubcomp_from_def
      split: qospid.splits prod.splits and_then_split)

lemma file_published_fst:
  "send_publish (fst (snd (file_published ops n current st))) = send_publish (fst st)"
  using await_publish_from_fst(1,2) [of ops current st]
  by (auto simp: file_published_def vec_push_unchecked_def split: qos.splits and_then_split prod.splits)

lemma file_published_send_publish:
  "file_published ops n current st = (r, st') \<Longrightarrow> send_publish (fst st') = send_publish (fst st)"
  using file_published_fst [of ops n current st] by simp

function send_pending_publishes :: "'e ops \<Rightarrow> sizes \<Rightarrow> nat \<Rightarrow> publishes_inner \<times> 'e world
    \<Rightarrow> send_result outcome \<times> publishes_inner \<times> 'e world" where
  "send_pending_publishes ops n i st =
     (if i < length (send_publish (fst st)) then
        if has_space n (send_publish (fst st) ! i) (fst st) then
          and_then (try_write ops (borrow (send_publish (fst st) ! i)) st) (\<lambda>sent st1.
            if \<not> sent then (Ok PartiallySent, st1)
            else
              and_then
                (file_published ops n ((send_publish (fst st1) ! i)\<lparr>dup := True\<rparr>)
                  ((fst st1)\<lparr>send_publish := vec_remove i (send_publish (fst st1))\<rparr>, snd st1))
                (\<lambda>_ st2. send_pending_publishes ops n i st2))
        else send_pending_publishes ops n (i + 1) st
      else (Ok SentAll, st))"
  by pat_completeness auto
termination
  by (relation "measure (\<lambda>(ops, n, i, st). length (send_publish (fst st)) - i)")
    (auto dest!: try_write_frame file_published_send_publish)

definition file_pubrel :: "'e ops \<Rightarrow> sizes \<Rightarrow> send_pubrel \<Rightarrow> publishes_inner \<times> 'e world
    \<Rightarrow> unit outcome \<times> publishes_inner \<times> 'e world" where
  \<comment> \<open>\<open>self.await_pubcomp.push_unchecked(current.into())\<close>\<close>
  "file_pubrel ops n current st =
     and_then (await_pubcomp_from ops current st) (\<lambda>entry (s, w).
     and_then (vec_push_unchecked (QUEUE n) entry (await_pubcomps s), s, w) (\<lambda>q (s, w).
       (Ok (), s\<lparr>await_pubcomps := q\<rparr>, w)))"

lemma file_pubrel_fst: "send_pubrels (fst (snd (file_pubrel ops n current st))) = send_pubrels (fst st)"
  using await_publish_from_fst(3) [of ops current st]
  by (auto simp: file_pubrel_def vec_push_unchecked_def split: and_then_split prod.splits)

lemma file_pubrel_send_pubrels:
  "file_pubrel ops n current st = (r, st') \<Longrightarrow> send_pubrels (fst st') = send_pubrels (fst st)"
  using file_pubrel_fst [of ops n current st] by simp

function send_pending_pubrel :: "'e ops \<Rightarrow> sizes \<Rightarrow> nat \<Rightarrow> publishes_inner \<times> 'e world
    \<Rightarrow> send_result outcome \<times> publishes_inner \<times> 'e world" where
  "send_pending_pubrel ops n i st =
     (if i < length (send_pubrels (fst st)) then
        if \<not> vec_is_full (QUEUE n) (await_pubcomps (fst st)) then
          and_then (try_write ops (Pubrel (sr_pid (send_pubrels (fst st) ! i))) st) (\<lambda>sent st1.
            if \<not> sent then (Ok PartiallySent, st1)
            else
              and_then
                (file_pubrel ops n (send_pubrels (fst st1) ! i)
                  ((fst st1)\<lparr>send_pubrels := vec_remove i (send_pubrels (fst st1))\<rparr>, snd st1))
                (\<lambda>_ st2. send_pending_pubrel ops n i st2))
        else send_pending_pubrel ops n (i + 1) st
      else (Ok SentAll, st))"
  by pat_completeness auto
termination
  by (relation "measure (\<lambda>(ops, n, i, st). length (send_pubrels (fst st)) - i)")
    (auto dest!: try_write_frame file_pubrel_send_pubrels)

declare send_pending_publishes.simps [simp del] send_pending_pubrel.simps [simp del]

text \<open>\<open>for pending in queue.iter_mut().filter(|pending| now - sent > RESEND_DURATION)\<close>: the entries
  before the one that does not fit the send buffer are updated, the others stay.\<close>

fun resend_each :: "'e ops \<Rightarrow> ('a \<Rightarrow> bool) \<Rightarrow> ('a \<Rightarrow> packet) \<Rightarrow> ('a \<Rightarrow> 'a) \<Rightarrow> 'a list \<times> 'e world
    \<Rightarrow> send_result outcome \<times> 'a list \<times> 'e world" where
  "resend_each ops overdue packet_of restart ([], w) = (Ok SentAll, [], w)"
| "resend_each ops overdue packet_of restart (x # xs, w) =
     (if overdue x then
        and_then (try_write ops (packet_of x) (x # xs, w)) (\<lambda>sent (_, w1).
          if sent then
            (case resend_each ops overdue packet_of restart (xs, w1) of
               (r, ys, w2) \<Rightarrow> (r, restart x # ys, w2))
          else (Ok PartiallySent, x # xs, w1))
      else
        (case resend_each ops overdue packet_of restart (xs, w) of (r, ys, w2) \<Rightarrow> (r, x # ys, w2)))"

definition resend_await_publish :: "'e ops \<Rightarrow> instant \<Rightarrow> await_publish list \<times> 'e world
    \<Rightarrow> send_result outcome \<times> await_publish list \<times> 'e world" where
  "resend_await_publish ops now =
     resend_each ops (\<lambda>pending. RESEND_DURATION < now - publish_sent pending)
       (\<lambda>pending. borrow (ap_publish pending)) (\<lambda>pending. pending\<lparr>publish_sent := now\<rparr>)"

definition resend_publishes :: "'e ops \<Rightarrow> publishes_inner \<times> 'e world
    \<Rightarrow> send_result outcome \<times> publishes_inner \<times> 'e world" where
  "resend_publishes ops st =
     (case read_clock ops st of (now, s, w) \<Rightarrow>
        (case resend_await_publish ops now (await_pubacks s, w) of (r, q, w1) \<Rightarrow>
           and_then (r, s\<lparr>await_pubacks := q\<rparr>, w1) (\<lambda>r st1.
             if r = PartiallySent then (Ok PartiallySent, st1)
             else
               (case read_clock ops st1 of (now, s, w) \<Rightarrow>
                  (case resend_await_publish ops now (await_pubrecs s, w) of
                     (r, q, w1) \<Rightarrow> (r, s\<lparr>await_pubrecs := q\<rparr>, w1))))))"

definition resend_pubrel :: "'e ops \<Rightarrow> publishes_inner \<times> 'e world
    \<Rightarrow> send_result outcome \<times> publishes_inner \<times> 'e world" where
  "resend_pubrel ops st =
     (case read_clock ops st of (now, s, w) \<Rightarrow>
        (case resend_each ops (\<lambda>pending. RESEND_DURATION < now - pubrel_sent pending)
                (\<lambda>pending. Pubrel (ac_pid pending)) (\<lambda>pending. pending\<lparr>pubrel_sent := now\<rparr>)
                (await_pubcomps s, w) of
           (r, q, w1) \<Rightarrow> (r, s\<lparr>await_pubcomps := q\<rparr>, w1)))"

definition publishes_send_packets :: "'e ops \<Rightarrow> sizes \<Rightarrow> publishes_inner \<times> 'e world
    \<Rightarrow> send_result outcome \<times> publishes_inner \<times> 'e world" where
  "publishes_send_packets ops n st =
     and_then (send_pending_pubrel ops n 0 st) (\<lambda>r st.
     and_then (send_next r (send_pending_publishes ops n 0) st) (\<lambda>r st.
     and_then (send_next r (resend_publishes ops) st) (\<lambda>r st.
       send_next r (resend_pubrel ops) st)))"

section \<open>Adding a message\<close>

definition add_publish :: "sizes \<Rightarrow> publish \<Rightarrow> unique_id \<Rightarrow> publishes_inner \<Rightarrow> bool outcome \<times> publishes_inner" where
  \<comment> \<open>The closure given to \<open>try_with_lock\<close>: \<open>Ok False\<close> waits for the next unlock.\<close>
  "add_publish n p uid s =
     (if vec_is_full (QUEUE n) (send_publish s) then (Ok False, s)
      else
        and_then (new_from_publish n p uid, s) (\<lambda>owned s.
          (Ok True, case vec_push (QUEUE n) owned (send_publish s) of
                      Inr q \<Rightarrow> s\<lparr>send_publish := q\<rparr>
                    | Inl _ \<Rightarrow> s)))"

definition publishes_publish :: "sizes \<Rightarrow> publish \<Rightarrow> unique_id \<Rightarrow> publishes_inner \<Rightarrow> unit outcome \<times> publishes_inner" where
  \<comment> \<open>\<open>try_with_lock(...).await.unwrap()\<close>; a queue that stays full keeps the future waiting.\<close>
  "publishes_publish n p uid s =
     (case add_publish n p uid s of
        (Ok True, s') \<Rightarrow> (Ok (), s')
      | (Ok False, s') \<Rightarrow> (Pending, s')
      | (Err e, s') \<Rightarrow> (Panic, s')
      | (_, s') \<Rightarrow> (Panic, s'))"

end
