(* ===== verification/Publish_Accounting.thy ===== *)
theory Publish_Accounting
  imports Publish_Out
begin

text \<open>
  What sending does with the outgoing publishes of \<open>src/src/state/publish2.rs\<close>: which packets
  go on the connection and in which order, and that every request stays accounted for.  The
  lemmas hold for every connection that keeps the contract of \<open>try_write_packet\<close>.
\<close>

section \<open>Invariant and accounting\<close>

text \<open>\<open>pub_inv\<close>: the capacities, and what an entry that waits for an acknowledgement looks like.\<close>

definition waits_for :: "(pid \<Rightarrow> qospid) \<Rightarrow> await_publish \<Rightarrow> bool" where
  "waits_for q e \<longleftrightarrow> qospid (ap_publish e) = q (ap_pid e) \<and> dup (ap_publish e)"

definition pub_inv :: "sizes \<Rightarrow> publishes_inner \<Rightarrow> bool" where
  "pub_inv n s \<longleftrightarrow> length (send_publish s) \<le> QUEUE n \<and> length (await_pubacks s) \<le> QUEUE n
     \<and> length (await_pubrecs s) \<le> QUEUE n \<and> length (send_pubrels s) \<le> QUEUE n
     \<and> length (await_pubcomps s) \<le> QUEUE n
     \<and> list_all (waits_for QP_AtLeastOnce) (await_pubacks s)
     \<and> list_all (waits_for QP_ExactlyOnce) (await_pubrecs s)"

text \<open>The requests in progress, by unique id, and those whose completion was published.\<close>

definition open_ids :: "publishes_inner \<Rightarrow> unique_id multiset" where
  "open_ids s =
     mset (map op_unique_id (send_publish s))
     + mset (map (\<lambda>e. op_unique_id (ap_publish e)) (await_pubacks s))
     + mset (map (\<lambda>e. op_unique_id (ap_publish e)) (await_pubrecs s))
     + mset (List.map_filter sr_unique_id (send_pubrels s))
     + mset (map ac_unique_id (await_pubcomps s))"

text \<open>The packet identifiers that requests in progress hold.  A PUBREL that belongs to no request
  holds none.\<close>

definition open_pids :: "publishes_inner \<Rightarrow> pid multiset" where
  "open_pids s =
     mset (List.map_filter (\<lambda>p. qospid_pid (qospid p)) (send_publish s))
     + mset (map ap_pid (await_pubacks s)) + mset (map ap_pid (await_pubrecs s))
     + mset (List.map_filter (\<lambda>x. map_option (\<lambda>_. sr_pid x) (sr_unique_id x)) (send_pubrels s))
     + mset (map ac_pid (await_pubcomps s))"

fun publish_done :: "mqtt_event \<Rightarrow> unique_id option" where
  "publish_done (PublishDone u) = Some u"
| "publish_done _ = None"

definition done_ids :: "'e world \<Rightarrow> unique_id multiset" where
  "done_ids w = mset (List.map_filter publish_done (event_log w))"

lemma map_filter_Nil_Cons [simp]:
  "List.map_filter f [] = []"
  "List.map_filter f (x # xs) = (case f x of None \<Rightarrow> List.map_filter f xs | Some y \<Rightarrow> y # List.map_filter f xs)"
  by (simp_all add: List.map_filter_def split: option.splits)

lemma map_filter_append [simp]: "List.map_filter f (xs @ ys) = List.map_filter f xs @ List.map_filter f ys"
  by (simp add: List.map_filter_def)

lemma mset_map_filter_vec_remove:
  "i < length xs \<Longrightarrow> mset (List.map_filter f xs) =
    (case f (xs ! i) of None \<Rightarrow> {#} | Some y \<Rightarrow> {#y#}) + mset (List.map_filter f (vec_remove i xs))"
proof (induction xs arbitrary: i)
  case Nil
  then show ?case by simp
next
  case (Cons x xs)
  then show ?case by (cases i) (auto split: option.splits)
qed

lemma list_all_vec_remove [intro]: "list_all P xs \<Longrightarrow> list_all P (vec_remove i xs)"
  using set_vec_remove_subset [of i xs] by (auto simp: list_all_iff)

lemma done_ids_publish_event [simp]:
  "done_ids (publish_event (PublishDone u) w) = add_mset u (done_ids w)"
  by (simp add: done_ids_def)

lemma done_ids_cong: "event_log w' = event_log w \<Longrightarrow> done_ids w' = done_ids w"
  by (simp add: done_ids_def)

text \<open>What sending keeps: the invariant, and every request is in progress or done as before.\<close>

definition accounts :: "sizes \<Rightarrow> publishes_inner \<times> 'e world \<Rightarrow> publishes_inner \<times> 'e world \<Rightarrow> bool" where
  "accounts n st st' \<longleftrightarrow> pub_inv n (fst st') \<and> pid_static (snd st') = pid_static (snd st)
     \<and> received_log (snd st') = received_log (snd st)
     \<and> open_ids (fst st') + done_ids (snd st') = open_ids (fst st) + done_ids (snd st)
     \<and> open_pids (fst st') = open_pids (fst st)"

lemma accounts_refl [simp]: "pub_inv n (fst st) \<Longrightarrow> accounts n st st"
  by (simp add: accounts_def)

lemma accounts_trans: "accounts n st st1 \<Longrightarrow> accounts n st1 st2 \<Longrightarrow> accounts n st st2"
  by (simp add: accounts_def)

lemma accounts_quiet: "pub_inv n s \<Longrightarrow> quiet w w' \<Longrightarrow> accounts n (s, w) (s, w')"
  by (simp add: accounts_def quiet_def done_ids_def)

definition sink_panics :: "'e ops \<Rightarrow> bool" where
  "sink_panics ops \<longleftrightarrow> (\<exists>p e. fst (try_write_packet ops p e) = Panic)"

definition anonymous :: "publishes_inner \<Rightarrow> bool" where
  \<comment> \<open>a PUBREL waits to be sent that belongs to no request\<close>
  "anonymous s \<longleftrightarrow> list_ex (\<lambda>x. sr_unique_id x = None) (send_pubrels s)"

context packet_sink begin

lemma file_published_step:
  assumes inv: "pub_inv n s" and i: "i < length (send_publish s)" and space: "has_space n (send_publish s ! i) s"
  obtains s1 w1 where
    "file_published ops n ((send_publish s ! i)\<lparr>dup := True\<rparr>) (s\<lparr>send_publish := vec_remove i (send_publish s)\<rparr>, w)
      = (Ok (), s1, w1)"
    "emitted (s, w) [] (s1, w1)" "accounts n (s, w) (s1, w1)"
    "send_publish s1 = vec_remove i (send_publish s)" "send_pubrels s1 = send_pubrels s"
proof -
  let ?c = "send_publish s ! i" let ?s = "s\<lparr>send_publish := vec_remove i (send_publish s)\<rparr>"
  obtain t w1 where rc: "read_clock ops (?s, w) = (t, ?s, w1)" "quiet w w1" by (rule read_clock_cases)
  have em: "emitted (s, w) [] (s', w1)" for s'
    using read_clock_emitted [OF rc(1)] by (simp add: emitted_def)
  have ids: "mset (map op_unique_id (send_publish s))
      = add_mset (op_unique_id ?c) (mset (map op_unique_id (vec_remove i (send_publish s))))"
    using mset_map_vec_remove [OF i, of op_unique_id] by simp
  note pids = mset_map_filter_vec_remove [OF i, of "\<lambda>p. qospid_pid (qospid p)"]
  have len: "length (vec_remove i (send_publish s)) \<le> QUEUE n"
    using inv i by (auto simp: pub_inv_def)
  show ?thesis
  proof (cases "qospid ?c")
    case QP_AtMostOnce
    let ?w = "publish_event (PublishDone (op_unique_id ?c)) w"
    have "file_published ops n (?c\<lparr>dup := True\<rparr>) (?s, w) = (Ok (), ?s, ?w)"
      using QP_AtMostOnce by (simp add: file_published_def)
    moreover have "accounts n (s, w) (?s, ?w)"
      using inv ids pids len QP_AtMostOnce by (simp add: accounts_def pub_inv_def open_ids_def open_pids_def)
    ultimately show ?thesis by (intro that [of ?s ?w]) (simp_all add: emitted_def emits_Nil)
  next
    case (QP_AtLeastOnce pid)
    let ?e = "\<lparr>ap_pid = pid, ap_publish = ?c\<lparr>dup := True\<rparr>, publish_sent = t\<rparr>"
    let ?s1 = "?s\<lparr>await_pubacks := await_pubacks s @ [?e]\<rparr>"
    have room: "length (await_pubacks s) < QUEUE n"
      using inv space QP_AtLeastOnce by (simp add: pub_inv_def has_space_def vec_is_full_def)
    then have "file_published ops n (?c\<lparr>dup := True\<rparr>) (?s, w) = (Ok (), ?s1, w1)"
      using QP_AtLeastOnce rc by (simp add: file_published_def await_puback_from_def vec_push_unchecked_def)
    moreover have "accounts n (s, w) (?s1, w1)"
      using inv ids pids len room rc(2) QP_AtLeastOnce
      by (simp add: accounts_def pub_inv_def open_ids_def open_pids_def quiet_def done_ids_def waits_for_def)
    ultimately show ?thesis by (intro that [of ?s1 w1] em) simp_all
  next
    case (QP_ExactlyOnce pid)
    let ?e = "\<lparr>ap_pid = pid, ap_publish = ?c\<lparr>dup := True\<rparr>, publish_sent = t\<rparr>"
    let ?s1 = "?s\<lparr>await_pubrecs := await_pubrecs s @ [?e]\<rparr>"
    have room: "length (await_pubrecs s) < QUEUE n"
      using inv space QP_ExactlyOnce by (simp add: pub_inv_def has_space_def vec_is_full_def)
    then have "file_published ops n (?c\<lparr>dup := True\<rparr>) (?s, w) = (Ok (), ?s1, w1)"
      using QP_ExactlyOnce rc by (simp add: file_published_def await_pubrec_from_def vec_push_unchecked_def)
    moreover have "accounts n (s, w) (?s1, w1)"
      using inv ids pids len room rc(2) QP_ExactlyOnce
      by (simp add: accounts_def pub_inv_def open_ids_def open_pids_def quiet_def done_ids_def waits_for_def)
    ultimately show ?thesis by (intro that [of ?s1 w1] em) simp_all
  qed
qed


lemma try_write_panics: "try_write ops p st = (Panic, st') \<Longrightarrow> sink_panics ops"
  by (auto simp: try_write_def sink_panics_def split: prod.splits) (metis fst_conv)

lemma send_pending_publishes_general:
  assumes "send_pending_publishes ops n i (s, w) = (r, s', w')" and "pub_inv n s"
  shows "\<exists>ps. emitted (s, w) (map borrow ps) (s', w') \<and> subseq ps (drop i (send_publish s))
    \<and> mset (send_publish s) = mset ps + mset (send_publish s') \<and> accounts n (s, w) (s', w')
    \<and> send_pubrels s' = send_pubrels s \<and> r \<noteq> Undefined_Behaviour \<and> (r = Panic \<longrightarrow> sink_panics ops)"
  using assms
proof (induction "length (send_publish s) - i" arbitrary: i s w r rule: less_induct)
  case less
  note inv = less.prems(2)
  show ?case
  proof (cases "i < length (send_publish s)")
    case False
    with less.prems show ?thesis
      by (intro exI [of _ "[]"]) (auto simp: send_pending_publishes.simps [of ops n i])
  next
    case i: True
    let ?c = "send_publish s ! i"
    show ?thesis
    proof (cases "has_space n ?c s")
      case False
      with less.prems i have rec: "send_pending_publishes ops n (i + 1) (s, w) = (r, s', w')"
        by (simp add: send_pending_publishes.simps [of ops n i])
      have "length (send_publish s) - (i + 1) < length (send_publish s) - i" using i by simp
      from less.hyps [OF this rec inv] obtain ps where ps: "emitted (s, w) (map borrow ps) (s', w')"
        "subseq ps (drop (i + 1) (send_publish s))" "mset (send_publish s) = mset ps + mset (send_publish s')"
        "accounts n (s, w) (s', w')" "send_pubrels s' = send_pubrels s" "r \<noteq> Undefined_Behaviour"
        "r = Panic \<longrightarrow> sink_panics ops" by blast
      have "subseq ps (drop i (send_publish s))"
        using ps(2) subseq_dropD [of ps 1 "drop i (send_publish s)"] by simp
      with ps show ?thesis by blast
    next
      case space: True
      obtain o1 w1 where w: "try_write ops (borrow ?c) (s, w) = (o1, s, w1)" by (rule try_write_cases)
      note fr = try_write_frame [OF w] and em = try_write_emitted [OF w]
      show ?thesis
      proof (cases "o1 = Ok True")
        case False
        with less.prems(1) i space w have "s' = s" "w' = w1" "r = Ok PartiallySent \<or> (o1 = Panic \<and> r = Panic)
            \<or> (o1 = Undefined_Behaviour \<and> r = Undefined_Behaviour) \<or> (r \<noteq> Panic \<and> r \<noteq> Undefined_Behaviour)"
          by (cases o1; auto simp: send_pending_publishes.simps [of ops n i])+
        with fr em False try_write_defined [OF w] w inv show ?thesis
          by (intro exI [of _ "[]"]) (auto intro: accounts_quiet try_write_panics)
      next
        case o1: True
        from inv i space obtain s1 w2 where f:
          "file_published ops n (?c\<lparr>dup := True\<rparr>) (s\<lparr>send_publish := vec_remove i (send_publish s)\<rparr>, w1)
            = (Ok (), s1, w2)"
          "emitted (s, w1) [] (s1, w2)" "accounts n (s, w1) (s1, w2)"
          "send_publish s1 = vec_remove i (send_publish s)" "send_pubrels s1 = send_pubrels s"
          by (rule file_published_step)
        from less.prems(1) i space w o1 f(1) have rec: "send_pending_publishes ops n i (s1, w2) = (r, s', w')"
          by (simp add: send_pending_publishes.simps [of ops n i])
        have lt: "length (send_publish s1) - i < length (send_publish s) - i" using i f(4) by auto
        have inv1: "pub_inv n s1" using f(3) by (simp add: accounts_def)
        from less.hyps [OF lt rec inv1] f(4,5) obtain ps where ps: "emitted (s1, w2) (map borrow ps) (s', w')"
          "subseq ps (drop i (vec_remove i (send_publish s)))"
          "mset (vec_remove i (send_publish s)) = mset ps + mset (send_publish s')"
          "accounts n (s1, w2) (s', w')" "send_pubrels s' = send_pubrels s" "r \<noteq> Undefined_Behaviour"
          "r = Panic \<longrightarrow> sink_panics ops" by auto
        have "emitted (s, w) (map borrow (?c # ps)) (s', w')"
          using em o1 emitted_silent [OF f(2) ps(1)] emitted_Cons [of "(s, w)" "borrow ?c" "(s, w1)"] by simp
        moreover have "drop i (send_publish s) = ?c # drop i (vec_remove i (send_publish s))"
          using i by (simp add: vec_remove_def Cons_nth_drop_Suc)
        then have "subseq (?c # ps) (drop i (send_publish s))" using ps(2) by simp
        moreover have "mset (send_publish s) = mset (?c # ps) + mset (send_publish s')"
          using ps(3) mset_vec_remove [OF i] by simp
        moreover have "accounts n (s, w) (s1, w2)"
          using accounts_trans [OF accounts_quiet [OF inv] f(3)] fr by simp
        then have "accounts n (s, w) (s', w')" using ps(4) by (rule accounts_trans)
        ultimately show ?thesis using ps(5-7) by (intro exI [of _ "?c # ps"]) simp
      qed
    qed
  qed
qed

lemma file_pubrel_step:
  assumes inv: "pub_inv n s" and i: "i < length (send_pubrels s)"
    and space: "\<not> vec_is_full (QUEUE n) (await_pubcomps s)"
  obtains s1 w1 where
    "file_pubrel ops n (send_pubrels s ! i) (s\<lparr>send_pubrels := vec_remove i (send_pubrels s)\<rparr>, w)
      = (if sr_unique_id (send_pubrels s ! i) = None then Panic else Ok (), s1, w1)"
    "emitted (s, w) [] (s1, w1)" "accounts n (s, w) (s1, w1)"
    "send_pubrels s1 = vec_remove i (send_pubrels s)" "send_publish s1 = send_publish s"
proof -
  let ?c = "send_pubrels s ! i" let ?s = "s\<lparr>send_pubrels := vec_remove i (send_pubrels s)\<rparr>"
  obtain t w1 where rc: "read_clock ops (?s, w) = (t, ?s, w1)" "quiet w w1" by (rule read_clock_cases)
  have em: "emitted (s, w) [] (s', w1)" for s'
    using read_clock_emitted [OF rc(1)] by (simp add: emitted_def)
  note ids = mset_map_filter_vec_remove [OF i, of sr_unique_id]
    mset_map_filter_vec_remove [OF i, of "\<lambda>x. map_option (\<lambda>_. sr_pid x) (sr_unique_id x)"]
  have room: "length (await_pubcomps s) < QUEUE n" "length (vec_remove i (send_pubrels s)) \<le> QUEUE n"
    using inv space i by (auto simp: pub_inv_def vec_is_full_def)
  show ?thesis
  proof (cases "sr_unique_id ?c")
    case None
    have "accounts n (s, w) (?s, w1)"
      using inv ids room(2) rc(2) None
      by (simp add: accounts_def pub_inv_def open_ids_def open_pids_def quiet_def done_ids_def)
    then show ?thesis using None rc
      by (intro that [of ?s w1] em) (simp_all add: file_pubrel_def await_pubcomp_from_def)
  next
    case (Some u)
    let ?e = "\<lparr>ac_pid = sr_pid ?c, pubrel_sent = t, ac_unique_id = u\<rparr>"
    let ?s1 = "?s\<lparr>await_pubcomps := await_pubcomps s @ [?e]\<rparr>"
    have "file_pubrel ops n ?c (?s, w) = (Ok (), ?s1, w1)"
      using rc Some room by (simp add: file_pubrel_def await_pubcomp_from_def vec_push_unchecked_def)
    moreover have "accounts n (s, w) (?s1, w1)"
      using inv ids room rc(2) Some
      by (simp add: accounts_def pub_inv_def open_ids_def open_pids_def quiet_def done_ids_def)
    ultimately show ?thesis using Some by (intro that [of ?s1 w1] em) simp_all
  qed
qed

lemma anonymous_vec_remove:
  "anonymous s1 \<Longrightarrow> send_pubrels s1 = vec_remove i (send_pubrels s) \<Longrightarrow> anonymous s"
  using set_vec_remove_subset [of i "send_pubrels s"] by (auto simp: anonymous_def list_ex_iff)

lemma send_pending_pubrel_general:
  assumes "send_pending_pubrel ops n i (s, w) = (r, s', w')" and "pub_inv n s"
  shows "\<exists>rs. emitted (s, w) (map (\<lambda>x. Pubrel (sr_pid x)) rs) (s', w')
    \<and> subseq rs (drop i (send_pubrels s))
    \<and> mset (send_pubrels s) = mset rs + mset (send_pubrels s') \<and> accounts n (s, w) (s', w')
    \<and> send_publish s' = send_publish s \<and> r \<noteq> Undefined_Behaviour
    \<and> (r = Panic \<longrightarrow> sink_panics ops \<or> anonymous s)"
  using assms
proof (induction "length (send_pubrels s) - i" arbitrary: i s w r rule: less_induct)
  case less
  note inv = less.prems(2)
  show ?case
  proof (cases "i < length (send_pubrels s)")
    case False
    with less.prems show ?thesis
      by (intro exI [of _ "[]"]) (auto simp: send_pending_pubrel.simps [of ops n i])
  next
    case i: True
    let ?c = "send_pubrels s ! i"
    show ?thesis
    proof (cases "vec_is_full (QUEUE n) (await_pubcomps s)")
      case True
      with less.prems i have rec: "send_pending_pubrel ops n (i + 1) (s, w) = (r, s', w')"
        by (simp add: send_pending_pubrel.simps [of ops n i])
      have "length (send_pubrels s) - (i + 1) < length (send_pubrels s) - i" using i by simp
      from less.hyps [OF this rec inv] obtain rs where rs:
        "emitted (s, w) (map (\<lambda>x. Pubrel (sr_pid x)) rs) (s', w')" "subseq rs (drop (i + 1) (send_pubrels s))"
        "mset (send_pubrels s) = mset rs + mset (send_pubrels s')"
        "accounts n (s, w) (s', w')" "send_publish s' = send_publish s" "r \<noteq> Undefined_Behaviour"
        "r = Panic \<longrightarrow> sink_panics ops \<or> anonymous s" by blast
      have "subseq rs (drop i (send_pubrels s))"
        using rs(2) subseq_dropD [of rs 1 "drop i (send_pubrels s)"] by simp
      with rs show ?thesis by blast
    next
      case space: False
      obtain o1 w1 where w: "try_write ops (Pubrel (sr_pid ?c)) (s, w) = (o1, s, w1)" by (rule try_write_cases)
      note fr = try_write_frame [OF w] and em = try_write_emitted [OF w]
      show ?thesis
      proof (cases "o1 = Ok True")
        case False
        with less.prems(1) i space w have "s' = s" "w' = w1" "r = Ok PartiallySent \<or> (o1 = Panic \<and> r = Panic)
            \<or> (o1 = Undefined_Behaviour \<and> r = Undefined_Behaviour) \<or> (r \<noteq> Panic \<and> r \<noteq> Undefined_Behaviour)"
          by (cases o1; auto simp: send_pending_pubrel.simps [of ops n i])+
        with fr em False try_write_defined [OF w] w inv show ?thesis
          by (intro exI [of _ "[]"]) (auto intro: accounts_quiet try_write_panics)
      next
        case o1: True
        from inv i space obtain s1 w2 where f:
          "file_pubrel ops n ?c (s\<lparr>send_pubrels := vec_remove i (send_pubrels s)\<rparr>, w1)
            = (if sr_unique_id ?c = None then Panic else Ok (), s1, w2)"
          "emitted (s, w1) [] (s1, w2)" "accounts n (s, w1) (s1, w2)"
          "send_pubrels s1 = vec_remove i (send_pubrels s)" "send_publish s1 = send_publish s"
          by (rule file_pubrel_step)
        have drop_i: "drop i (send_pubrels s) = ?c # drop i (vec_remove i (send_pubrels s))"
          using i by (simp add: vec_remove_def Cons_nth_drop_Suc)
        have e1: "emitted (s, w) [Pubrel (sr_pid ?c)] (s1, w2)"
          using em o1 emitted_append [of "(s, w)" _ "(s, w1)" "[]", OF _ f(2)] by simp
        have a1: "accounts n (s, w) (s1, w2)"
          using accounts_trans [OF accounts_quiet [OF inv] f(3)] fr by simp
        show ?thesis
        proof (cases "sr_unique_id ?c = None")
          case True
          with less.prems(1) i space w o1 f(1) have "s' = s1" "w' = w2" "r = Panic"
            by (simp_all add: send_pending_pubrel.simps [of ops n i])
          moreover have "anonymous s" using True i by (auto simp: anonymous_def list_ex_iff)
          ultimately show ?thesis
            using e1 a1 f(4,5) drop_i mset_vec_remove [OF i] by (intro exI [of _ "[?c]"]) simp
        next
          case False
          with less.prems(1) i space w o1 f(1) have rec: "send_pending_pubrel ops n i (s1, w2) = (r, s', w')"
            by (simp add: send_pending_pubrel.simps [of ops n i])
          have lt: "length (send_pubrels s1) - i < length (send_pubrels s) - i" using i f(4) by auto
          have inv1: "pub_inv n s1" using f(3) by (simp add: accounts_def)
          from less.hyps [OF lt rec inv1] f(4,5) obtain rs where rs:
            "emitted (s1, w2) (map (\<lambda>x. Pubrel (sr_pid x)) rs) (s', w')"
            "subseq rs (drop i (vec_remove i (send_pubrels s)))"
            "mset (vec_remove i (send_pubrels s)) = mset rs + mset (send_pubrels s')"
            "accounts n (s1, w2) (s', w')" "send_publish s' = send_publish s" "r \<noteq> Undefined_Behaviour"
            "r = Panic \<longrightarrow> sink_panics ops \<or> anonymous s1" by auto
          have "emitted (s, w) (map (\<lambda>x. Pubrel (sr_pid x)) (?c # rs)) (s', w')"
            using emitted_Cons [OF e1 rs(1)] by simp
          moreover have "subseq (?c # rs) (drop i (send_pubrels s))" using rs(2) drop_i by simp
          moreover have "mset (send_pubrels s) = mset (?c # rs) + mset (send_pubrels s')"
            using rs(3) mset_vec_remove [OF i] by simp
          moreover have "accounts n (s, w) (s', w')" using a1 rs(4) by (rule accounts_trans)
          moreover have "r = Panic \<longrightarrow> sink_panics ops \<or> anonymous s"
            using rs(7) anonymous_vec_remove [OF _ f(4)] by blast
          ultimately show ?thesis using rs(5,6) by (intro exI [of _ "?c # rs"]) simp
        qed
      qed
    qed
  qed
qed

lemma resend_each_general:
  assumes "resend_each ops overdue packet_of restart (xs, w) = (r, ys, w')"
  shows "\<exists>zs. emitted (xs, w) (map packet_of zs) (ys, w') \<and> subseq zs (filter overdue xs)
    \<and> quiet w w' \<and> list_all2 (\<lambda>x y. y = x \<or> overdue x \<and> y = restart x) xs ys
    \<and> (r = Ok SentAll \<longrightarrow> zs = filter overdue xs \<and> ys = map (\<lambda>x. if overdue x then restart x else x) xs)
    \<and> r \<noteq> Undefined_Behaviour \<and> (r = Panic \<longrightarrow> sink_panics ops)"
  using assms
proof (induction xs arbitrary: w r ys)
  case Nil
  then show ?case by (intro exI [of _ "[]"]) auto
next
  case (Cons x xs)
  have refl: "list_all2 (\<lambda>x y. y = x \<or> overdue x \<and> y = restart x) zs zs" for zs
    by (rule list_all2_refl) simp
  show ?case
  proof (cases "overdue x")
    case False
    with Cons.prems obtain zs1 where rec: "resend_each ops overdue packet_of restart (xs, w) = (r, zs1, w')"
      and ys: "ys = x # zs1" by (auto split: prod.splits)
    from Cons.IH [OF rec] False ys show ?thesis
      by (elim exE, intro exI) (auto simp: emitted_def)
  next
    case True
    obtain o1 w1 where w: "try_write ops (packet_of x) (x # xs, w) = (o1, x # xs, w1)" by (rule try_write_cases)
    note fr = try_write_frame [OF w] and em = try_write_emitted [OF w]
    show ?thesis
    proof (cases "o1 = Ok True")
      case False
      with Cons.prems True w have "ys = x # xs" "w' = w1" "r \<noteq> Ok SentAll"
        "r = Ok PartiallySent \<or> (o1 = Panic \<and> r = Panic)
          \<or> (o1 = Undefined_Behaviour \<and> r = Undefined_Behaviour) \<or> (r \<noteq> Panic \<and> r \<noteq> Undefined_Behaviour)"
        by (cases o1; auto)+
      with fr em False try_write_defined [OF w] w refl show ?thesis
        by (intro exI [of _ "[]"]) (auto intro: try_write_panics)
    next
      case o1: True
      with Cons.prems True w obtain zs1 where rec: "resend_each ops overdue packet_of restart (xs, w1) = (r, zs1, w')"
        and ys: "ys = restart x # zs1" by (auto split: prod.splits)
      from Cons.IH [OF rec] obtain zs where zs: "emitted (xs, w1) (map packet_of zs) (zs1, w')"
        "subseq zs (filter overdue xs)" "quiet w1 w'"
        "list_all2 (\<lambda>x y. y = x \<or> overdue x \<and> y = restart x) xs zs1"
        "r = Ok SentAll \<longrightarrow> zs = filter overdue xs \<and> zs1 = map (\<lambda>x. if overdue x then restart x else x) xs"
        "r \<noteq> Undefined_Behaviour" "r = Panic \<longrightarrow> sink_panics ops" by blast
      have "emitted (x # xs, w) (map packet_of (x # zs)) (ys, w')"
        using em o1 zs(1) emitted_Cons [of "(x # xs, w)" "packet_of x" "(x # xs, w1)" "map packet_of zs" "(ys, w')"]
        by (simp add: emitted_def)
      with zs ys True fr show ?thesis
        by (intro exI [of _ "x # zs"]) (auto intro: quiet_trans)
    qed
  qed
qed


lemma restarted:
  assumes "list_all2 (\<lambda>x y. y = x \<or> late x \<and> y = x\<lparr>publish_sent := now\<rparr>) xs ys"
  shows "map (\<lambda>e. op_unique_id (ap_publish e)) ys = map (\<lambda>e. op_unique_id (ap_publish e)) xs
    \<and> map ap_pid ys = map ap_pid xs \<and> length ys = length xs \<and> (list_all (waits_for q) xs \<longrightarrow> list_all (waits_for q) ys)"
  using assms by (induction rule: list_all2_induct) (auto simp: waits_for_def)

lemma restarted_pubcomp:
  assumes "list_all2 (\<lambda>x y. y = x \<or> late x \<and> y = x\<lparr>pubrel_sent := now\<rparr>) xs ys"
  shows "map ac_unique_id ys = map ac_unique_id xs \<and> map ac_pid ys = map ac_pid xs \<and> length ys = length xs"
  using assms by (induction rule: list_all2_induct) auto

text \<open>The result of a phase: what it put on the connection, and what it left.\<close>

definition phase :: "sizes \<Rightarrow> bool \<Rightarrow> (publishes_inner \<times> 'e world \<Rightarrow> packet list \<Rightarrow> publishes_inner \<times> 'e world \<Rightarrow> bool)
    \<Rightarrow> publishes_inner \<times> 'e world \<Rightarrow> 'a outcome \<times> publishes_inner \<times> 'e world \<Rightarrow> bool" where
  "phase n B P st x \<longleftrightarrow> (\<exists>l. P st l (snd x) \<and> emitted st l (snd x) \<and> accounts n st (snd x)
     \<and> fst x \<noteq> Undefined_Behaviour \<and> (fst x = Panic \<longrightarrow> B))"

definition followed_by :: "('s \<Rightarrow> packet list \<Rightarrow> 's \<Rightarrow> bool) \<Rightarrow> ('s \<Rightarrow> packet list \<Rightarrow> 's \<Rightarrow> bool)
    \<Rightarrow> 's \<Rightarrow> packet list \<Rightarrow> 's \<Rightarrow> bool" where
  "followed_by P Q st l st2 \<longleftrightarrow> (\<exists>st1 l1 l2. l = l1 @ l2 \<and> P st l1 st1 \<and> Q st1 l2 st2)"

lemma phase_next:
  assumes x: "phase n B P st x" and f: "\<And>st1. x = (Ok SentAll, st1) \<Longrightarrow> phase n B Q st1 (f st1)"
    and skip: "\<And>st1. Q st1 [] st1"
  shows "phase n B (followed_by P Q) st (and_then x (\<lambda>r st. send_next r f st))"
proof -
  from x obtain l1 where l1: "P st l1 (snd x)" "emitted st l1 (snd x)" "accounts n st (snd x)"
    "fst x \<noteq> Undefined_Behaviour" "fst x = Panic \<longrightarrow> B" by (auto simp: phase_def)
  show ?thesis
  proof (cases "fst x = Ok SentAll")
    case True
    then obtain st1 where st1: "x = (Ok SentAll, st1)" by (cases x) auto
    from f [OF st1] obtain l2 where l2: "Q st1 l2 (snd (f st1))" "emitted st1 l2 (snd (f st1))"
      "accounts n st1 (snd (f st1))" "fst (f st1) \<noteq> Undefined_Behaviour"
      "fst (f st1) = Panic \<longrightarrow> B" by (auto simp: phase_def)
    have "followed_by P Q st (l1 @ l2) (snd (f st1))"
      using l1(1) l2(1) unfolding st1 snd_conv followed_by_def by blast
    moreover have "emitted st (l1 @ l2) (snd (f st1))" "accounts n st (snd (f st1))"
      using l1(2,3) l2(2,3) emitted_append accounts_trans unfolding st1 snd_conv by blast+
    ultimately show ?thesis
      using l2(4,5) st1 unfolding phase_def by (intro exI [of _ "l1 @ l2"]) simp
  next
    case False
    then have "and_then x (\<lambda>r st. send_next r f st) = x"
    proof (cases "fst x")
      case (Ok r)
      with False show ?thesis by (cases x; cases r) auto
    qed (cases x; simp)+
    moreover have "followed_by P Q st l1 (snd x)"
      using l1(1) skip [of "snd x"] unfolding followed_by_def by (intro exI [of _ "snd x"] exI [of _ l1] exI [of _ "[]"]) simp
    ultimately show ?thesis using l1(2-5) unfolding phase_def by (intro exI [of _ l1]) simp
  qed
qed

lemma phaseI:
  "x = (r, st') \<Longrightarrow> P st l st' \<Longrightarrow> emitted st l st' \<Longrightarrow> accounts n st st' \<Longrightarrow>
    r \<noteq> Undefined_Behaviour \<Longrightarrow> (r = Panic \<longrightarrow> B) \<Longrightarrow> phase n B P st x"
  unfolding phase_def by (intro exI [of _ l]) simp

definition resends :: "publishes_inner \<times> 'e world \<Rightarrow> packet list \<Rightarrow> publishes_inner \<times> 'e world \<Rightarrow> bool" where
  "resends st l st' \<longleftrightarrow> send_publish (fst st') = send_publish (fst st)
     \<and> (\<exists>zs. l = map borrow zs \<and> list_all dup zs)"

lemma resend_await_publish_step:
  assumes "resend_await_publish ops now (q, w) = (r, q', w')" and "list_all (waits_for mk) q"
  shows "\<exists>zs. emitted (q, w) (map borrow zs) (q', w') \<and> list_all dup zs \<and> quiet w w'
    \<and> map (\<lambda>e. op_unique_id (ap_publish e)) q' = map (\<lambda>e. op_unique_id (ap_publish e)) q
    \<and> map ap_pid q' = map ap_pid q \<and> length q' = length q \<and> list_all (waits_for mk) q'
    \<and> r \<noteq> Undefined_Behaviour \<and> (r = Panic \<longrightarrow> sink_panics ops)"
proof -
  from resend_each_general [OF assms(1) [unfolded resend_await_publish_def]] obtain zs where zs:
    "emitted (q, w) (map (\<lambda>p. borrow (ap_publish p)) zs) (q', w')"
    "subseq zs (filter (\<lambda>p. RESEND_DURATION < now - publish_sent p) q)" "quiet w w'"
    "list_all2 (\<lambda>x y. y = x \<or> RESEND_DURATION < now - publish_sent x \<and> y = x\<lparr>publish_sent := now\<rparr>) q q'"
    "r \<noteq> Undefined_Behaviour" "r = Panic \<longrightarrow> sink_panics ops" by blast
  have "set zs \<subseteq> set q" using set_subseq [OF zs(2)] by auto
  with assms(2) have "list_all dup (map ap_publish zs)"
    by (auto simp: list_all_iff waits_for_def)
  with zs restarted [OF zs(4), of mk] assms(2) show ?thesis
    by (intro exI [of _ "map ap_publish zs"]) (simp add: comp_def)
qed

lemma resend_publishes_phase:
  assumes inv: "pub_inv n s" and B: "sink_panics ops \<longrightarrow> B"
  shows "phase n B resends (s, w) (resend_publishes ops (s, w))"
proof -
  obtain now w0 where rc: "read_clock ops (s, w) = (now, s, w0)" "quiet w w0" by (rule read_clock_cases)
  obtain r q w1 where a: "resend_await_publish ops now (await_pubacks s, w0) = (r, q, w1)" by (rule prod_cases3)
  from inv have "list_all (waits_for QP_AtLeastOnce) (await_pubacks s)" by (simp add: pub_inv_def)
  from resend_await_publish_step [OF a this] obtain zs where zs:
    "emitted (await_pubacks s, w0) (map borrow zs) (q, w1)" "list_all dup zs" "quiet w0 w1"
    "map (\<lambda>e. op_unique_id (ap_publish e)) q = map (\<lambda>e. op_unique_id (ap_publish e)) (await_pubacks s)"
    "length q = length (await_pubacks s) \<and> map ap_pid q = map ap_pid (await_pubacks s)" "list_all (waits_for QP_AtLeastOnce) q"
    "r \<noteq> Undefined_Behaviour" "r = Panic \<longrightarrow> sink_panics ops" by blast
  let ?s1 = "s\<lparr>await_pubacks := q\<rparr>"
  have e1: "emitted (s, w) (map borrow zs) (?s1, w1)"
    using zs(1) read_clock_emitted [OF rc(1)] emitted_silent [of "(s, w)" "(s, w0)" "map borrow zs" "(?s1, w1)"]
    by (simp add: emitted_def)
  have a1: "accounts n (s, w) (?s1, w1)"
    using inv zs(3-6) rc(2) by (simp add: accounts_def pub_inv_def open_ids_def open_pids_def quiet_def done_ids_def)
  show ?thesis
  proof (cases "r = Ok SentAll")
    case False
    have "resend_publishes ops (s, w) = (r, ?s1, w1)"
    proof (cases r)
      case (Ok x)
      with False rc a show ?thesis by (cases x) (auto simp: resend_publishes_def)
    qed (use rc a in \<open>auto simp: resend_publishes_def\<close>)
    then show ?thesis using zs(2,7,8) e1 a1 B
      by (intro phaseI [where l = "map borrow zs"]) (auto simp: resends_def)
  next
    case True
    obtain now2 w2 where rc2: "read_clock ops (?s1, w1) = (now2, ?s1, w2)" "quiet w1 w2" by (rule read_clock_cases)
    obtain r2 q2 w3 where b: "resend_await_publish ops now2 (await_pubrecs s, w2) = (r2, q2, w3)" by (rule prod_cases3)
    from inv have "list_all (waits_for QP_ExactlyOnce) (await_pubrecs s)" by (simp add: pub_inv_def)
    from resend_await_publish_step [OF b this] obtain ys where ys:
      "emitted (await_pubrecs s, w2) (map borrow ys) (q2, w3)" "list_all dup ys" "quiet w2 w3"
      "map (\<lambda>e. op_unique_id (ap_publish e)) q2 = map (\<lambda>e. op_unique_id (ap_publish e)) (await_pubrecs s)"
      "length q2 = length (await_pubrecs s) \<and> map ap_pid q2 = map ap_pid (await_pubrecs s)" "list_all (waits_for QP_ExactlyOnce) q2"
      "r2 \<noteq> Undefined_Behaviour" "r2 = Panic \<longrightarrow> sink_panics ops" by blast
    let ?s2 = "?s1\<lparr>await_pubrecs := q2\<rparr>"
    have "emitted (?s1, w1) (map borrow ys) (?s2, w3)"
      using ys(1) read_clock_emitted [OF rc2(1)]
        emitted_silent [of "(?s1, w1)" "(?s1, w2)" "map borrow ys" "(?s2, w3)"] by (simp add: emitted_def)
    with e1 have "emitted (s, w) (map borrow zs @ map borrow ys) (?s2, w3)" by (rule emitted_append)
    moreover have "accounts n (?s1, w1) (?s2, w3)"
      using a1 ys(3-6) rc2(2) by (simp add: accounts_def pub_inv_def open_ids_def open_pids_def quiet_def done_ids_def)
    with a1 have "accounts n (s, w) (?s2, w3)" by (rule accounts_trans)
    moreover have "resend_publishes ops (s, w) = (r2, ?s2, w3)"
      using rc a True rc2 b by (simp add: resend_publishes_def)
    moreover have "resends (s, w) (map borrow (zs @ ys)) (?s2, w3)"
      unfolding resends_def using zs(2) ys(2) by (intro conjI exI [of _ "zs @ ys"]) simp_all
    ultimately show ?thesis using ys(7,8) B
      by (intro phaseI [where l = "map borrow (zs @ ys)"]) auto
  qed
qed

definition repeats_pubrel :: "publishes_inner \<times> 'e world \<Rightarrow> packet list \<Rightarrow> publishes_inner \<times> 'e world \<Rightarrow> bool" where
  "repeats_pubrel st l st' \<longleftrightarrow> send_publish (fst st') = send_publish (fst st)
     \<and> (\<exists>cs. l = map Pubrel cs)"

lemma resend_pubrel_phase:
  assumes inv: "pub_inv n s" and B: "sink_panics ops \<longrightarrow> B"
  shows "phase n B repeats_pubrel (s, w) (resend_pubrel ops (s, w))"
proof -
  obtain now w0 where rc: "read_clock ops (s, w) = (now, s, w0)" "quiet w w0" by (rule read_clock_cases)
  let ?late = "\<lambda>p. RESEND_DURATION < now - pubrel_sent p"
  obtain r q w1 where a: "resend_each ops ?late (\<lambda>p. Pubrel (ac_pid p)) (\<lambda>p. p\<lparr>pubrel_sent := now\<rparr>)
      (await_pubcomps s, w0) = (r, q, w1)" by (rule prod_cases3)
  from resend_each_general [OF a] obtain zs where zs:
    "emitted (await_pubcomps s, w0) (map (\<lambda>p. Pubrel (ac_pid p)) zs) (q, w1)"
    "subseq zs (filter ?late (await_pubcomps s))" "quiet w0 w1"
    "list_all2 (\<lambda>x y. y = x \<or> ?late x \<and> y = x\<lparr>pubrel_sent := now\<rparr>) (await_pubcomps s) q"
    "r \<noteq> Undefined_Behaviour" "r = Panic \<longrightarrow> sink_panics ops" by blast
  let ?s1 = "s\<lparr>await_pubcomps := q\<rparr>"
  have "emitted (s, w) (map Pubrel (map ac_pid zs)) (?s1, w1)"
    using zs(1) read_clock_emitted [OF rc(1)]
      emitted_silent [of "(s, w)" "(s, w0)" "map (\<lambda>p. Pubrel (ac_pid p)) zs" "(?s1, w1)"]
    by (simp add: emitted_def comp_def)
  moreover have "accounts n (s, w) (?s1, w1)"
    using inv zs(3) restarted_pubcomp [OF zs(4)] rc(2)
    by (simp add: accounts_def pub_inv_def open_ids_def open_pids_def quiet_def done_ids_def)
  moreover have "resend_pubrel ops (s, w) = (r, ?s1, w1)" using rc a by (simp add: resend_pubrel_def)
  moreover have "repeats_pubrel (s, w) (map Pubrel (map ac_pid zs)) (?s1, w1)"
    unfolding repeats_pubrel_def by (intro conjI exI [of _ "map ac_pid zs"]) simp_all
  ultimately show ?thesis using zs(5,6) B
    by (intro phaseI [where l = "map Pubrel (map ac_pid zs)"]) auto
qed


lemma publishes_send_chain:
  "publishes_send_packets ops n st =
    and_then (and_then (and_then (send_pending_pubrel ops n 0 st)
      (\<lambda>r st. send_next r (send_pending_publishes ops n 0) st))
      (\<lambda>r st. send_next r (resend_publishes ops) st))
      (\<lambda>r st. send_next r (resend_pubrel ops) st)"
  by (simp add: publishes_send_packets_def and_then_assoc)

text \<open>Everything sending may put on the connection: PUBRELs in queue order, then publishes in
  queue order, then publishes and PUBRELs again.\<close>

definition publish_traffic :: "publishes_inner \<Rightarrow> packet list \<Rightarrow> publishes_inner \<Rightarrow> bool" where
  "publish_traffic s l s' \<longleftrightarrow> (\<exists>rs ps zs cs.
     l = map (\<lambda>x. Pubrel (sr_pid x)) rs @ map borrow ps @ map borrow zs @ map Pubrel cs
     \<and> subseq rs (send_pubrels s) \<and> subseq ps (send_publish s) \<and> list_all dup zs
     \<and> mset (send_publish s) = mset ps + mset (send_publish s'))"

definition sends_pubrels :: "publishes_inner \<times> 'e world \<Rightarrow> packet list \<Rightarrow> publishes_inner \<times> 'e world \<Rightarrow> bool" where
  "sends_pubrels st l st' \<longleftrightarrow> send_publish (fst st') = send_publish (fst st)
     \<and> (\<exists>rs. l = map (\<lambda>x. Pubrel (sr_pid x)) rs \<and> subseq rs (send_pubrels (fst st)))"

definition sends_publishes :: "publishes_inner \<times> 'e world \<Rightarrow> packet list \<Rightarrow> publishes_inner \<times> 'e world \<Rightarrow> bool" where
  "sends_publishes st l st' \<longleftrightarrow> (\<exists>ps. l = map borrow ps \<and> subseq ps (send_publish (fst st))
     \<and> mset (send_publish (fst st)) = mset ps + mset (send_publish (fst st')))"

lemma publishes_send_general:
  assumes "publishes_send_packets ops n (s, w) = (r, s', w')" and inv: "pub_inv n s"
  shows "(\<exists>l. publish_traffic s l s' \<and> emitted (s, w) l (s', w')) \<and> accounts n (s, w) (s', w')
    \<and> r \<noteq> Undefined_Behaviour \<and> (r = Panic \<longrightarrow> sink_panics ops \<or> anonymous s)"
proof -
  let ?B = "sink_panics ops \<or> anonymous s"
  obtain r1 s1 w1 where x1: "send_pending_pubrel ops n 0 (s, w) = (r1, s1, w1)" by (rule prod_cases3)
  from send_pending_pubrel_general [OF x1 inv]
  have 1: "phase n ?B sends_pubrels (s, w) (send_pending_pubrel ops n 0 (s, w))"
    by (elim exE conjE) (rule phaseI [OF x1], auto simp: sends_pubrels_def)
  have p2: "phase n ?B sends_publishes (t, v) (send_pending_publishes ops n 0 (t, v))" if "pub_inv n t" for t v
  proof -
    obtain r2 s2 w2 where y: "send_pending_publishes ops n 0 (t, v) = (r2, s2, w2)" by (rule prod_cases3)
    from send_pending_publishes_general [OF y that] show ?thesis
      by (elim exE conjE) (rule phaseI [OF y], auto simp: sends_publishes_def)
  qed
  have skip: "sends_publishes st [] st" "resends st [] st" "repeats_pubrel st [] st" for st
    by (auto simp: sends_publishes_def resends_def repeats_pubrel_def)
  have inv_of: "pub_inv n (fst st1)" if "phase n ?B P (s, w) x" "x = (q, st1)"
    for P and x :: "send_result outcome \<times> publishes_inner \<times> 'e world" and q st1
    using that by (auto simp: phase_def accounts_def)
  let ?x2 = "and_then (send_pending_pubrel ops n 0 (s, w)) (\<lambda>r st. send_next r (send_pending_publishes ops n 0) st)"
  let ?x3 = "and_then ?x2 (\<lambda>r st. send_next r (resend_publishes ops) st)"
  let ?x4 = "and_then ?x3 (\<lambda>r st. send_next r (resend_pubrel ops) st)"
  have 2: "phase n ?B (followed_by sends_pubrels sends_publishes) (s, w) ?x2"
    using inv_of [OF 1] p2 skip(1) by (intro phase_next [OF 1]) (metis prod.collapse)
  have 3: "phase n ?B (followed_by (followed_by sends_pubrels sends_publishes) resends) (s, w) ?x3"
    using inv_of [OF 2] resend_publishes_phase skip(2) by (intro phase_next [OF 2]) (metis prod.collapse)
  have 4: "phase n ?B (followed_by (followed_by (followed_by sends_pubrels sends_publishes) resends) repeats_pubrel)
      (s, w) ?x4"
    using inv_of [OF 3] resend_pubrel_phase skip(3) by (intro phase_next [OF 3]) (metis prod.collapse)
  have traffic: "publish_traffic s l s'"
    if f: "followed_by (followed_by (followed_by sends_pubrels sends_publishes) resends) repeats_pubrel (s, w) l (s', w')"
    for l
  proof -
    from f obtain st1 st2 st3 l1 l2 l3 l4 where l: "l = l1 @ l2 @ l3 @ l4" "sends_pubrels (s, w) l1 st1"
      "sends_publishes st1 l2 st2" "resends st2 l3 st3" "repeats_pubrel st3 l4 (s', w')"
      by (auto simp: followed_by_def)
    then show ?thesis
      by (fastforce simp: publish_traffic_def sends_pubrels_def sends_publishes_def resends_def repeats_pubrel_def)
  qed
  from 4 assms(1) show ?thesis
    unfolding publishes_send_chain phase_def by (auto dest: traffic)
qed

end

end
