(* ===== verification/Receive_In.thy ===== *)
theory Receive_In
  imports Test_Doubles
begin

text \<open>
  \<open>src/src/state/receives2.rs\<close>: incoming publishes.  A received message is handed to the
  subscribers and, for QoS 1 and 2, its packet identifier travels through the queues of
  acknowledgements to send and to wait for.
\<close>

section \<open>State and operations\<close>

record receives_inner =
  send_puback :: "pid list"
  send_pubrec :: "pid list"
  await_pubrel :: "pid list"
  send_pubcomp :: "pid list"

definition new_receives :: receives_inner where
  "new_receives = \<lparr>send_puback = [], send_pubrec = [], await_pubrel = [], send_pubcomp = []\<rparr>"

definition received_try_from :: "sizes \<Rightarrow> publish \<Rightarrow> received_publish outcome" where
  "received_try_from n p =
     (case string_try_from (TOPIC n) (topic_name p) of
        None \<Rightarrow> Err TopicSizeError
      | Some topic \<Rightarrow>
          (case vec_try_from (BUFFER n) (payload p) of
             None \<Rightarrow> Err BufferTooSmall
           | Some bytes \<Rightarrow>
               Ok \<lparr>rp_dup = dup p, rp_qospid = qospid p, rp_retain = retain p,
                   rp_topic_name = topic, rp_payload = bytes\<rparr>))"

definition is_dup :: "pid \<Rightarrow> receives_inner \<Rightarrow> bool" where
  "is_dup pid s \<longleftrightarrow>
     list_ex (\<lambda>p. p = pid) (await_pubrel s) \<or> list_ex (\<lambda>p. p = pid) (send_pubrec s)
     \<or> list_ex (\<lambda>p. p = pid) (send_pubcomp s)"

definition deliver :: "sizes \<Rightarrow> publish \<Rightarrow> receives_inner \<times> 'e world
    \<Rightarrow> unit outcome \<times> receives_inner \<times> 'e world" where
  \<comment> \<open>\<open>publisher.publish(publish.try_into()?).await\<close>\<close>
  "deliver n p st =
     and_then (received_try_from n p, st) (\<lambda>msg (s, w).
       (Ok (), s, w\<lparr>received_log := received_log w @ [msg]\<rparr>))"

definition on_qos_2_publish :: "sizes \<Rightarrow> publish \<Rightarrow> receives_inner \<times> 'e world
    \<Rightarrow> unit outcome \<times> receives_inner \<times> 'e world" where
  "on_qos_2_publish n p st =
     and_then (unwrap_option (qospid_pid (qospid p)), st) (\<lambda>pid (s, w).
       let dup_seen = is_dup pid s in
       case vec_push (QUEUE n) pid (send_pubrec s) of
         Inl pid \<Rightarrow> (Err (QueueFull (QP_AtLeastOnce pid)), s, w)
       | Inr q \<Rightarrow>
           (let st1 = (s\<lparr>send_pubrec := q\<rparr>, w) in
            if \<not> dup_seen then deliver n p st1 else (Ok (), st1)))"

definition on_pubrel :: "sizes \<Rightarrow> pid \<Rightarrow> receives_inner \<times> 'e world
    \<Rightarrow> unit outcome \<times> receives_inner \<times> 'e world" where
  "on_pubrel n pid st =
     (case st of (s, w) \<Rightarrow>
        (case vec_push (QUEUE n) pid (send_pubcomp s) of
           Inl pid \<Rightarrow> (Err (QueueFull (QP_AtLeastOnce pid)), s, w)
         | Inr q \<Rightarrow>
             (let s1 = s\<lparr>send_pubcomp := q\<rparr> in
              case position (\<lambda>entry. entry = pid) (await_pubrel s1) of
                Some index \<Rightarrow> (Ok (), s1\<lparr>await_pubrel := vec_remove index (await_pubrel s1)\<rparr>, w)
              | None \<Rightarrow> (Ok (), s1, w))))"

definition on_publish :: "sizes \<Rightarrow> publish \<Rightarrow> receives_inner \<times> 'e world
    \<Rightarrow> unit outcome \<times> receives_inner \<times> 'e world" where
  "on_publish n p st =
     (case qospid p of
        QP_AtMostOnce \<Rightarrow> deliver n p st
      | QP_AtLeastOnce pid \<Rightarrow>
          and_then (deliver n p st) (\<lambda>_ (s, w).
            case vec_push (QUEUE n) pid (send_puback s) of
              Inl pid \<Rightarrow> (Err (QueueFull (QP_AtLeastOnce pid)), s, w)
            | Inr q \<Rightarrow> (Ok (), s\<lparr>send_puback := q\<rparr>, w))
      | QP_ExactlyOnce _ \<Rightarrow> on_qos_2_publish n p st)"

text \<open>The three loops of \<open>send_packets\<close>, by their index variable \<open>i\<close>.\<close>

function send_pubacks :: "'e ops \<Rightarrow> nat \<Rightarrow> receives_inner \<times> 'e world
    \<Rightarrow> send_result outcome \<times> receives_inner \<times> 'e world" where
  "send_pubacks ops i st =
     (if i < length (send_puback (fst st)) then
        and_then (try_write ops (Puback (send_puback (fst st) ! i)) st) (\<lambda>sent st1.
          if sent then
            send_pubacks ops (i + 1)
              ((fst st1)\<lparr>send_puback := vec_remove i (send_puback (fst st1))\<rparr>, snd st1)
          else (Ok PartiallySent, st1))
      else (Ok SentAll, st))"
  by pat_completeness auto
termination
  by (relation "measure (\<lambda>(ops, i, st). length (send_puback (fst st)) - i)")
    (auto dest!: try_write_frame)

function send_pubrecs :: "'e ops \<Rightarrow> sizes \<Rightarrow> nat \<Rightarrow> receives_inner \<times> 'e world
    \<Rightarrow> send_result outcome \<times> receives_inner \<times> 'e world" where
  "send_pubrecs ops n i st =
     (if i < length (send_pubrec (fst st)) then
        if vec_is_full (QUEUE n) (await_pubrel (fst st)) then (Ok SentAll, st)
        else
          and_then (try_write ops (Pubrec (send_pubrec (fst st) ! i)) st) (\<lambda>sent st1.
            if sent then
              (let pid = send_pubrec (fst st1) ! i;
                   s2 = (fst st1)\<lparr>send_pubrec := vec_remove i (send_pubrec (fst st1))\<rparr>;
                   s3 = (case vec_push (QUEUE n) pid (await_pubrel s2) of
                           Inr q \<Rightarrow> s2\<lparr>await_pubrel := q\<rparr>
                         | Inl _ \<Rightarrow> s2)
               in send_pubrecs ops n (i + 1) (s3, snd st1))
            else (Ok PartiallySent, st1))
      else (Ok SentAll, st))"
  by pat_completeness auto
termination
  by (relation "measure (\<lambda>(ops, n, i, st). length (send_pubrec (fst st)) - i)")
    (auto dest!: try_write_frame split: sum.splits)

function send_pubcomps :: "'e ops \<Rightarrow> nat \<Rightarrow> receives_inner \<times> 'e world
    \<Rightarrow> send_result outcome \<times> receives_inner \<times> 'e world" where
  "send_pubcomps ops i st =
     (if i < length (send_pubcomp (fst st)) then
        and_then (try_write ops (Pubcomp (send_pubcomp (fst st) ! i)) st) (\<lambda>sent st1.
          if sent then
            send_pubcomps ops (i + 1)
              ((fst st1)\<lparr>send_pubcomp := vec_remove i (send_pubcomp (fst st1))\<rparr>, snd st1)
          else (Ok PartiallySent, st1))
      else (Ok SentAll, st))"
  by pat_completeness auto
termination
  by (relation "measure (\<lambda>(ops, i, st). length (send_pubcomp (fst st)) - i)")
    (auto dest!: try_write_frame)

definition receives_send_packets :: "'e ops \<Rightarrow> sizes \<Rightarrow> receives_inner \<times> 'e world
    \<Rightarrow> send_result outcome \<times> receives_inner \<times> 'e world" where
  \<comment> \<open>Each loop returns early when the send buffer is full; \<open>break\<close> goes on with the next loop.\<close>
  "receives_send_packets ops n st =
     and_then (send_pubacks ops 0 st) (\<lambda>r st1.
       if r = PartiallySent then (Ok PartiallySent, st1)
       else and_then (send_pubrecs ops n 0 st1) (\<lambda>r st2.
         if r = PartiallySent then (Ok PartiallySent, st2)
         else send_pubcomps ops 0 st2))"

declare send_pubacks.simps [simp del] send_pubrecs.simps [simp del] send_pubcomps.simps [simp del]

section \<open>The acknowledgement loops\<close>

text \<open>A loop that removes element \<open>i\<close> and then increments \<open>i\<close> meets every second element only.\<close>

fun every_second :: "'a list \<Rightarrow> 'a list" where
  "every_second [] = []"
| "every_second [x] = [x]"
| "every_second (x # y # zs) = x # every_second zs"

fun skipped :: "'a list \<Rightarrow> 'a list" where
  "skipped [] = []"
| "skipped [x] = []"
| "skipped (x # y # zs) = y # skipped zs"

lemma length_skipped: "length (skipped xs) = length xs div 2"
  by (induction xs rule: skipped.induct) auto

text \<open>The loops over \<open>send_puback\<close> and \<open>send_pubcomp\<close> on the queue alone.\<close>

function drain :: "'e ops \<Rightarrow> (pid \<Rightarrow> packet) \<Rightarrow> nat \<Rightarrow> pid list \<times> 'e world
    \<Rightarrow> send_result outcome \<times> pid list \<times> 'e world" where
  "drain ops mk i st =
     (if i < length (fst st) then
        and_then (try_write ops (mk (fst st ! i)) st) (\<lambda>sent st1.
          if sent then drain ops mk (i + 1) (vec_remove i (fst st1), snd st1)
          else (Ok PartiallySent, st1))
      else (Ok SentAll, st))"
  by pat_completeness auto
termination
  by (relation "measure (\<lambda>(ops, mk, i, st). length (fst st) - i)") (auto dest!: try_write_frame)

declare drain.simps [simp del]

lemma send_pubacks_drain:
  "send_pubacks ops i (s, w) =
    (case drain ops Puback i (send_puback s, w) of (r, q, w') \<Rightarrow> (r, s\<lparr>send_puback := q\<rparr>, w'))"
proof (induction "length (send_puback s) - i" arbitrary: i s w rule: less_induct)
  case less
  obtain o1 w1 where w: "try_write ops (Puback (send_puback s ! i)) (send_puback s, w)
      = (o1, send_puback s, w1)" by (rule try_write_cases)
  then have w': "try_write ops (Puback (send_puback s ! i)) (s, w) = (o1, s, w1)"
    by (simp add: try_write_lift [of _ _ s _ "send_puback s"])
  show ?case
    using less [of "s\<lparr>send_puback := vec_remove i (send_puback s)\<rparr>" "i + 1" w1]
    by (cases o1) (auto simp: send_pubacks.simps [of ops i] drain.simps [of ops _ i] w w' split: prod.splits)
qed

lemma send_pubcomps_drain:
  "send_pubcomps ops i (s, w) =
    (case drain ops Pubcomp i (send_pubcomp s, w) of (r, q, w') \<Rightarrow> (r, s\<lparr>send_pubcomp := q\<rparr>, w'))"
proof (induction "length (send_pubcomp s) - i" arbitrary: i s w rule: less_induct)
  case less
  obtain o1 w1 where w: "try_write ops (Pubcomp (send_pubcomp s ! i)) (send_pubcomp s, w)
      = (o1, send_pubcomp s, w1)" by (rule try_write_cases)
  then have w': "try_write ops (Pubcomp (send_pubcomp s ! i)) (s, w) = (o1, s, w1)"
    by (simp add: try_write_lift [of _ _ s _ "send_pubcomp s"])
  show ?case
    using less [of "s\<lparr>send_pubcomp := vec_remove i (send_pubcomp s)\<rparr>" "i + 1" w1]
    by (cases o1) (auto simp: send_pubcomps.simps [of ops i] drain.simps [of ops _ i] w w' split: prod.splits)
qed

context packet_sink begin

lemma drain_general:
  "drain ops mk i (q, w) = (r, q', w') \<Longrightarrow>
    \<exists>ps. emitted (q, w) (map mk ps) (q', w') \<and> subseq ps (drop i q) \<and> mset q = mset ps + mset q'
      \<and> quiet w w' \<and> (r = Ok SentAll \<longrightarrow> ps = every_second (drop i q) \<and> q' = take i q @ skipped (drop i q))"
proof (induction "length q - i" arbitrary: i q w r rule: less_induct)
  case less
  show ?case
  proof (cases "i < length q")
    case False
    with less.prems show ?thesis by (auto simp: drain.simps [of ops mk i])
  next
    case True
    obtain o1 w1 where w: "try_write ops (mk (q ! i)) (q, w) = (o1, q, w1)"
      by (rule try_write_cases)
    note fr = try_write_frame [OF w] and em = try_write_emitted [OF w]
    show ?thesis
    proof (cases "o1 = Ok True")
      case False
      with less.prems True w have "q' = q" "w' = w1" "r \<noteq> Ok SentAll"
        by (cases o1; auto simp: drain.simps [of ops mk i])+
      with fr em False show ?thesis by (intro exI [of _ "[]"]) auto
    next
      case o1: True
      let ?q = "vec_remove i q"
      from less.prems True w o1 have rec: "drain ops mk (i + 1) (?q, w1) = (r, q', w')"
        by (simp add: drain.simps [of ops mk i])
      have "length ?q - (i + 1) < length q - i" using True by simp
      from less.hyps [OF this rec] obtain ps where ps: "emitted (?q, w1) (map mk ps) (q', w')"
        "subseq ps (drop (i + 1) ?q)" "mset ?q = mset ps + mset q'" "quiet w1 w'"
        "r = Ok SentAll \<longrightarrow> ps = every_second (drop (i + 1) ?q)
          \<and> q' = take (i + 1) ?q @ skipped (drop (i + 1) ?q)"
        by blast
      from True have d: "drop i q = q ! i # drop (Suc i) q" by (simp add: Cons_nth_drop_Suc)
      obtain t where t: "t = drop (Suc i) q" by simp
      have rest: "drop (Suc i) ?q = drop 1 t" "take (Suc i) ?q = take i q @ take 1 t"
        using True by (simp_all add: t vec_remove_def take_drop)
      have "emitted (q, w) (map mk (q ! i # ps)) (q', w')"
        using em o1 ps(1) emitted_Cons [of "(q, w)" "mk (q ! i)" "(q, w1)"]
          emitted_env_cong [of "(?q, w1)" _ "(q', w')" "(q, w1)" "(q', w')"] by simp
      moreover have "subseq (q ! i # ps) (drop i q)"
        using ps(2) subseq_dropD [of ps 1 t] by (simp add: d rest t [symmetric])
      moreover have "mset q = mset (q ! i # ps) + mset q'"
        using ps(3) mset_vec_remove [OF True] by simp
      moreover have "r = Ok SentAll \<longrightarrow> q ! i # ps = every_second (drop i q)
          \<and> q' = take i q @ skipped (drop i q)"
        using ps(5) by (cases t) (simp_all add: d rest t [symmetric])
      ultimately show ?thesis
        using ps(4) fr quiet_trans by (intro exI [of _ "q ! i # ps"]) auto
    qed
  qed
qed
lemma send_pubrecs_general:
  assumes "send_pubrecs ops n i (s, w) = (r, s', w')" and "length (await_pubrel s) \<le> QUEUE n"
  shows "\<exists>rs. emitted (s, w) (map Pubrec rs) (s', w') \<and> subseq rs (drop i (send_pubrec s))
    \<and> mset (send_pubrec s) = mset rs + mset (send_pubrec s') \<and> quiet w w'
    \<and> s' = s\<lparr>send_pubrec := send_pubrec s', await_pubrel := await_pubrel s @ rs\<rparr>
    \<and> length (await_pubrel s') \<le> QUEUE n"
  using assms
proof (induction "length (send_pubrec s) - i" arbitrary: i s w r rule: less_induct)
  case less
  let ?q = "send_pubrec s"
  show ?case
  proof (cases "i < length ?q \<and> length (await_pubrel s) \<noteq> QUEUE n")
    case False
    with less.prems show ?thesis
      by (intro exI [of _ "[]"]) (auto simp: send_pubrecs.simps [of ops n i] vec_is_full_def split: if_splits)
  next
    case True
    obtain o1 w1 where w: "try_write ops (Pubrec (?q ! i)) (s, w) = (o1, s, w1)"
      by (rule try_write_cases)
    note fr = try_write_frame [OF w] and em = try_write_emitted [OF w]
    show ?thesis
    proof (cases "o1 = Ok True")
      case False
      with less.prems True w have "s' = s" "w' = w1"
        by (cases o1; auto simp: send_pubrecs.simps [of ops n i] vec_is_full_def)+
      with fr em False less.prems(2) show ?thesis by (intro exI [of _ "[]"]) auto
    next
      case o1: True
      let ?s = "s\<lparr>send_pubrec := vec_remove i ?q, await_pubrel := await_pubrel s @ [?q ! i]\<rparr>"
      from True less.prems(2) have room: "length (await_pubrel s) < QUEUE n" by simp
      with less.prems(1) True w o1 have rec: "send_pubrecs ops n (i + 1) (?s, w1) = (r, s', w')"
        by (simp add: send_pubrecs.simps [of ops n i] vec_is_full_def vec_push_def)
      have lt: "length (send_pubrec ?s) - (i + 1) < length ?q - i" using True by auto
      have "length (await_pubrel ?s) \<le> QUEUE n" using room by simp
      from less.hyps [OF lt rec this] obtain rs where rs: "emitted (?s, w1) (map Pubrec rs) (s', w')"
        "subseq rs (drop (i + 1) (vec_remove i ?q))"
        "mset (vec_remove i ?q) = mset rs + mset (send_pubrec s')" "quiet w1 w'"
        "s' = s\<lparr>send_pubrec := send_pubrec s', await_pubrel := await_pubrel s @ ?q ! i # rs\<rparr>"
        "length (await_pubrel s') \<le> QUEUE n"
        by auto
      from True have d: "drop i ?q = ?q ! i # drop (Suc i) ?q" by (simp add: Cons_nth_drop_Suc)
      have rest: "drop (Suc i) (vec_remove i ?q) = drop 1 (drop (Suc i) ?q)"
        using True by (simp add: vec_remove_def)
      have "emitted (s, w) (map Pubrec (?q ! i # rs)) (s', w')"
        using em o1 rs(1) emitted_Cons [of "(s, w)" "Pubrec (?q ! i)" "(s, w1)"]
          emitted_env_cong [of "(?s, w1)" _ "(s', w')" "(s, w1)" "(s', w')"] by simp
      moreover have "subseq (?q ! i # rs) (drop i ?q)"
        using rs(2) subseq_dropD [of rs 1 "drop (Suc i) ?q"] by (simp add: d rest)
      moreover have "mset ?q = mset (?q ! i # rs) + mset (send_pubrec s')"
        using rs(3) mset_vec_remove [of i ?q] True by simp
      ultimately show ?thesis
        using rs(4-6) fr quiet_trans by (intro exI [of _ "?q ! i # rs"]) auto
    qed
  qed
qed

lemma send_pubacks_general:
  assumes "send_pubacks ops 0 (s, w) = (r, s', w')"
  shows "\<exists>ps. emitted (s, w) (map Puback ps) (s', w') \<and> subseq ps (send_puback s)
    \<and> mset (send_puback s) = mset ps + mset (send_puback s') \<and> quiet w w'
    \<and> s' = s\<lparr>send_puback := send_puback s'\<rparr>
    \<and> (r = Ok SentAll \<longrightarrow> ps = every_second (send_puback s) \<and> send_puback s' = skipped (send_puback s))"
proof -
  obtain q where d: "drain ops Puback 0 (send_puback s, w) = (r, q, w')" and s': "s' = s\<lparr>send_puback := q\<rparr>"
    using assms by (auto simp: send_pubacks_drain split: prod.splits)
  from drain_general [OF d] s' show ?thesis
    using emitted_env_cong [of "(send_puback s, w)" _ "(q, w')" "(s, w)" "(s', w')"] by auto
qed

lemma send_pubcomps_general:
  assumes "send_pubcomps ops 0 (s, w) = (r, s', w')"
  shows "\<exists>ps. emitted (s, w) (map Pubcomp ps) (s', w') \<and> subseq ps (send_pubcomp s)
    \<and> mset (send_pubcomp s) = mset ps + mset (send_pubcomp s') \<and> quiet w w'
    \<and> s' = s\<lparr>send_pubcomp := send_pubcomp s'\<rparr>
    \<and> (r = Ok SentAll \<longrightarrow> ps = every_second (send_pubcomp s) \<and> send_pubcomp s' = skipped (send_pubcomp s))"
proof -
  obtain q where d: "drain ops Pubcomp 0 (send_pubcomp s, w) = (r, q, w')" and s': "s' = s\<lparr>send_pubcomp := q\<rparr>"
    using assms by (auto simp: send_pubcomps_drain split: prod.splits)
  from drain_general [OF d] s' show ?thesis
    using emitted_env_cong [of "(send_pubcomp s, w)" _ "(q, w')" "(s, w)" "(s', w')"] by auto
qed

lemma receives_send_general:
  assumes "receives_send_packets ops n (s, w) = (r, s', w')" and "length (await_pubrel s) \<le> QUEUE n"
  shows "\<exists>as rs cs. emitted (s, w) (map Puback as @ map Pubrec rs @ map Pubcomp cs) (s', w')
    \<and> subseq as (send_puback s) \<and> subseq rs (send_pubrec s) \<and> subseq cs (send_pubcomp s)
    \<and> mset (send_puback s) = mset as + mset (send_puback s')
    \<and> mset (send_pubrec s) = mset rs + mset (send_pubrec s')
    \<and> mset (send_pubcomp s) = mset cs + mset (send_pubcomp s')
    \<and> await_pubrel s' = await_pubrel s @ rs \<and> length (await_pubrel s') \<le> QUEUE n \<and> quiet w w'
    \<and> (r = Ok SentAll \<longrightarrow> send_puback s' = skipped (send_puback s)
        \<and> send_pubcomp s' = skipped (send_pubcomp s))"
proof -
  obtain r1 s1 w1 where a: "send_pubacks ops 0 (s, w) = (r1, s1, w1)" by (rule prod_cases3)
  from send_pubacks_general [OF a] obtain as where as: "emitted (s, w) (map Puback as) (s1, w1)"
    "subseq as (send_puback s)" "mset (send_puback s) = mset as + mset (send_puback s1)" "quiet w w1"
    "s1 = s\<lparr>send_puback := send_puback s1\<rparr>" "r1 = Ok SentAll \<longrightarrow> send_puback s1 = skipped (send_puback s)"
    by blast
  have s1: "send_pubrec s1 = send_pubrec s" "await_pubrel s1 = await_pubrel s"
    "send_pubcomp s1 = send_pubcomp s" by (subst as(5), simp)+
  show ?thesis
  proof (cases "r1 = Ok SentAll")
    case False
    have "s' = s1 \<and> w' = w1 \<and> r \<noteq> Ok SentAll"
    proof (cases r1)
      case (Ok x)
      with False assms(1) a show ?thesis by (cases x) (auto simp: receives_send_packets_def)
    qed (use assms(1) a in \<open>auto simp: receives_send_packets_def\<close>)
    with as s1 assms(2) show ?thesis
      by (intro exI [of _ as] exI [of _ "[]"]) simp
  next
    case r1: True
    obtain r2 s2 w2 where b: "send_pubrecs ops n 0 (s1, w1) = (r2, s2, w2)" by (rule prod_cases3)
    from send_pubrecs_general [OF b] s1 assms(2) obtain rs where rs:
      "emitted (s1, w1) (map Pubrec rs) (s2, w2)" "subseq rs (send_pubrec s)"
      "mset (send_pubrec s) = mset rs + mset (send_pubrec s2)" "quiet w1 w2"
      "s2 = s1\<lparr>send_pubrec := send_pubrec s2, await_pubrel := await_pubrel s1 @ rs\<rparr>"
      "length (await_pubrel s2) \<le> QUEUE n" by auto
    have s2: "send_puback s2 = send_puback s1" "await_pubrel s2 = await_pubrel s @ rs"
      "send_pubcomp s2 = send_pubcomp s" by (subst rs(5), simp add: s1)+
    have e2: "emitted (s, w) (map Puback as @ map Pubrec rs) (s2, w2)"
      using as(1) rs(1) by (rule emitted_append)
    have q2: "quiet w w2" using as(4) rs(4) by (rule quiet_trans)
    show ?thesis
    proof (cases "r2 = Ok SentAll")
      case False
      have "s' = s2 \<and> w' = w2 \<and> r \<noteq> Ok SentAll"
      proof (cases r2)
        case (Ok x)
        with False assms(1) a r1 b show ?thesis by (cases x) (auto simp: receives_send_packets_def)
      qed (use assms(1) a r1 b in \<open>auto simp: receives_send_packets_def\<close>)
      with as rs s2 e2 q2 show ?thesis
        by (intro exI [of _ as] exI [of _ rs] exI [of _ "[]"]) simp
    next
      case r2: True
      with assms(1) a r1 b have c: "send_pubcomps ops 0 (s2, w2) = (r, s', w')"
        by (simp add: receives_send_packets_def)
      from send_pubcomps_general [OF c] s2 obtain cs where cs:
        "emitted (s2, w2) (map Pubcomp cs) (s', w')" "subseq cs (send_pubcomp s)"
        "mset (send_pubcomp s) = mset cs + mset (send_pubcomp s')" "quiet w2 w'"
        "s' = s2\<lparr>send_pubcomp := send_pubcomp s'\<rparr>"
        "r = Ok SentAll \<longrightarrow> send_pubcomp s' = skipped (send_pubcomp s)" by auto
      have s3: "send_puback s' = send_puback s2" "send_pubrec s' = send_pubrec s2"
        "await_pubrel s' = await_pubrel s2" by (subst cs(5), simp)+
      have e3: "emitted (s, w) (map Puback as @ map Pubrec rs @ map Pubcomp cs) (s', w')"
        using emitted_append [OF e2 cs(1)] by simp
      have q3: "quiet w w'" using q2 cs(4) by (rule quiet_trans)
      from as rs cs s2 s3 e3 q3 r1 show ?thesis
        by (intro exI [of _ as] exI [of _ rs] exI [of _ cs]) simp
    qed
  qed
qed

end

end
