(* ===== verification/Tcp_Session.thy ===== *)
theory Tcp_Session
  imports Test_Doubles
begin

text \<open>
  The connection state of \<open>src/src/state/connection/mod.rs\<close>: only \<open>connect\<close>, \<open>disconnect\<close> and
  \<open>set_error\<close> change it, and none of the module's operations has undefined behaviour.  The
  lemmas hold for every codec and network.
\<close>

named_theorems steady_intros \<open>operations that keep the connection state\<close>

definition steady :: "'n tcp \<Rightarrow> 'a outcome \<times> 'n tcp \<Rightarrow> bool" where
  "steady c x \<longleftrightarrow> fst x \<noteq> Undefined_Behaviour \<and> watch (snd x) = watch c \<and> connection (snd x) = connection c"

lemma steady_return [steady_intros]: "r \<noteq> Undefined_Behaviour \<Longrightarrow> steady c (r, c)"
  by (simp add: steady_def)

lemma steady_and_then [steady_intros]:
  assumes "steady c x" and "\<And>v c1. x = (Ok v, c1) \<Longrightarrow> steady c1 (f v c1)"
  shows "steady c (and_then x f)"
proof (cases "\<exists>v c1. x = (Ok v, c1)")
  case True
  then obtain v c1 where "x = (Ok v, c1)" by blast
  with assms show ?thesis by (auto simp: steady_def)
next
  case False
  with assms(1) show ?thesis by (cases "(x, f)" rule: and_then.cases) (auto simp: steady_def)
qed

lemma steady_run_loop [steady_intros]:
  assumes "\<And>c. steady c (body c)"
  shows "steady c (run_loop body c)"
proof -
  have "steady c (fst (run_loop body c), snd (run_loop body c))"
  proof (rule run_loop_rel [where R = "\<lambda>c c'. watch c' = watch c \<and> connection c' = connection c"
        and Q = "\<lambda>c r c'. steady c (r, c')"])
    fix s s' assume "body s = (Ok None, s')"
    with assms [of s] show "watch s' = watch s \<and> connection s' = connection s" by (simp add: steady_def)
  next
    fix s s' r assume "body s = (r, s')"
    with assms [of s] show "steady s (leave r, s')"
      by (cases r rule: leave.cases) (auto simp: steady_def)
  qed (auto simp: steady_def)
  then show ?thesis by simp
qed

lemma cell_outcomes:
  "cell_borrow b \<noteq> Undefined_Behaviour" "bufref_drop b \<noteq> Undefined_Behaviour"
  by (simp_all add: cell_borrow_def bufref_drop_def)

lemma steady_fields: "steady (c\<lparr>send_buffer := b\<rparr>) x = steady c x" "steady (c\<lparr>recv_buffer := b\<rparr>) x = steady c x"
  by (simp_all add: steady_def)

lemma steady_with_send [steady_intros]:
  assumes "\<And>c. steady c (f c)"
  shows "steady c (with_send_buffer f c)"
proof (cases "cell_borrow (send_buffer c)")
  case (Ok cell)
  obtain r c1 where f: "f (c\<lparr>send_buffer := cell\<rparr>) = (r, c1)" by fastforce
  with assms [of "c\<lparr>send_buffer := cell\<rparr>"] have "steady c (r, c1)" by (simp add: steady_fields)
  with Ok f cell_outcomes(2) [of "send_buffer c1"] show ?thesis
    by (cases "bufref_drop (send_buffer c1)") (auto simp: with_send_buffer_def steady_def)
qed (use cell_outcomes(1) [of "send_buffer c"] in \<open>auto simp: with_send_buffer_def steady_def\<close>)

lemma steady_with_recv [steady_intros]:
  assumes "\<And>c. steady c (f c)"
  shows "steady c (with_recv_buffer f c)"
proof (cases "cell_borrow (recv_buffer c)")
  case (Ok cell)
  obtain r c1 where f: "f (c\<lparr>recv_buffer := cell\<rparr>) = (r, c1)" by fastforce
  with assms [of "c\<lparr>recv_buffer := cell\<rparr>"] have "steady c (r, c1)" by (simp add: steady_fields)
  with Ok f cell_outcomes(2) [of "recv_buffer c1"] show ?thesis
    by (cases "bufref_drop (recv_buffer c1)") (auto simp: with_recv_buffer_def steady_def)
qed (use cell_outcomes(1) [of "recv_buffer c"] in \<open>auto simp: with_recv_buffer_def steady_def\<close>)

lemma buffer_outcomes [simp]:
  "flip b \<noteq> Undefined_Behaviour" "writeable_data b \<noteq> Undefined_Behaviour" "reaable_data b \<noteq> Undefined_Behaviour"
  "store bs b \<noteq> Undefined_Behaviour" "consume k b \<noteq> Undefined_Behaviour"
proof -
  show f: "flip b \<noteq> Undefined_Behaviour" for b by (simp add: flip_def)
  show "writeable_data b \<noteq> Undefined_Behaviour"
    unfolding writeable_data_def by (rule obind_defined) (simp_all add: f)
  show "reaable_data b \<noteq> Undefined_Behaviour" by (simp add: reaable_data_def)
  show "store bs b \<noteq> Undefined_Behaviour" by (simp add: store_def commit_bytes_written_def)
  show "consume k b \<noteq> Undefined_Behaviour" by (simp add: consume_def add_bytes_read_def)
qed

lemma steady_on_send [steady_intros]: "f (cell_buffer (send_buffer c)) \<noteq> Undefined_Behaviour \<Longrightarrow> steady c (on_send f c)"
  by (cases "f (cell_buffer (send_buffer c))") (auto simp: on_send_def steady_def)

lemma steady_on_recv [steady_intros]: "f (cell_buffer (recv_buffer c)) \<noteq> Undefined_Behaviour \<Longrightarrow> steady c (on_recv f c)"
  by (cases "f (cell_buffer (recv_buffer c))") (auto simp: on_recv_def steady_def)

lemma unit_step_defined [simp]: "f b \<noteq> Undefined_Behaviour \<Longrightarrow> unit_step f b \<noteq> Undefined_Behaviour"
  by (cases "f b") (auto simp: unit_step_def)

lemma look_defined [simp]: "f b \<noteq> Undefined_Behaviour \<Longrightarrow> look f b \<noteq> Undefined_Behaviour"
  by (cases "f b") (auto simp: look_def)

lemma steady_network [steady_intros]:
  "steady c (network_result f c)" "steady c (network_try_read net len c)" "steady c (require_connection c)"
  by (auto simp: network_result_def network_try_read_def require_connection_def steady_def
      split: prod.splits option.splits sum.splits)

lemma steady_moves [steady_intros]:
  "steady c (write_readable net c)" "steady c (read_writeable net c)" "steady c (try_read_writeable net c)"
  unfolding write_readable_def read_writeable_def try_read_writeable_def
  by (auto intro!: steady_intros)

lemma steady_inherent_write [steady_intros]: "steady c (inherent_try_write_packet cd p c)"
  unfolding inherent_try_write_packet_def
  by (intro steady_intros) (auto intro!: steady_intros split: sum.splits codec_error.splits)

lemma steady_if [steady_intros]: "(b \<Longrightarrow> steady c x) \<Longrightarrow> (\<not> b \<Longrightarrow> steady c y) \<Longrightarrow> steady c (if b then x else y)"
  by simp

lemma steady_send_all [steady_intros]: "steady c (send_all net c)"
  unfolding send_all_def send_all_intern_def by (intro steady_intros; simp)

lemma steady_tcp_send [steady_intros]: "steady c (tcp_send net c)"
  unfolding tcp_send_def by (intro steady_intros; simp)

lemma steady_write_packet [steady_intros]: "steady c (write_packet_async cd net p c)"
  unfolding write_packet_async_def by (intro steady_intros; simp)

lemma steady_try_read_packet [steady_intros]: "steady c (try_read_packet cd c)"
proof (cases "cell_borrow (recv_buffer c)")
  case (Ok cell)
  have "try_map_maybe (decode_slice_with_len cd) cell \<noteq> Undefined_Behaviour"
    unfolding try_map_maybe_def
    by (rule obind_defined) (simp_all add: bufref_drop_def split: sum.splits option.splits)
  with Ok show ?thesis
    by (cases "try_map_maybe (decode_slice_with_len cd) cell")
      (auto simp: try_read_packet_def Let_def steady_def split: sum.splits option.splits if_splits)
qed (use cell_outcomes(1) [of "recv_buffer c"] in \<open>auto simp: try_read_packet_def steady_def\<close>)

lemma steady_drop_packet [steady_intros]: "steady c (drop_packet m c)"
proof -
  have "mapped_drop (fst m) (recv_buffer c) \<noteq> Undefined_Behaviour"
    unfolding mapped_drop_def by (rule obind_defined) (simp_all add: add_bytes_read_def cell_outcomes)
  then show ?thesis
    by (cases "mapped_drop (fst m) (recv_buffer c)") (auto simp: drop_packet_def steady_def)
qed

lemma steady_read_packet [steady_intros]: "steady c (read_packet cd net c)"
  unfolding read_packet_def by (intro steady_intros) (auto intro!: steady_intros split: option.splits)

lemma steady_send_receive [steady_intros]: "steady c (send_receive net c)"
  unfolding send_receive_def by (intro steady_intros) auto

lemma steady_run_io: "steady c (run_io cd net c)"
  unfolding run_io_def by (intro steady_intros) simp_all

lemma steady_run_io_nonblocking: "steady c (run_io_nonblocking cd net c)"
  unfolding run_io_nonblocking_def by (intro steady_intros) simp_all

section \<open>Connecting\<close>

lemma on_tcp_steady:
  "steady (fst st) (f (fst st)) \<Longrightarrow> on_tcp f st = (r, st') \<Longrightarrow>
    r \<noteq> Undefined_Behaviour \<and> watch (fst st') = watch (fst st) \<and> connection (fst st') = connection (fst st)"
  by (auto simp: on_tcp_def steady_def split: prod.splits)

text \<open>The same for computations that take identifiers from the pool.\<close>

definition steady2 :: "'n tcp \<times> pid_pool \<Rightarrow> 'a outcome \<times> 'n tcp \<times> pid_pool \<Rightarrow> bool" where
  "steady2 st x \<longleftrightarrow> fst x \<noteq> Undefined_Behaviour \<and> watch (fst (snd x)) = watch (fst st)
     \<and> connection (fst (snd x)) = connection (fst st)"

lemma steady2_and_then:
  assumes "steady2 st x" and "\<And>v st1. x = (Ok v, st1) \<Longrightarrow> steady2 st1 (f v st1)"
  shows "steady2 st (and_then x f)"
proof (cases "\<exists>v st1. x = (Ok v, st1)")
  case True
  then obtain v st1 where "x = (Ok v, st1)" by blast
  with assms show ?thesis by (auto simp: steady2_def)
next
  case False
  with assms(1) show ?thesis by (cases "(x, f)" rule: and_then.cases) (auto simp: steady2_def)
qed

lemma steady2_on_tcp: "(\<And>c. steady c (f c)) \<Longrightarrow> steady2 st (on_tcp f st)"
  by (cases "f (fst st)") (simp add: steady2_def on_tcp_def steady_def, metis fst_conv snd_conv)

lemma steady2_return: "r \<noteq> Undefined_Behaviour \<Longrightarrow> steady2 st (r, st)"
  by (simp add: steady2_def)

lemma steady2_take_pid: "steady2 st (take_pid st)"
proof -
  have "fst (next_pid p) \<noteq> Undefined_Behaviour" for p
    by (auto simp: next_pid_def pool_next_pid_def pid_take_def pid_try_from_def Let_def split: list.splits)
  from this [of "snd st"] show ?thesis by (auto simp: take_pid_def steady2_def split: prod.splits)
qed

lemma collect_into_defined:
  "(\<And>x. f x \<noteq> Undefined_Behaviour) \<Longrightarrow> collect_into cap f xs acc \<noteq> Undefined_Behaviour"
proof (induction xs arbitrary: acc)
  case (Cons x xs)
  then show ?case by (cases "f x") auto
qed simp

lemma process_suback_defined: "process_suback codes as \<noteq> Undefined_Behaviour"
  by (induction codes as rule: process_suback.induct) (auto split: subscribe_return_code.splits)

lemma steady2_subscribe_chunk: "steady2 st (subscribe_chunk cd net chunk st)"
proof -
  have "collect_into (topics_size cd) (auto_subscribe_topic (topic_path_size cd)) chunk [] \<noteq> Undefined_Behaviour"
    by (rule collect_into_defined) (simp add: auto_subscribe_topic_def split: option.splits)
  then show ?thesis
    unfolding subscribe_chunk_def Let_def
    by (intro steady2_and_then steady2_take_pid steady2_on_tcp steady_intros steady2_return)
      (auto simp: process_suback_defined split: packet.splits)
qed

lemma steady2_subscribe_chunks: "steady2 st (subscribe_chunks cd net cs st)"
proof (induction cs arbitrary: st)
  case Nil
  then show ?case by (simp add: steady2_return)
next
  case (Cons c cs)
  show ?case unfolding subscribe_chunks.simps by (intro steady2_and_then steady2_subscribe_chunk Cons.IH)
qed

lemma process_connack_state:
  assumes "process_connack cd net code st = (r, st')"
  shows "r \<noteq> Undefined_Behaviour \<and> connection (fst st') = connection (fst st)
    \<and> (if r = Ok () then watch (fst st') = Some Connected
        else watch (fst st') = watch (fst st) \<or> watch (fst st') = Some ErrorState)"
proof (cases code)
  case Accepted
  obtain r1 st1 where x: "subscribe_auto_subscribes cd net st = (r1, st1)" by (rule prod.exhaust)
  have "steady2 st (r1, st1)"
    using steady2_subscribe_chunks [of st cd net] x unfolding subscribe_auto_subscribes_def by metis
  with Accepted assms x show ?thesis
    by (cases r1) (auto simp: process_connack_def steady2_def set_watch_def split: prod.splits)
qed (use assms in \<open>auto simp: process_connack_def set_watch_def\<close>)

lemma send_connect_state:
  assumes "send_connect cd net c = (r, c')"
  shows "r \<noteq> Undefined_Behaviour \<and> connection c' = connection c
    \<and> (watch c' = watch c \<or> watch c' = Some ConnectSent)"
proof -
  let ?tail = "\<lambda>c. and_then (read_packet cd net (set_watch ConnectSent c)) (\<lambda>next_packet c.
    let connack = (case snd next_packet of Connack _ code \<Rightarrow> Ok code | _ \<Rightarrow> Err ConnackError)
    in and_then (drop_packet next_packet c) (\<lambda>_ c. (connack, c)))"
  have t: "fst (?tail c) \<noteq> Undefined_Behaviour \<and> connection (snd (?tail c)) = connection c
      \<and> watch (snd (?tail c)) = Some ConnectSent" for c
  proof -
    have "steady (set_watch ConnectSent c) (?tail c)"
      unfolding Let_def by (intro steady_intros) (auto split: packet.splits)
    then show ?thesis by (simp add: steady_def set_watch_def)
  qed
  obtain r1 c1 where x: "inherent_try_write_packet cd (connect_packet_of c) c = (r1, c1)" by fastforce
  with steady_inherent_write [of c cd "connect_packet_of c"] have s1: "steady c (r1, c1)" by simp
  obtain r2 c2 where y: "tcp_send net c1 = (r2, c2)" by fastforce
  with steady_tcp_send [of c1 net] have s2: "steady c1 (r2, c2)" by simp
  show ?thesis
  proof (cases "r1 = Ok True \<and> r2 = Ok ()")
    case True
    with assms x y have "(r, c') = ?tail c2" by (simp add: send_connect_def)
    with t [of c2] s1 s2 show ?thesis by (metis steady_def fst_conv snd_conv)
  next
    case False
    with assms x y s1 s2 show ?thesis
      by (cases r1; cases r2) (auto simp: send_connect_def steady_def split: if_splits)
  qed
qed

lemma open_connection_state:
  assumes "open_connection net c = (r, c')"
  shows "r \<noteq> Undefined_Behaviour \<and> (r = Ok () \<longrightarrow> connection c') \<and> watch c' = watch c"
proof (cases "resolve (nw_resolve net) (config_host (tcp_config c))")
  case (Ok ip)
  let ?port = "case config_port (tcp_config c) of Some p \<Rightarrow> p | None \<Rightarrow> MQTT_DEFAULT_PORT"
  obtain r1 c1 where x: "network_result (nw_connect net (ip, ?port)) c = (r1, c1)" by fastforce
  have "steady c (r1, c1)" using steady_network(1) [of c "nw_connect net (ip, ?port)"] x by simp
  with assms Ok x show ?thesis by (cases r1) (auto simp: open_connection_def steady_def)
qed (use assms in \<open>auto simp: open_connection_def resolve_def split: host.splits option.splits\<close>)

text \<open>\<open>connect\<close> that succeeds leaves the state Connected with an open connection; one that fails
  does not leave it Connected.\<close>

lemma tcp_connect_state:
  assumes "tcp_connect cd net st = (r, st')"
  shows "r \<noteq> Undefined_Behaviour \<and> (r = Ok () \<longrightarrow> watch (fst st') = Some Connected \<and> connection (fst st'))
    \<and> (r \<noteq> Ok () \<longrightarrow> watch (fst st) \<noteq> Some Connected \<longrightarrow> watch (fst st') \<noteq> Some Connected)"
proof -
  have "steady c (reset_buffers c)" for c :: "'a tcp"
    unfolding reset_buffers_def by (intro steady_intros) (simp_all add: unit_step_def)
  then have 1: "steady2 st (on_tcp reset_buffers st)" for st :: "'a tcp \<times> pid_pool"
    by (rule steady2_on_tcp)
  have 2: "r \<noteq> Undefined_Behaviour \<and> (r = Ok () \<longrightarrow> connection (fst st')) \<and> watch (fst st') = watch (fst st)"
    if "on_tcp (open_connection net) st = (r, st')" for r st st'
    using that open_connection_state [of net "fst st"] by (auto simp: on_tcp_def split: prod.splits)
  have 3: "r \<noteq> Undefined_Behaviour \<and> connection (fst st') = connection (fst st)
      \<and> (watch (fst st') = watch (fst st) \<or> watch (fst st') = Some ConnectSent)"
    if "on_tcp (send_connect cd net) st = (r, st')" for r st st'
    using that send_connect_state [of cd net "fst st"] by (auto simp: on_tcp_def split: prod.splits)
  obtain r1 st1 where x1: "on_tcp reset_buffers st = (r1, st1)" by (rule prod.exhaust)
  obtain r2 st2 where x2: "on_tcp (open_connection net) st1 = (r2, st2)" by (rule prod.exhaust)
  obtain r3 st3 where x3: "on_tcp (send_connect cd net) st2 = (r3, st3)" by (rule prod.exhaust)
  from 1 [of st] x1 have s1: "r1 \<noteq> Undefined_Behaviour" "watch (fst st1) = watch (fst st)"
    by (simp_all add: steady2_def)
  note s2 = 2 [OF x2] and s3 = 3 [OF x3]
  show ?thesis
  proof (cases "\<exists>code. (watch (fst st) = None \<or> watch (fst st) = Some ErrorState) \<and> r1 = Ok () \<and> r2 = Ok () \<and> r3 = Ok code")
    case True
    then obtain code where "process_connack cd net code st3 = (r, st')"
      using assms x1 x2 x3 by (auto simp: tcp_connect_def)
    from process_connack_state [OF this] True s1 s2 s3 show ?thesis by (auto split: if_splits)
  next
    case False
    with assms x1 x2 x3 s1 s2 s3 show ?thesis
      by (cases r1; cases r2; cases r3) (auto simp: tcp_connect_def split: if_splits)
  qed
qed

lemma tcp_disconnect_state:
  assumes "tcp_disconnect cd net c = (r, c')"
  shows "r \<noteq> Undefined_Behaviour \<and> (r = Ok () \<longrightarrow> watch c' = Some Disconnected \<and> \<not> connection c')
    \<and> (r \<noteq> Ok () \<longrightarrow> watch c' = watch c)"
proof -
  obtain r1 c1 where x: "send_all net c = (r1, c1)" by (rule prod.exhaust)
  obtain r2 c2 where y: "inherent_try_write_packet cd Disconnect c1 = (r2, c2)" by (rule prod.exhaust)
  obtain r3 c3 where z: "send_all net c2 = (r3, c3)" by (rule prod.exhaust)
  have s: "steady c (r1, c1)" "steady c1 (r2, c2)" "steady c2 (r3, c3)"
    using steady_send_all [of c net] steady_inherent_write [of c1 cd Disconnect] steady_send_all [of c2 net]
    by (simp_all add: x y z)
  show ?thesis
  proof (cases "watch c = Some Connected \<and> r1 = Ok () \<and> r2 = Ok True \<and> r3 = Ok ()")
    case True
    with assms x y z s show ?thesis
      by (auto simp: tcp_disconnect_def require_connection_def set_watch_def steady_def split: if_splits)
  next
    case False
    with assms x y z s show ?thesis
      by (cases r1; cases r2; cases r3) (auto simp: tcp_disconnect_def steady_def split: if_splits)
  qed
qed

end
