(* ===== verification/Tcp_Properties.thy ===== *)
theory Tcp_Properties
  imports Tcp_Session
begin

text \<open>
  The properties of the TCP connection (\<open>src/src/state/connection/mod.rs\<close>).  Their witnesses
  run it over the test network with a codec for the packets of two and four bytes.
\<close>

section \<open>A codec for the witnesses\<close>

definition sample_bytes :: "packet \<Rightarrow> byte list option" where
  "sample_bytes p =
     (case p of
        Pingreq \<Rightarrow> Some [0xC0, 0]
      | Pingresp \<Rightarrow> Some [0xD0, 0]
      | Disconnect \<Rightarrow> Some [0xE0, 0]
      | Connack present code \<Rightarrow> Some [0x20, 2, 0, if code = Accepted then 0 else 5]
      | Connect _ \<Rightarrow> Some [0x10, 0]
      | Puback i \<Rightarrow> Some [0x40, 2, ucast (drop_bit 8 i), ucast i]
      | Pubrec i \<Rightarrow> Some [0x50, 2, ucast (drop_bit 8 i), ucast i]
      | Pubrel i \<Rightarrow> Some [0x62, 2, ucast (drop_bit 8 i), ucast i]
      | Pubcomp i \<Rightarrow> Some [0x70, 2, ucast (drop_bit 8 i), ucast i]
      | Subscribe i topics \<Rightarrow> Some [0x82, 2, ucast (drop_bit 8 i), ucast i]
      | Publish m \<Rightarrow> Some (0x30 # of_nat (length (payload m)) # payload m)
      | _ \<Rightarrow> None)"

definition sample_decode :: "byte list \<Rightarrow> codec_error + (nat \<times> packet) option" where
  "sample_decode bs =
     (if length bs < 2 then Inr None
      else if bs ! 0 = 0xC0 then Inr (Some (2, Pingreq))
      else if bs ! 0 = 0xD0 then Inr (Some (2, Pingresp))
      else if bs ! 0 = 0xE0 then Inr (Some (2, Disconnect))
      else if bs ! 0 = 0x20 then
        (if length bs < 4 then Inr None
         else Inr (Some (4, Connack False (if bs ! 3 = 0 then Accepted else NotAuthorized))))
      else if bs ! 0 = 0x90 then
        (if length bs < 4 then Inr None
         else Inr (Some (4, Suback (word_cat (bs ! 2) (bs ! 3)) [Success AtMostOnce, Success AtLeastOnce])))
      else Inl (OtherCodecError 1))"

definition sample_codec :: codec where
  "sample_codec =
     \<lparr>encode_slice = (\<lambda>p n.
        case sample_bytes p of
          None \<Rightarrow> Inl (OtherCodecError 0)
        | Some bs \<Rightarrow> if length bs \<le> n then Inr bs else Inl WriteZero),
      decode_slice = (\<lambda>bs. map_sum id (map_option snd) (sample_decode bs)),
      decode_slice_with_len = sample_decode, topic_path_size = 256, topics_size = 5\<rparr>"

definition sample_net :: "test_network network_ops" where
  "sample_net = test_net (\<lambda>_. None)"

definition sample_tcp :: "byte list \<Rightarrow> byte list \<Rightarrow> test_network tcp" where
  \<comment> \<open>a connected connection with 4 bytes of buffer, \<open>bs\<close> to send and \<open>rs\<close> on the network\<close>
  "sample_tcp bs rs =
     \<lparr>watch = Some Connected, network = \<lparr>bytes_sent = [], bytes_received = rs\<rparr>, connection = True,
      send_buffer = \<lparr>cell_buffer = \<lparr>data = take 4 (bs @ [0, 0, 0, 0]), read_position = 0,
                                     write_position = length bs\<rparr>, borrows = 0\<rparr>,
      recv_buffer = new_cell 4, tcp_last_will = None,
      tcp_config = new_config (Ip (V4 0)) None [] None\<rparr>"

lemma encodes_as_sample: "sample_bytes p = Some bs \<Longrightarrow> encodes_as sample_codec p bs"
  by (simp add: encodes_as_def sample_codec_def)

lemma sample_stream: "byte_stream sample_net bytes_sent bytes_received"
  unfolding sample_net_def by (rule test.byte_stream_axioms)

section \<open>Receiving\<close>

text \<open>C8: \<open>run_io\<close> over a network that is an ordered byte stream neither loses, repeats nor
  reorders a byte in either direction, whatever its outcome (also when its future is dropped);
  a packet it returns is what the decoder reads off the front of the received bytes, and on an
  open connection whose buffers are free it does not panic.\<close>

theorem run_io_conserves_streams:
  assumes "byte_stream net sent incoming" and "wf_tcp c" and "watch c = Some Connected"
    and "run_io cd net c = (r, c')"
  shows "sent (network c') @ send_queue c' = sent (network c) @ send_queue c
    \<and> recv_queue c' @ incoming (network c') = recv_queue c @ incoming (network c)
    \<and> (\<forall>pk. r = Ok pk \<longrightarrow> decode_slice_with_len cd (recv_queue c') = Inr (Some pk))
    \<and> (connection c \<and> idle c \<longrightarrow> no_panic r)"
  using byte_stream.run_io_lends [OF assms(1,4,3)] assms(2)
  by (cases r)
    (auto simp: byte_stream.lends_def [OF assms(1)] byte_stream.safe_def [OF assms(1)]
      byte_stream.conserves_def [OF assms(1)] ready_def idle_def no_panic_def)

theorem run_io_conserves_streams_witness:
  "\<exists>r c'. run_io sample_codec sample_net (sample_tcp [0xC0, 0] [0xD0, 0]) = (r, c')
    \<and> bytes_sent (network c') @ send_queue c' = [0xC0, 0]
    \<and> recv_queue c' @ bytes_received (network c') = [0xD0, 0] \<and> no_panic r"
proof -
  let ?c = "sample_tcp [0xC0, 0] [0xD0, 0]"
  obtain r c' where r: "run_io sample_codec sample_net ?c = (r, c')"
    by (cases "run_io sample_codec sample_net ?c")
  have "wf_tcp ?c" "watch ?c = Some Connected" "connection ?c" "idle ?c"
    "bytes_sent (network ?c) @ send_queue ?c = [0xC0, 0]"
    "recv_queue ?c @ bytes_received (network ?c) = [0xD0, 0]"
    by (simp_all add: sample_tcp_def wf_tcp_def wf_buffer_def idle_def send_queue_def recv_queue_def
        contents_def new_cell_def new_buffer_def)
  with run_io_conserves_streams [OF sample_stream this(1,2) r] r show ?thesis by simp
qed

section \<open>Writing packets\<close>

lemma trait_write_exact:
  assumes "wf_tcp c" and "borrows (send_buffer c) = 0" and "encodes_as cd p bs"
  shows "\<exists>c'. trait_try_write_packet cd p c = (Ok (length bs \<le> room (cell_buffer (send_buffer c))), c')
    \<and> send_queue c' = send_queue c @ (if length bs \<le> room (cell_buffer (send_buffer c)) then bs else [])
    \<and> wf_tcp c' \<and> network c' = network c \<and> borrows (send_buffer c') = 0
    \<and> send_capacity c' = send_capacity c"
proof -
  let ?b = "cell_buffer (send_buffer c)"
  from assms(1) have wf: "wf_buffer ?b" by (simp add: wf_tcp_def)
  then obtain sl b1 where b1: "writeable_data ?b = Ok (sl, b1)" "wf_buffer b1"
    "contents b1 = contents ?b" "capacity b1 = capacity ?b" "length sl = room ?b"
    by (rule writeable_data_wf)
  note eq = trait_write_idle [OF assms(2), of cd p]
  show ?thesis
  proof (cases "length bs \<le> room ?b")
    case True
    from prepared_store(1) [OF wf b1(1), of bs] True b1(5) obtain b2 where
      "store bs b1 = Ok b2" "wf_buffer b2" "contents b2 = contents ?b @ bs" "capacity b2 = capacity ?b"
      by auto
    with eq b1 True assms show ?thesis
      by (simp add: encodes_as_def send_queue_def send_capacity_def wf_tcp_def)
  next
    case False
    with eq b1 assms show ?thesis
      by (simp add: encodes_as_def send_queue_def send_capacity_def wf_tcp_def)
  qed
qed

lemma sample_tcp_simps:
  "length bs \<le> 4 \<Longrightarrow> wf_tcp (sample_tcp bs rs)" "idle (sample_tcp bs rs)"
  "borrows (send_buffer (sample_tcp bs rs)) = 0" "connection (sample_tcp bs rs)"
  "length bs \<le> 4 \<Longrightarrow> send_queue (sample_tcp bs rs) = bs"
  "length bs \<le> 4 \<Longrightarrow> send_capacity (sample_tcp bs rs) = 4"
  "length bs < 4 \<Longrightarrow> room (cell_buffer (send_buffer (sample_tcp bs rs))) = 4 - length bs"
  "sent_bytes = bytes_sent \<Longrightarrow> sent_bytes (network (sample_tcp bs rs)) = []"
  by (simp_all add: sample_tcp_def wf_tcp_def wf_buffer_def idle_def send_queue_def send_capacity_def
      contents_def capacity_def room_def new_cell_def new_buffer_def)

lemma inherent_write_exact:
  assumes "wf_tcp c" and "borrows (send_buffer c) = 0" and "encodes_as cd p bs"
  shows "\<exists>r c'. inherent_try_write_packet cd p c = (r, c')
    \<and> r = (if length (send_queue c) + length bs \<le> send_capacity c then Ok True
           else if send_queue c = [] then Err BufferTooSmall else Ok False)
    \<and> send_queue c' = send_queue c @ (if r = Ok True then bs else [])
    \<and> wf_tcp c' \<and> network c' = network c \<and> borrows (send_buffer c') = 0
    \<and> send_capacity c' = send_capacity c"
proof -
  let ?b = "cell_buffer (send_buffer c)"
  from assms(1) have wf: "wf_buffer ?b" by (simp add: wf_tcp_def)
  then obtain b0 where b0: "flip ?b = Ok b0" "wf_buffer b0" "contents b0 = contents ?b"
    "capacity b0 = capacity ?b" "read_position b0 = 0" "write_position b0 = length (contents ?b)"
    by (rule flip_wf)
  from b0(2) obtain sl b1 where b1: "writeable_data b0 = Ok (sl, b1)" "wf_buffer b1"
    "contents b1 = contents b0" "capacity b1 = capacity b0" "length sl = room b0"
    "write_position b1 + room b0 = capacity b0"
    by (rule writeable_data_wf)
  have le: "length (contents ?b) \<le> capacity ?b" using wf by (rule length_contents_le)
  from b0 have room: "room b0 = capacity ?b - length (contents ?b)"
    by (auto simp: room_def capacity_def)
  with b1(6) b0(4) le have "write_position b1 = length (contents ?b)" by linarith
  then have max: "is_max_capacity b1 \<longleftrightarrow> contents ?b = []" by (simp add: is_max_capacity_def)
  have fits: "length bs \<le> length sl \<longleftrightarrow> length (contents ?b) + length bs \<le> capacity ?b"
    using room b1(5) le by auto
  show ?thesis
  proof (cases "length bs \<le> length sl")
    case True
    from prepared_store(1) [OF b0(2) b1(1) True] obtain b2 where
      "store bs b1 = Ok b2" "wf_buffer b2" "contents b2 = contents ?b @ bs" "capacity b2 = capacity ?b"
      by (auto simp: b0)
    with b0 b1 True fits assms show ?thesis
      by (simp add: inherent_try_write_packet_def with_send_buffer_def cell_borrow_def bufref_drop_def
          on_send_def unit_step_def encodes_as_def send_queue_def send_capacity_def wf_tcp_def)
  next
    case False
    with b0 b1 fits max assms show ?thesis
      by (simp add: inherent_try_write_packet_def with_send_buffer_def cell_borrow_def bufref_drop_def
          on_send_def unit_step_def encodes_as_def send_queue_def send_capacity_def wf_tcp_def)
  qed
qed

text \<open>C22: the two \<open>try_write_packet\<close> methods, the inherent one and that of the trait, are equivalent while no
  sent bytes lie in front of the buffer, or when the packet fits behind the write position: they take
  the same packets and leave the same bytes to send.  They differ only in that an empty buffer
  too small for the packet is an error of the first and \<open>false\<close> of the second.\<close>

theorem write_methods_agree:
  assumes "wf_tcp c" and "borrows (send_buffer c) = 0" and "encodes_as cd p bs"
    and "read_position (cell_buffer (send_buffer c)) = 0 \<or> length bs \<le> room (cell_buffer (send_buffer c))"
  shows "\<exists>taken c1 r c2. trait_try_write_packet cd p c = (Ok taken, c1) \<and> inherent_try_write_packet cd p c = (r, c2)
    \<and> r = (if taken then Ok True else if send_queue c = [] then Err BufferTooSmall else Ok False)
    \<and> send_queue c1 = send_queue c2 \<and> network c1 = network c2"
proof -
  let ?b = "cell_buffer (send_buffer c)"
  have "length bs \<le> room ?b \<longleftrightarrow> length (send_queue c) + length bs \<le> send_capacity c"
    using assms(1,4) by (auto simp: wf_tcp_def wf_buffer_def room_def send_queue_def send_capacity_def contents_def capacity_def)
  with trait_write_exact [OF assms(1-3)] inherent_write_exact [OF assms(1-3)] show ?thesis by (elim exE conjE) auto
qed

theorem write_methods_agree_witness:
  "\<exists>c1 c2. trait_try_write_packet sample_codec Pingreq (sample_tcp [1, 2, 3] []) = (Ok False, c1)
    \<and> inherent_try_write_packet sample_codec Pingreq (sample_tcp [1, 2, 3] []) = (Ok False, c2)
    \<and> send_queue c1 = send_queue c2"
proof -
  let ?c = "sample_tcp [1, 2, 3] []"
  have f: "fst (trait_try_write_packet sample_codec Pingreq ?c) = Ok False" by code_simp
  have r: "read_position (cell_buffer (send_buffer ?c)) = 0" by (simp add: sample_tcp_def)
  have e: "encodes_as sample_codec Pingreq [0xC0, 0]" by (rule encodes_as_sample) (simp add: sample_bytes_def)
  from write_methods_agree [of ?c, OF _ _ e] r f show ?thesis by (auto simp: sample_tcp_simps)
qed

text \<open>C38: once everything is sent, the protocol components' \<open>try_write_packet\<close> takes a packet that fits the send
  buffer in two cases only: when the write position is at the end of the array, where \<open>writeable_data\<close> moves
  it back to the front, or when the packet fits behind it.  In between it refuses the packet and changes
  nothing, and sending changes nothing either, so that every later attempt is refused too, however
  often sending and writing are repeated.  The inherent method takes the packet in all cases.\<close>

theorem trait_write_starves:
  assumes "wf_tcp c" and "borrows (send_buffer c) = 0" and "encodes_as cd p bs"
    and "send_queue c = []" and "length bs \<le> send_capacity c"
  shows "(\<exists>c'. inherent_try_write_packet cd p c = (Ok True, c'))
    \<and> (if write_position (cell_buffer (send_buffer c)) = send_capacity c
          \<or> length bs \<le> send_capacity c - write_position (cell_buffer (send_buffer c))
       then \<exists>c'. trait_try_write_packet cd p c = (Ok True, c')
       else trait_try_write_packet cd p c = (Ok False, c) \<and> tcp_send net c = (Ok (), c)
         \<and> (((\<lambda>c. snd (trait_try_write_packet cd p (snd (tcp_send net c)))) ^^ k) c = c))"
proof -
  let ?b = "cell_buffer (send_buffer c)"
  from assms(1) have wf: "wf_buffer ?b" by (simp add: wf_tcp_def)
  have inh: "\<exists>c'. inherent_try_write_packet cd p c = (Ok True, c')"
    using inherent_write_exact [OF assms(1,2,3)] assms(4,5) by auto
  have room: "room ?b = (if write_position ?b = send_capacity c then send_capacity c else send_capacity c - write_position ?b)"
    using assms(4) wf by (auto simp: room_def send_capacity_def capacity_def send_queue_def contents_def wf_buffer_def)
  show ?thesis
  proof (cases "length bs \<le> room ?b")
    case True
    then have "\<exists>c'. trait_try_write_packet cd p c = (Ok True, c')"
      using trait_write_exact [OF assms(1-3)] by auto
    with True room inh assms(5) show ?thesis by (auto split: if_splits)
  next
    case False
    with room assms(5) have pos: "write_position ?b \<noteq> send_capacity c" "\<not> length bs \<le> send_capacity c - write_position ?b"
      by (auto split: if_splits)
    with wf have w: "writeable_data ?b = Ok (drop (write_position ?b) (data ?b), ?b)"
      by (auto simp: writeable_data_def send_capacity_def capacity_def wf_buffer_def)
    have same: "set_send ?b c = c" by (simp add: set_send_def)
    from w assms(2,3) False pos same have t: "trait_try_write_packet cd p c = (Ok False, c)"
      by (simp add: trait_write_idle encodes_as_def send_capacity_def capacity_def)
    have "tcp_send net c = (Ok (), c)"
      using assms(2,4) wf
      by (simp add: tcp_send_def with_send_buffer_def cell_borrow_def bufref_drop_def
          has_remaining_len_wf send_queue_def)
    moreover from this t have "((\<lambda>c. snd (trait_try_write_packet cd p (snd (tcp_send net c)))) ^^ k) c = c"
      by (induction k) simp_all
    ultimately show ?thesis using t pos inh by simp
  qed
qed

definition drained_tcp :: "test_network tcp" where
  "drained_tcp = (sample_tcp [1, 2, 3] [])
     \<lparr>send_buffer := \<lparr>cell_buffer = \<lparr>data = [1, 2, 3, 0], read_position = 3, write_position = 3\<rparr>,
                      borrows = 0\<rparr>\<rparr>"

theorem trait_write_starves_witness:
  "trait_try_write_packet sample_codec Pingreq drained_tcp = (Ok False, drained_tcp)
    \<and> tcp_send sample_net drained_tcp = (Ok (), drained_tcp)
    \<and> (\<exists>c'. inherent_try_write_packet sample_codec Pingreq drained_tcp = (Ok True, c'))"
proof -
  have e: "encodes_as sample_codec Pingreq [0xC0, 0]" by (rule encodes_as_sample) (simp add: sample_bytes_def)
  have d: "wf_tcp drained_tcp" "borrows (send_buffer drained_tcp) = 0" "send_queue drained_tcp = []" "send_capacity drained_tcp = 4"
    "write_position (cell_buffer (send_buffer drained_tcp)) = 3"
    by (simp_all add: drained_tcp_def sample_tcp_def wf_tcp_def wf_buffer_def send_queue_def contents_def
        send_capacity_def capacity_def new_cell_def new_buffer_def)
  from trait_write_starves [OF d(1,2) e d(3), of sample_net 0] d(4,5) show ?thesis by simp
qed

section \<open>Sending everything\<close>

lemma write_readable_progress:
  assumes stream: "byte_stream net sent incoming" and wf: "wf_tcp c" and q: "send_queue c \<noteq> []"
    and w: "write_readable net c = (r, c1)"
  shows "r \<noteq> Diverges \<and> (\<forall>k. r = Ok k \<longrightarrow> length (send_queue c1) < length (send_queue c))"
proof -
  let ?q = "contents (cell_buffer (send_buffer c))"
  from wf have wfb: "wf_buffer (cell_buffer (send_buffer c))" by (simp add: wf_tcp_def)
  obtain x n where x: "nw_write net ?q (network c) = (x, n)" by (cases "nw_write net ?q (network c)")
  show ?thesis
  proof (cases "\<exists>k. x = Some (Inr k)")
    case True
    then obtain k where k: "x = Some (Inr k)" by blast
    with byte_stream.wrote [OF stream x [unfolded k]] q have n: "0 < k" "k \<le> length ?q"
      by (auto simp: send_queue_def)
    from sb.discard [OF wfb n(2)] obtain b where "consume k (cell_buffer (send_buffer c)) = Ok b"
      "contents b = drop k ?q" by auto
    with w x k n q wfb show ?thesis
      by (auto simp: write_readable_def on_send_def look_def unit_step_def reaable_data_wf
          network_result_def send_queue_def)
  next
    case False
    with w x wfb show ?thesis
      by (auto simp: write_readable_def on_send_def look_def unit_step_def reaable_data_wf
          network_result_def split: option.splits sum.splits)
  qed
qed

lemma flush_outcome:
  "network_result (nw_flush net) c = (r, c') \<Longrightarrow> r \<noteq> Diverges \<and> send_queue c' = send_queue c"
  by (auto simp: network_result_def send_queue_def split: prod.splits option.splits sum.splits)

lemma send_all_exact:
  assumes stream: "byte_stream net sent incoming" and "wf_tcp c" and "connection c"
    and idle: "borrows (send_buffer c) = 0" and run: "send_all net c = (r, c')"
  shows "no_panic r \<and> r \<noteq> Diverges
    \<and> (r = Ok () \<longrightarrow> send_queue c' = [] \<and> sent (network c') = sent (network c) @ send_queue c)"
proof -
  have safe: "byte_stream.safe sent incoming True False c (r, c')"
    using byte_stream.safe_send_all [OF stream, of False c] run by simp
  with assms(2-4) have cons: "sent (network c') @ send_queue c' = sent (network c) @ send_queue c"
    and np: "no_panic r"
    by (auto simp: byte_stream.safe_def [OF stream] byte_stream.conserves_def [OF stream] ready_def)
  let ?c = "c\<lparr>send_buffer := (send_buffer c)\<lparr>borrows := 1\<rparr>\<rparr>"
  let ?body = "\<lambda>c. if has_remaining_len (cell_buffer (send_buffer c))
    then and_then (write_readable net c) (\<lambda>_ c. (Ok None, c)) else (Ok (Some ()), c)"
  let ?Q = "\<lambda>r c'. r \<noteq> Diverges \<and> (r = Ok () \<longrightarrow> send_queue c' = [])"
  have "?Q (fst (run_loop ?body ?c)) (snd (run_loop ?body ?c))"
  proof (rule run_loop_terminates [where I = wf_tcp and m = "\<lambda>c. length (send_queue c)"])
    show "wf_tcp ?c" using assms(2) by (simp add: wf_tcp_def)
  next
    fix s s' assume wf: "wf_tcp s" and b: "?body s = (Ok None, s')"
    then have q: "has_remaining_len (cell_buffer (send_buffer s))" by (simp split: if_splits)
    with b obtain k where w: "write_readable net s = (Ok k, s')" by (auto simp: and_then_Ok)
    from byte_stream.safe_write_readable [OF stream q, of False False] w wf have "wf_tcp s'"
      by (simp add: byte_stream.safe_def [OF stream] byte_stream.conserves_def [OF stream])
    moreover have "send_queue s \<noteq> []" using q wf
      by (simp add: send_queue_def has_remaining_len_wf wf_tcp_def)
    ultimately show "wf_tcp s' \<and> length (send_queue s') < length (send_queue s)"
      using write_readable_progress [OF stream wf _ w] by simp
  next
    fix s s' r assume wf: "wf_tcp s" and b: "?body s = (r, s')" and r: "r \<noteq> Ok None"
    show "?Q (leave r) s'"
    proof (cases "has_remaining_len (cell_buffer (send_buffer s))")
      case True
      then have "send_queue s \<noteq> []" using wf
        by (simp add: send_queue_def has_remaining_len_wf wf_tcp_def)
      obtain x s1 where x: "write_readable net s = (x, s1)" by (cases "write_readable net s")
      from write_readable_progress [OF stream wf \<open>send_queue s \<noteq> []\<close> x] have "x \<noteq> Diverges" by simp
      with True b r x show ?thesis by (cases x) auto
    next
      case False
      with b wf show ?thesis by (auto simp: send_queue_def has_remaining_len_wf wf_tcp_def)
    qed
  qed
  then obtain r1 c1 where r1: "run_loop ?body ?c = (r1, c1)" "?Q r1 c1" by (cases "run_loop ?body ?c") auto
  obtain r2 c2 where r2: "network_result (nw_flush net) c1 = (r2, c2)"
    by (cases "network_result (nw_flush net) c1")
  from r1 r2 run idle assms(3) flush_outcome [OF r2]
  have "r \<noteq> Diverges" "r = Ok () \<longrightarrow> send_queue c' = []"
    by (cases r1; cases r2;
      auto simp: send_all_def require_connection_def send_all_intern_def with_send_buffer_def
        cell_borrow_def bufref_drop_def send_queue_def split: if_splits)+
  with np cons show ?thesis by auto
qed


section \<open>Disconnecting\<close>

text \<open>A network that neither fails nor keeps the client waiting.\<close>

definition reliable :: "'n network_ops \<Rightarrow> bool" where
  "reliable net \<longleftrightarrow> (\<forall>bs n. \<exists>k n'. nw_write net bs n = (Some (Inr k), n'))
     \<and> (\<forall>n. \<exists>n'. nw_flush net n = (Some (Inr ()), n'))"

definition completes :: "'a outcome \<Rightarrow> bool" where
  "completes r \<longleftrightarrow> (\<forall>e. r \<noteq> Err e) \<and> r \<noteq> Pending"

lemma completes_and_then:
  assumes "completes (fst x)" and "\<And>v c1. x = (Ok v, c1) \<Longrightarrow> completes (fst (f v c1))"
  shows "completes (fst (and_then x f))"
  using assms by (cases "(x, f)" rule: and_then.cases) (auto simp: completes_def)

lemma obind_completes: "completes r \<Longrightarrow> (\<And>v. completes (f v)) \<Longrightarrow> completes (obind r f)"
  by (cases r) (auto simp: completes_def)

lemma completes_simps [simp]: "completes (Ok v)" "completes Panic" "completes Diverges" "completes Undefined_Behaviour"
  by (simp_all add: completes_def)

lemma completes_on_send: "completes (f (cell_buffer (send_buffer c))) \<Longrightarrow> completes (fst (on_send f c))"
  by (auto simp: on_send_def intro!: completes_and_then)

lemma write_readable_completes:
  assumes "reliable net"
  shows "completes (fst (write_readable net c))"
proof -
  have "completes (look reaable_data b)" "completes (unit_step (consume k) b)" for b k
    by (auto simp: look_def unit_step_def reaable_data_def consume_def add_bytes_read_def intro!: obind_completes)
  moreover have "completes (fst (network_result (nw_write net bs) c))" for bs c
  proof -
    obtain k n' where "nw_write net bs (network c) = (Some (Inr k), n')" using assms unfolding reliable_def by blast
    then show ?thesis by (simp add: network_result_def)
  qed
  ultimately show ?thesis unfolding write_readable_def by (intro completes_and_then completes_on_send) auto
qed

lemma completes_run_loop:
  assumes "\<And>c. completes (fst (body c))"
  shows "completes (fst (run_loop body c))"
proof (rule run_loop_rel [where R = "\<lambda>_ _. True" and Q = "\<lambda>_ r _. completes r"])
  fix s s' r assume "body s = (r, s')"
  with assms [of s] show "completes (leave r)" by (cases r rule: leave.cases) (auto simp: completes_def)
qed auto

lemma completes_with_send:
  assumes "\<And>c. completes (fst (f c))"
  shows "completes (fst (with_send_buffer f c))"
proof (cases "cell_borrow (send_buffer c)")
  case (Ok cell)
  obtain r c1 where "f (c\<lparr>send_buffer := cell\<rparr>) = (r, c1)" by (rule prod.exhaust)
  with assms [of "c\<lparr>send_buffer := cell\<rparr>"] Ok show ?thesis
    by (simp add: with_send_buffer_def bufref_drop_def)
qed (simp_all add: with_send_buffer_def cell_borrow_def split: if_splits)

lemma send_all_completes:
  assumes "reliable net"
  shows "completes (fst (send_all net c))"
proof -
  have "completes (fst (network_result (nw_flush net) c))" for c
  proof -
    obtain n' where "nw_flush net (network c) = (Some (Inr ()), n')" using assms unfolding reliable_def by blast
    then show ?thesis by (simp add: network_result_def)
  qed
  then show ?thesis
    unfolding send_all_def send_all_intern_def require_connection_def
    by (intro completes_and_then completes_with_send completes_run_loop)
      (auto intro!: completes_and_then write_readable_completes [OF assms])
qed

lemma send_all_reliable:
  assumes "byte_stream net sent incoming" and "reliable net" and "wf_tcp c" and "connection c"
    and "borrows (send_buffer c) = 0"
  obtains c' where "send_all net c = (Ok (), c')" "send_queue c' = []"
    "sent (network c') = sent (network c) @ send_queue c"
    "wf_tcp c'" "connection c'" "borrows (send_buffer c') = 0" "send_capacity c' = send_capacity c" "watch c' = watch c"
proof -
  obtain r c' where x: "send_all net c = (r, c')" by (rule prod.exhaust)
  from send_all_exact [OF assms(1,3,4,5) x] send_all_completes [OF assms(2), of c] x
  have "r = Ok ()" by (cases r) (auto simp: completes_def)
  moreover have "byte_stream.conserves sent incoming 0 c c'"
    using byte_stream.safe_send_all [OF assms(1), of False c] x assms(3)
    by (simp add: byte_stream.safe_def [OF assms(1)])
  ultimately show ?thesis
    using that [of c'] x send_all_exact [OF assms(1,3,4,5) x] assms(4,5)
    by (simp add: byte_stream.conserves_def [OF assms(1)] same_setup_def)
qed

lemma disconnect_reliable:
  assumes "byte_stream net sent incoming" and "reliable net" and "wf_tcp c" and "connection c"
    and "borrows (send_buffer c) = 0" and "watch c = Some Connected"
    and "encodes_as cd Disconnect bs" and "length bs \<le> send_capacity c"
  obtains c' where "tcp_disconnect cd net c = (Ok (), c')" "send_queue c' = []"
    "sent (network c') = sent (network c) @ send_queue c @ bs"
proof -
  obtain c1 where c1: "send_all net c = (Ok (), c1)" "send_queue c1 = []"
    "sent (network c1) = sent (network c) @ send_queue c" "wf_tcp c1" "connection c1"
    "borrows (send_buffer c1) = 0" "send_capacity c1 = send_capacity c" "watch c1 = watch c"
    using assms(1-5) by (rule send_all_reliable)
  from inherent_write_exact [OF c1(4,6) assms(7)] c1 assms(8) obtain c2 where
    c2: "inherent_try_write_packet cd Disconnect c1 = (Ok True, c2)" "send_queue c2 = bs" "wf_tcp c2"
    "network c2 = network c1" "borrows (send_buffer c2) = 0" by auto
  from steady_inherent_write [of c1 cd Disconnect] c2(1) c1 have "connection c2" by (simp add: steady_def)
  with c2 obtain c3 where c3: "send_all net c2 = (Ok (), c3)" "send_queue c3 = []"
    "sent (network c3) = sent (network c2) @ bs" "connection c3"
    using send_all_reliable [OF assms(1,2), of c2] by metis
  with c1 c2 assms(6) have "tcp_disconnect cd net c = (Ok (), set_watch Disconnected (c3\<lparr>connection := False\<rparr>))"
    by (simp add: tcp_disconnect_def require_connection_def)
  with c1 c2 c3 that show ?thesis by (auto simp: set_watch_def send_queue_def)
qed

text \<open>C21: \<open>disconnect\<close> on a network that works comes to an end and delivers everything: first the bytes
  still in the send buffer, then the DISCONNECT packet as the last one; the connection is then
  closed and the state Disconnected.  In particular the DISCONNECT packet always finds room
  in the send buffer.\<close>

theorem disconnect_sends_everything:
  assumes "byte_stream net sent incoming" and "reliable net" and "wf_tcp c" and "connection c"
    and "borrows (send_buffer c) = 0" and "watch c = Some Connected"
    and "encodes_as cd Disconnect bs" and "length bs \<le> send_capacity c"
  shows "\<exists>c'. tcp_disconnect cd net c = (Ok (), c') \<and> send_queue c' = []
    \<and> sent (network c') = sent (network c) @ send_queue c @ bs
    \<and> watch c' = Some Disconnected \<and> \<not> connection c'"
proof -
  from assms obtain c' where "tcp_disconnect cd net c = (Ok (), c')" "send_queue c' = []"
    "sent (network c') = sent (network c) @ send_queue c @ bs" by (rule disconnect_reliable)
  with tcp_disconnect_state show ?thesis by blast
qed

lemma sample_reliable: "reliable sample_net"
  by (simp add: reliable_def sample_net_def test_net_def test_write_def test_flush_def)

lemma sample_tcp_connected:
  "watch (sample_tcp bs rs) = Some Connected" "bytes_sent (network (sample_tcp bs rs)) = []"
  by (simp_all add: sample_tcp_def)

theorem disconnect_sends_everything_witness:
  "\<exists>c'. tcp_disconnect sample_codec sample_net (sample_tcp [0xC0, 0] []) = (Ok (), c')
    \<and> bytes_sent (network c') = [0xC0, 0, 0xE0, 0]"
  using disconnect_sends_everything [OF sample_stream sample_reliable _ _ _ _ encodes_as_sample,
      of "sample_tcp [0xC0, 0] []" "[0xE0, 0]"]
  by (auto simp: sample_tcp_simps sample_tcp_connected sample_bytes_def)

section \<open>The end of the stream\<close>

lemma read_nothing:
  assumes "wf_tcp c" and "borrows (recv_buffer c) = 0"
    and "\<And>len. nw_read net len (network c) = (Some (Inr []), network c)"
  shows "\<exists>c'. with_recv_buffer (read_writeable net) c = (Ok 0, c') \<and> wf_tcp c'
    \<and> borrows (recv_buffer c') = 0 \<and> network c' = network c \<and> recv_queue c' = recv_queue c
    \<and> recv_capacity c' = recv_capacity c"
proof -
  let ?b = "cell_buffer (recv_buffer c)"
  from assms(1) have wf: "wf_buffer ?b" by (simp add: wf_tcp_def)
  from sb.prepare [OF wf] obtain sl b1 where b1: "writeable_data ?b = Ok (sl, b1)" "wf_buffer b1"
    "contents b1 = contents ?b" "capacity b1 = capacity ?b" by blast
  from sb.put [OF b1(2), of "[]"] obtain b2 where "store [] b1 = Ok b2" "wf_buffer b2"
    "contents b2 = contents b1" "capacity b2 = capacity b1" by auto
  with b1 assms show ?thesis
    by (simp add: with_recv_buffer_def cell_borrow_def bufref_drop_def read_writeable_def on_recv_def
        unit_step_def network_result_def wf_tcp_def recv_queue_def recv_capacity_def)
qed

text \<open>C40: a read of 0 bytes, which is how the network reports that the broker closed the
  connection, is taken for a read that has to be repeated: with an incomplete packet in the
  buffer \<open>read_packet\<close> then loops forever instead of failing.\<close>

theorem read_packet_loops_at_end_of_stream:
  assumes "wf_tcp c" and "connection c" and "borrows (recv_buffer c) = 0"
    and eof: "\<forall>len. nw_read net len (network c) = (Some (Inr []), network c)"
    and more: "decode_slice_with_len cd (recv_queue c) = Inr None"
    and "length (recv_queue c) < recv_capacity c"
  shows "fst (read_packet cd net c) = Diverges"
proof -
  let ?body = "\<lambda>c. and_then (try_read_packet cd c) (\<lambda>r c. case r of Some packet \<Rightarrow> (Ok (Some packet), c)
    | None \<Rightarrow> and_then (with_recv_buffer (read_writeable net) c) (\<lambda>_ c. (Ok None, c)))"
  let ?I = "\<lambda>s. wf_tcp s \<and> borrows (recv_buffer s) = 0 \<and> network s = network c
    \<and> recv_queue s = recv_queue c \<and> recv_capacity s = recv_capacity c"
  have round: "\<exists>s'. ?body s = (Ok None, s') \<and> ?I s'" if I: "?I s" for s
  proof -
    from I have "try_read_packet cd s = (Ok None, s)"
      using try_read_packet_wf [of s cd] more assms(6) by (simp add: wf_tcp_def)
    with I eof read_nothing [of s net] show ?thesis by auto
  qed
  have "loop_result ?body c = None"
  proof (cases "loop_result ?body c")
    case (Some x)
    then obtain r s' where x: "loop_result ?body c = Some (r, s')" by (cases x) auto
    have False
    proof (rule loop_result_partial [OF x, where I = ?I and Q = "\<lambda>_ _. False"])
      show "?I c" using assms by simp
    next
      fix s s' assume "?I s" "?body s = (Ok None, s')"
      then show "?I s'" using round [of s] by auto
    next
      fix s r s' assume "?I s" "?body s = (r, s')" "r \<noteq> Ok None"
      then show False using round [of s] by auto
    qed
    then show ?thesis ..
  qed simp
  with assms(2) show ?thesis
    by (simp add: read_packet_def require_connection_def run_loop_def)
qed

definition closed_net :: "test_network network_ops" where
  "closed_net = sample_net\<lparr>nw_read := (\<lambda>_ n. (Some (Inr []), n))\<rparr>"

theorem read_packet_loops_at_end_of_stream_witness:
  "fst (read_packet sample_codec closed_net (sample_tcp [] [])) = Diverges"
  by (rule read_packet_loops_at_end_of_stream)
    (simp_all add: closed_net_def sample_tcp_def wf_tcp_def wf_buffer_def recv_queue_def contents_def
      recv_capacity_def capacity_def new_cell_def new_buffer_def sample_codec_def sample_decode_def)

end
