(* ===== verification/Receive_Properties.thy ===== *)
theory Receive_Properties
  imports Receive_In Tcp_Properties
begin

text \<open>
  The properties of incoming publishes (\<open>src/src/state/receives2.rs\<close>): which messages reach the
  subscribers, which acknowledgements are sent and what is left to acknowledge.
\<close>

section \<open>Sending acknowledgements\<close>

text \<open>C26: \<open>send_packets\<close> loses, repeats and invents no acknowledgement, whatever its outcome: on
  the connection go PUBACKs, then PUBRECs, then PUBCOMPs, each group in queue order; what was
  queued is what was sent plus what stays queued, every PUBREC sent moves its identifier to the
  end of the PUBREL queue, which never exceeds its capacity, and nothing else changes.\<close>

theorem acks_conserved:
  assumes "length (await_pubrel s) \<le> QUEUE n"
    and "receives_send_packets (tcp_ops cd clock) n (s, w) = (r, s', w')"
  shows "\<exists>as rs cs. tcp_emits cd (env w) (map Puback as @ map Pubrec rs @ map Pubcomp cs) (env w')
    \<and> subseq as (send_puback s) \<and> subseq rs (send_pubrec s) \<and> subseq cs (send_pubcomp s)
    \<and> mset (send_puback s) = mset as + mset (send_puback s')
    \<and> mset (send_pubrec s) = mset rs + mset (send_pubrec s')
    \<and> mset (send_pubcomp s) = mset cs + mset (send_pubcomp s')
    \<and> await_pubrel s' = await_pubrel s @ rs \<and> length (await_pubrel s') \<le> QUEUE n \<and> quiet w w'"
  using tcp.receives_send_general [OF assms(2,1)] unfolding tcp.emitted_def by fastforce

definition sample_sizes :: sizes where
  "sample_sizes = \<lparr>QUEUE = 4, BUFFER = 8, TOPIC = 8\<rparr>"

definition sample_world :: "'e \<Rightarrow> 'e world" where
  "sample_world e = \<lparr>pid_static = new_pid_pool, event_log = [], received_log = [], env = e\<rparr>"

definition tick :: "nat \<Rightarrow> instant \<times> nat" where
  "tick t = (t, t + 1)"

theorem acks_conserved_witness:
  "\<exists>r s' w'. receives_send_packets (tcp_ops sample_codec tick) sample_sizes
      (new_receives\<lparr>send_puback := [7]\<rparr>, sample_world (sample_tcp [] [], 0)) = (r, s', w')
    \<and> length (await_pubrel s') \<le> 4"
proof -
  let ?s = "new_receives\<lparr>send_puback := [7]\<rparr>" and ?w = "sample_world (sample_tcp [] [], 0)"
  obtain r s' w' where r: "receives_send_packets (tcp_ops sample_codec tick) sample_sizes (?s, ?w) = (r, s', w')"
    by (rule prod_cases3)
  from acks_conserved [OF _ r] have "length (await_pubrel s') \<le> QUEUE sample_sizes"
    by (auto simp: new_receives_def)
  with r show ?thesis by (auto simp: sample_sizes_def)
qed

text \<open>C37: when \<open>send_packets\<close> reports that it sent all pending packets, every second PUBACK and
  every second PUBCOMP is still queued: of \<open>k\<close> queued acknowledgements \<open>k div 2\<close> are left.\<close>

theorem sent_all_leaves_every_second:
  assumes "length (await_pubrel s) \<le> QUEUE n"
    and "receives_send_packets (tcp_ops cd clock) n (s, w) = (Ok SentAll, s', w')"
  shows "send_puback s' = skipped (send_puback s) \<and> send_pubcomp s' = skipped (send_pubcomp s)
    \<and> length (send_puback s') = length (send_puback s) div 2
    \<and> length (send_pubcomp s') = length (send_pubcomp s) div 2"
  using tcp.receives_send_general [OF assms(2,1)] by (auto simp: length_skipped)

lemmas ack_eval = receives_send_packets_def send_pubacks.simps send_pubrecs.simps send_pubcomps.simps
  try_write_def vec_remove_def new_receives_def sample_world_def sample_codec_def sample_bytes_def

lemma trait_write_fresh:
  \<comment> \<open>a packet that fits the empty buffer of 4 bytes\<close>
  "sample_bytes p = Some bs \<Longrightarrow> length bs \<le> 4 \<Longrightarrow>
    \<exists>c. trait_try_write_packet sample_codec p (sample_tcp [] rs) = (Ok True, c)"
  using trait_write_exact
    [OF sample_tcp_simps(1,3) encodes_as_sample, of "[]" p bs rs]
  by (auto simp: sample_tcp_simps)

lemma two_acks_sent:
  "\<exists>w'. receives_send_packets (tcp_ops sample_codec tick) sample_sizes
      (new_receives\<lparr>send_puback := [7, 8]\<rparr>, sample_world (sample_tcp [] [], 0))
    = (Ok SentAll, new_receives\<lparr>send_puback := [8]\<rparr>, w')"
  using trait_write_fresh [of "Puback 7" _ "[]"]
  by (auto simp: tcp_ops_def ack_eval)

theorem sent_all_leaves_every_second_witness:
  "\<exists>s' w'. receives_send_packets (tcp_ops sample_codec tick) sample_sizes
      (new_receives\<lparr>send_puback := [7, 8]\<rparr>, sample_world (sample_tcp [] [], 0)) = (Ok SentAll, s', w')
    \<and> send_puback s' = [8]"
  using two_acks_sent sent_all_leaves_every_second [of "new_receives\<lparr>send_puback := [7, 8]\<rparr>" sample_sizes]
  by (fastforce simp: new_receives_def)

section \<open>Exactly once\<close>

text \<open>The events that reach the component: a PUBLISH or a PUBREL was received, or it is time to
  send.  The errors an event may return leave the state it reached.\<close>

datatype rx_event = Rx_publish publish | Rx_pubrel pid | Rx_send

fun rx_step :: "'e ops \<Rightarrow> sizes \<Rightarrow> rx_event \<Rightarrow> receives_inner \<times> 'e world \<Rightarrow> receives_inner \<times> 'e world" where
  "rx_step ops n (Rx_publish p) st = snd (on_publish n p st)"
| "rx_step ops n (Rx_pubrel pid) st = snd (on_pubrel n pid st)"
| "rx_step ops n Rx_send st = snd (receives_send_packets ops n st)"

definition rx_run :: "'e ops \<Rightarrow> sizes \<Rightarrow> rx_event list \<Rightarrow> receives_inner \<times> 'e world \<Rightarrow> receives_inner \<times> 'e world" where
  "rx_run ops n evs st = fold (rx_step ops n) evs st"

definition receives_inv :: "sizes \<Rightarrow> receives_inner \<Rightarrow> bool" where
  "receives_inv n s \<longleftrightarrow> length (send_puback s) \<le> QUEUE n \<and> length (send_pubrec s) \<le> QUEUE n
     \<and> length (await_pubrel s) \<le> QUEUE n \<and> length (send_pubcomp s) \<le> QUEUE n"

definition holds :: "pid \<Rightarrow> receives_inner \<Rightarrow> bool" where
  \<comment> \<open>the identifier waits for its PUBREC to be sent or for the PUBREL\<close>
  "holds pid s \<longleftrightarrow> pid \<in> set (send_pubrec s) \<or> pid \<in> set (await_pubrel s)"

definition delivered :: "pid \<Rightarrow> 'e world \<Rightarrow> received_publish list" where
  "delivered pid w = filter (\<lambda>m. rp_qospid m = QP_ExactlyOnce pid) (received_log w)"

definition fits :: "sizes \<Rightarrow> publish \<Rightarrow> bool" where
  "fits n p \<longleftrightarrow> length (topic_name p) \<le> TOPIC n \<and> length (payload p) \<le> BUFFER n"

definition message :: "publish \<Rightarrow> received_publish" where
  "message p = \<lparr>rp_dup = dup p, rp_qospid = qospid p, rp_retain = retain p,
     rp_topic_name = topic_name p, rp_payload = payload p\<rparr>"

lemma received_try_from_eq:
  "received_try_from n p = (if fits n p then Ok (message p)
     else if TOPIC n < length (topic_name p) then Err TopicSizeError else Err BufferTooSmall)"
  by (auto simp: received_try_from_def string_try_from_def vec_try_from_def fits_def message_def)

lemma deliver_eq:
  "deliver n p (s, w) =
    (if fits n p then (Ok (), s, w\<lparr>received_log := received_log w @ [message p]\<rparr>)
     else (if TOPIC n < length (topic_name p) then Err TopicSizeError else Err BufferTooSmall, s, w))"
  by (simp add: deliver_def received_try_from_eq)

lemma is_dup_iff: "is_dup pid s \<longleftrightarrow> holds pid s \<or> pid \<in> set (send_pubcomp s)"
  by (auto simp: is_dup_def holds_def list_ex_iff)

lemma on_publish_inv: "receives_inv n s \<Longrightarrow> receives_inv n (fst (snd (on_publish n p (s, w))))"
  by (auto simp: on_publish_def on_qos_2_publish_def deliver_eq receives_inv_def Let_def vec_push_def
      split: qospid.splits)

lemma on_publish_holding:
  "holds pid s \<Longrightarrow> on_publish n p (s, w) = (r, s', w') \<Longrightarrow> holds pid s' \<and> delivered pid w' = delivered pid w"
  by (auto simp: on_publish_def on_qos_2_publish_def deliver_eq Let_def vec_push_def is_dup_iff holds_def
      delivered_def message_def split: qospid.splits if_splits)

lemma on_pubrel_inv: "receives_inv n s \<Longrightarrow> receives_inv n (fst (snd (on_pubrel n pid (s, w))))"
  by (auto simp: on_pubrel_def receives_inv_def Let_def vec_push_def split: option.splits dest!: position_Some)

lemma on_pubrel_holding:
  assumes "holds pid s" and "q \<noteq> pid" and "on_pubrel n q (s, w) = (r, s', w')"
  shows "holds pid s' \<and> delivered pid w' = delivered pid w"
proof -
  have "pid \<in> set (vec_remove i xs)" if "pid \<in> set xs" "position (\<lambda>e. e = q) xs = Some i" for xs i
  proof -
    from that(2) have "i < length xs" "xs ! i = q" using position_Some by fastforce+
    with mset_vec_remove [of i xs] have "add_mset q (mset (vec_remove i xs)) = mset xs" by simp
    then have "set xs = insert q (set (vec_remove i xs))"
      by (metis set_mset_add_mset_insert set_mset_mset)
    with that(1) assms(2) show ?thesis by auto
  qed
  with assms show ?thesis
    by (auto simp: on_pubrel_def Let_def vec_push_def holds_def split: option.splits if_splits)
qed

lemma send_holding:
  assumes "receives_inv n s" and "receives_send_packets (tcp_ops cd clock) n (s, w) = (r, s', w')"
  shows "receives_inv n s' \<and> (holds pid s \<longrightarrow> holds pid s') \<and> delivered pid w' = delivered pid w"
proof -
  from assms(1) have "length (await_pubrel s) \<le> QUEUE n" by (simp add: receives_inv_def)
  from tcp.receives_send_general [OF assms(2) this] obtain as rs cs where
    m: "mset (send_puback s) = mset as + mset (send_puback s')"
    "mset (send_pubrec s) = mset rs + mset (send_pubrec s')"
    "mset (send_pubcomp s) = mset cs + mset (send_pubcomp s')"
    "await_pubrel s' = await_pubrel s @ rs" "length (await_pubrel s') \<le> QUEUE n" "quiet w w'"
    by blast
  have "length (send_puback s') \<le> length (send_puback s)" "length (send_pubrec s') \<le> length (send_pubrec s)"
    "length (send_pubcomp s') \<le> length (send_pubcomp s)"
    using m(1-3) by (metis size_mset size_union le_add2)+
  moreover have "set (send_pubrec s) = set rs \<union> set (send_pubrec s')"
    using m(2) by (metis set_mset_mset set_mset_union)
  ultimately show ?thesis
    using assms(1) m(4-6) by (auto simp: receives_inv_def holds_def delivered_def quiet_def)
qed

lemma rx_step_holding:
  assumes "receives_inv n s" and "rx_step (tcp_ops cd clock) n ev (s, w) = (s', w')" and "ev \<noteq> Rx_pubrel pid"
  shows "receives_inv n s' \<and> (holds pid s \<longrightarrow> holds pid s' \<and> delivered pid w' = delivered pid w)"
proof (cases ev)
  case (Rx_publish p)
  with assms on_publish_inv [of n s p w] on_publish_holding [of pid s n p w] show ?thesis
    by (cases "on_publish n p (s, w)") auto
next
  case (Rx_pubrel q)
  with assms on_pubrel_inv [of n s q w] on_pubrel_holding [of pid s q n w] show ?thesis
    by (cases "on_pubrel n q (s, w)") auto
next
  case Rx_send
  with assms send_holding [of n s cd clock w] show ?thesis
    by (cases "receives_send_packets (tcp_ops cd clock) n (s, w)") auto
qed

lemma rx_run_holding:
  assumes "receives_inv n s" and "holds pid s" and "Rx_pubrel pid \<notin> set evs"
    and "rx_run (tcp_ops cd clock) n evs (s, w) = (s', w')"
  shows "receives_inv n s' \<and> holds pid s' \<and> delivered pid w' = delivered pid w"
  using assms
proof (induction evs arbitrary: s w)
  case Nil
  then show ?case by (simp add: rx_run_def)
next
  case (Cons ev evs)
  obtain s1 w1 where st: "rx_step (tcp_ops cd clock) n ev (s, w) = (s1, w1)" by fastforce
  with Cons.prems rx_step_holding [OF Cons.prems(1) st, of pid] have
    "receives_inv n s1" "holds pid s1" "delivered pid w1 = delivered pid w" by auto
  with Cons.IH [of s1 w1] Cons.prems st show ?case by (simp add: rx_run_def)
qed

text \<open>C3: a QoS 2 message is delivered exactly once: after the PUBLISH of a packet identifier that
  is not in progress was accepted, its message and no other one with this identifier reaches
  the subscribers, through any sequence of retransmissions, other messages, PUBRELs of other
  identifiers and sends, until the PUBREL of the identifier arrives.\<close>

theorem qos2_delivered_exactly_once:
  assumes "receives_inv n s" and "\<not> is_dup pid s" and "qospid p = QP_ExactlyOnce pid"
    and "on_publish n p (s, w) = (Ok (), s1, w1)" and "Rx_pubrel pid \<notin> set evs"
    and "rx_run (tcp_ops cd clock) n evs (s1, w1) = (s', w')"
  shows "delivered pid w' = delivered pid w @ [message p] \<and> holds pid s'"
proof -
  have "holds pid s1 \<and> delivered pid w1 = delivered pid w @ [message p]"
    using assms(2-4)
    by (auto simp: on_publish_def on_qos_2_publish_def deliver_eq Let_def vec_push_def holds_def
        delivered_def message_def split: if_splits)
  moreover have "receives_inv n s1" using on_publish_inv [OF assms(1), of p w] assms(4) by simp
  ultimately show ?thesis using rx_run_holding [OF _ _ assms(5,6)] by simp
qed

definition sample_publish :: "qospid \<Rightarrow> publish" where
  "sample_publish q = \<lparr>dup = False, qospid = q, retain = False, topic_name = ''t'', payload = [1]\<rparr>"

theorem qos2_delivered_exactly_once_witness:
  "\<exists>s' w'. rx_run (tcp_ops sample_codec tick) sample_sizes
      [Rx_send, Rx_publish (sample_publish (QP_ExactlyOnce 7)), Rx_send]
      (snd (on_publish sample_sizes (sample_publish (QP_ExactlyOnce 7))
        (new_receives, sample_world (sample_tcp [] [], 0)))) = (s', w')
    \<and> delivered 7 w' = [message (sample_publish (QP_ExactlyOnce 7))]"
proof -
  let ?p = "sample_publish (QP_ExactlyOnce 7)" and ?w = "sample_world (sample_tcp [] [], 0)"
  have p: "on_publish sample_sizes ?p (new_receives, ?w) = (Ok (), new_receives\<lparr>send_pubrec := [7]\<rparr>,
      ?w\<lparr>received_log := [message ?p]\<rparr>)"
    by (simp add: on_publish_def on_qos_2_publish_def deliver_eq fits_def sample_publish_def
        new_receives_def sample_sizes_def sample_world_def is_dup_def vec_push_def)
  obtain s' w' where r: "rx_run (tcp_ops sample_codec tick) sample_sizes [Rx_send, Rx_publish ?p, Rx_send]
      (new_receives\<lparr>send_pubrec := [7]\<rparr>, ?w\<lparr>received_log := [message ?p]\<rparr>) = (s', w')" by fastforce
  have "receives_inv sample_sizes new_receives" "\<not> is_dup 7 new_receives" "qospid ?p = QP_ExactlyOnce 7"
    by (simp_all add: receives_inv_def new_receives_def is_dup_def sample_publish_def)
  from qos2_delivered_exactly_once [OF this p _ r]
  have "delivered 7 w' = [message ?p]" by (simp add: delivered_def sample_world_def)
  with r show ?thesis by (simp add: p)
qed

section \<open>Whole exchanges\<close>

text \<open>A connection that takes every packet over.\<close>

definition accepting :: "'e ops \<Rightarrow> bool" where
  "accepting ops \<longleftrightarrow> (\<forall>p e. fst (try_write_packet ops p e) = Ok True)"

definition log_ops :: "packet list ops" where
  "log_ops = \<lparr>try_write_packet = (\<lambda>p e. (Ok True, e @ [p])), time_now = (\<lambda>e. (0, e))\<rparr>"

lemma accepting_log_ops: "accepting log_ops"
  by (simp add: accepting_def log_ops_def)

lemma try_write_accepting:
  assumes "accepting ops"
  obtains e where "try_write ops p (s, w) = (Ok True, s, w\<lparr>env := e\<rparr>)"
proof -
  obtain r e where e: "try_write_packet ops p (env w) = (r, e)" by (cases "try_write_packet ops p (env w)")
  with assms have "r = Ok True" unfolding accepting_def by (metis fst_conv)
  with e that [of e] show ?thesis by (simp add: try_write_def)
qed

lemma send_pubrec_one:
  assumes "accepting ops" and "send_puback s = []" and "send_pubrec s = [pid]" and "send_pubcomp s = []"
    and "length (await_pubrel s) < QUEUE n"
  shows "\<exists>e. receives_send_packets ops n (s, w) =
    (Ok SentAll, s\<lparr>send_pubrec := [], await_pubrel := await_pubrel s @ [pid]\<rparr>, w\<lparr>env := e\<rparr>)"
proof -
  obtain e where "try_write ops (Pubrec pid) (s, w) = (Ok True, s, w\<lparr>env := e\<rparr>)"
    using assms(1) by (rule try_write_accepting)
  with assms(2-5) show ?thesis
    by (intro exI [of _ e]) (simp add: receives_send_packets_def send_pubacks.simps send_pubrecs.simps send_pubcomps.simps
        vec_push_def vec_is_full_def vec_remove_def)
qed

lemma send_pubcomp_one:
  assumes "accepting ops" and "send_puback s = []" and "send_pubrec s = []" and "send_pubcomp s = [pid]"
  shows "\<exists>e. receives_send_packets ops n (s, w) = (Ok SentAll, s\<lparr>send_pubcomp := []\<rparr>, w\<lparr>env := e\<rparr>)"
proof -
  obtain e where "try_write ops (Pubcomp pid) (s, w) = (Ok True, s, w\<lparr>env := e\<rparr>)"
    using assms(1) by (rule try_write_accepting)
  with assms(2-4) show ?thesis
    by (intro exI [of _ e]) (simp add: receives_send_packets_def send_pubacks.simps send_pubrecs.simps send_pubcomps.simps
        vec_remove_def)
qed

definition waiting :: "pid list \<Rightarrow> receives_inner" where
  \<comment> \<open>nothing to send, PUBRELs awaited for \<open>pids\<close>\<close>
  "waiting pids = new_receives\<lparr>await_pubrel := pids\<rparr>"

lemma rx_publish_send:
  assumes "accepting ops" and "qospid p = QP_ExactlyOnce pid" and "fits n p" and "length pids < QUEUE n"
  shows "\<exists>e. rx_run ops n [Rx_publish p, Rx_send] (waiting pids, w) =
    (waiting (pids @ [pid]),
     w\<lparr>received_log := received_log w @ (if pid \<in> set pids then [] else [message p]), env := e\<rparr>)"
proof -
  let ?s = "new_receives\<lparr>await_pubrel := pids, send_pubrec := [pid]\<rparr>"
  let ?w = "w\<lparr>received_log := received_log w @ (if pid \<in> set pids then [] else [message p])\<rparr>"
  have "snd (on_publish n p (waiting pids, w)) = (?s, ?w)"
    using assms(2-4)
    by (auto simp: on_publish_def on_qos_2_publish_def deliver_eq waiting_def new_receives_def is_dup_iff
        holds_def vec_push_def)
  moreover obtain e where "receives_send_packets ops n (?s, ?w) =
      (Ok SentAll, ?s\<lparr>send_pubrec := [], await_pubrel := pids @ [pid]\<rparr>, ?w\<lparr>env := e\<rparr>)"
    using send_pubrec_one [OF assms(1), of ?s pid n ?w] assms(4) by (auto simp: new_receives_def)
  ultimately show ?thesis
    by (auto simp: rx_run_def waiting_def new_receives_def)
qed

lemma rx_pubrel_send:
  assumes "accepting ops" and "0 < QUEUE n"
  shows "\<exists>e. rx_run ops n [Rx_pubrel pid, Rx_send] (waiting (pid # pids), w) =
    (waiting pids, w\<lparr>env := e\<rparr>)"
proof -
  let ?s = "new_receives\<lparr>await_pubrel := pids, send_pubcomp := [pid]\<rparr>"
  have "snd (on_pubrel n pid (waiting (pid # pids), w)) = (?s, w)"
    using assms(2) by (simp add: on_pubrel_def waiting_def new_receives_def vec_push_def)
  moreover obtain e where "receives_send_packets ops n (?s, w) =
      (Ok SentAll, ?s\<lparr>send_pubcomp := []\<rparr>, w\<lparr>env := e\<rparr>)"
    using send_pubcomp_one [OF assms(1), of ?s pid n w] by (auto simp: new_receives_def)
  ultimately show ?thesis by (auto simp: rx_run_def waiting_def new_receives_def)
qed

lemma rx_run_append: "rx_run ops n (as @ bs) st = rx_run ops n bs (rx_run ops n as st)"
  by (simp add: rx_run_def)

text \<open>The exchange PUBLISH, PUBREC, PUBREL, PUBCOMP ends in the state it started from: the
  message is delivered, nothing is queued, and the packet identifier can be used again.\<close>

theorem qos2_exchange_returns_to_start:
  assumes "accepting ops" and "0 < QUEUE n" and "qospid p = QP_ExactlyOnce pid" and "fits n p"
  shows "\<exists>e. rx_run ops n [Rx_publish p, Rx_send, Rx_pubrel pid, Rx_send] (new_receives, w)
    = (new_receives, w\<lparr>received_log := received_log w @ [message p], env := e\<rparr>)"
proof -
  have new: "waiting [] = new_receives" by (simp add: waiting_def new_receives_def)
  from rx_publish_send [OF assms(1,3,4), of "[]"] assms(2) obtain e where
    "rx_run ops n [Rx_publish p, Rx_send] (waiting [], w)
      = (waiting [pid], w\<lparr>received_log := received_log w @ [message p], env := e\<rparr>)" by auto
  moreover from rx_pubrel_send [OF assms(1,2), of pid "[]"
      "w\<lparr>received_log := received_log w @ [message p], env := e\<rparr>"] obtain e' where
    "rx_run ops n [Rx_pubrel pid, Rx_send] (waiting [pid], w\<lparr>received_log := received_log w @ [message p], env := e\<rparr>)
      = (waiting [], w\<lparr>received_log := received_log w @ [message p], env := e'\<rparr>)" by auto
  ultimately have "rx_run ops n ([Rx_publish p, Rx_send] @ [Rx_pubrel pid, Rx_send]) (waiting [], w)
      = (waiting [], w\<lparr>received_log := received_log w @ [message p], env := e'\<rparr>)"
    by (simp only: rx_run_append)
  with new show ?thesis by auto
qed

theorem qos2_exchange_returns_to_start_witness:
  "\<exists>e. rx_run log_ops sample_sizes [Rx_publish (sample_publish (QP_ExactlyOnce 7)), Rx_send, Rx_pubrel 7, Rx_send]
    (new_receives, sample_world []) =
    (new_receives, sample_world []\<lparr>received_log := [message (sample_publish (QP_ExactlyOnce 7))], env := e\<rparr>)"
  using qos2_exchange_returns_to_start [OF accepting_log_ops, of sample_sizes
      "sample_publish (QP_ExactlyOnce 7)" 7 "sample_world []"]
  by (simp add: sample_sizes_def sample_publish_def fits_def sample_world_def)

text \<open>C36: a retransmission that arrives after the PUBREC was sent leaves a second entry in the
  PUBREL queue, of which the PUBREL removes only one; the next message that the broker sends
  with this packet identifier, after the exchange is over, is acknowledged but never
  delivered.\<close>

theorem retransmission_swallows_next_message:
  assumes "accepting ops" and "2 < QUEUE n" and "qospid m1 = QP_ExactlyOnce pid"
    and "qospid m2 = QP_ExactlyOnce pid" and "fits n m1" and "fits n m2"
  shows "\<exists>e. rx_run ops n
      [Rx_publish m1, Rx_send, Rx_publish (m1\<lparr>dup := True\<rparr>), Rx_send, Rx_pubrel pid, Rx_send,
       Rx_publish m2, Rx_send] (new_receives, w)
    = (waiting [pid, pid], w\<lparr>received_log := received_log w @ [message m1], env := e\<rparr>)"
proof -
  have new: "waiting [] = new_receives" by (simp add: waiting_def new_receives_def)
  let ?w = "\<lambda>e. w\<lparr>received_log := received_log w @ [message m1], env := e\<rparr>"
  have dup: "qospid (m1\<lparr>dup := True\<rparr>) = QP_ExactlyOnce pid" "fits n (m1\<lparr>dup := True\<rparr>)"
    using assms(3,5) by (simp_all add: fits_def)
  from assms(2) have len: "0 < QUEUE n" "length [pid] < QUEUE n" "length ([] :: pid list) < QUEUE n"
    by simp_all
  from rx_publish_send [OF assms(1,3,5) len(3), of w] obtain e1 where
    1: "rx_run ops n [Rx_publish m1, Rx_send] (waiting [], w) = (waiting [pid], ?w e1)" by auto
  from rx_publish_send [OF assms(1) dup len(2), of "?w e1"] obtain e2 where
    2: "rx_run ops n [Rx_publish (m1\<lparr>dup := True\<rparr>), Rx_send] (waiting [pid], ?w e1)
      = (waiting [pid, pid], ?w e2)" by auto
  from rx_pubrel_send [OF assms(1) len(1), of pid "[pid]" "?w e2"] obtain e3 where
    3: "rx_run ops n [Rx_pubrel pid, Rx_send] (waiting [pid, pid], ?w e2) = (waiting [pid], ?w e3)" by auto
  from rx_publish_send [OF assms(1,4,6) len(2), of "?w e3"] obtain e4 where
    4: "rx_run ops n [Rx_publish m2, Rx_send] (waiting [pid], ?w e3) = (waiting [pid, pid], ?w e4)" by auto
  have "rx_run ops n ([Rx_publish m1, Rx_send] @ [Rx_publish (m1\<lparr>dup := True\<rparr>), Rx_send]
      @ [Rx_pubrel pid, Rx_send] @ [Rx_publish m2, Rx_send]) (waiting [], w) = (waiting [pid, pid], ?w e4)"
    by (simp only: rx_run_append 1 2 3 4)
  with new show ?thesis by auto
qed

theorem retransmission_swallows_next_message_witness:
  "\<exists>s' w'. rx_run log_ops sample_sizes
      [Rx_publish (sample_publish (QP_ExactlyOnce 7)), Rx_send,
       Rx_publish (sample_publish (QP_ExactlyOnce 7)\<lparr>dup := True\<rparr>), Rx_send, Rx_pubrel 7, Rx_send,
       Rx_publish (sample_publish (QP_ExactlyOnce 7)\<lparr>payload := [2]\<rparr>), Rx_send]
      (new_receives, sample_world []) = (s', w')
    \<and> received_log w' = [message (sample_publish (QP_ExactlyOnce 7))]"
  using retransmission_swallows_next_message [OF accepting_log_ops, of sample_sizes
      "sample_publish (QP_ExactlyOnce 7)" 7 "sample_publish (QP_ExactlyOnce 7)\<lparr>payload := [2]\<rparr>"
      "sample_world []"]
  by (force simp: sample_sizes_def sample_publish_def fits_def sample_world_def)

text \<open>A QoS 2 message that is too long for the crate's buffers is rejected with an error but
  its PUBREC is queued all the same, so the message is acknowledged without being delivered,
  and a later message with the same identifier is taken for its retransmission.\<close>

lemma rejected_qos2_message_is_acknowledged:
  assumes "qospid p = QP_ExactlyOnce pid" and "\<not> fits n p" and "length (send_pubrec s) < QUEUE n"
    and "\<not> is_dup pid s"
  shows "\<exists>e s'. on_publish n p (s, w) = (Err e, s', w)
    \<and> s' = s\<lparr>send_pubrec := send_pubrec s @ [pid]\<rparr> \<and> is_dup pid s'"
  using assms
  by (auto simp: on_publish_def on_qos_2_publish_def deliver_eq vec_push_def Let_def is_dup_iff holds_def)

end
