(* ===== verification/Publish_Properties.thy ===== *)
theory Publish_Properties
  imports Publish_Accounting Receive_Properties
begin

text \<open>
  The properties of outgoing publishes (\<open>src/src/state/publish2.rs\<close>).
\<close>

section \<open>Sending\<close>

text \<open>C7: what \<open>send_packets\<close> of the outgoing publishes puts on the connection: PUBRELs in queue
  order, then new publishes in queue order (no message overtakes another one that was sent), then
  retransmissions, which all carry the duplicate flag; what was queued for sending is what was
  sent plus what stays queued.  This holds whatever the outcome.\<close>

theorem publishes_sent_in_order:
  assumes "pub_inv n s" and "publishes_send_packets (tcp_ops cd clock) n (s, w) = (r, s', w')"
  shows "\<exists>rs ps zs cs. tcp_emits cd (env w)
      (map (\<lambda>x. Pubrel (sr_pid x)) rs @ map borrow ps @ map borrow zs @ map Pubrel cs) (env w')
    \<and> subseq rs (send_pubrels s) \<and> subseq ps (send_publish s) \<and> list_all dup zs
    \<and> mset (send_publish s) = mset ps + mset (send_publish s')"
  using tcp.publishes_send_general [OF assms(2,1)]
  unfolding tcp.emitted_def tcp.publish_traffic_def by fastforce

lemma pub_inv_new [simp]: "pub_inv n new_publishes"
  by (simp add: pub_inv_def new_publishes_def)

definition sample_owned :: "qospid \<Rightarrow> owned_publish" where
  "sample_owned q = \<lparr>dup = True, qospid = q, retain = False, topic_name = ''t'', payload = [1],
     op_unique_id = UniqueID 3\<rparr>"

text \<open>Two messages and a PUBREL are queued.\<close>

definition sample_queue :: publishes_inner where
  "sample_queue = new_publishes\<lparr>send_publish := [sample_owned (QP_AtLeastOnce 7), sample_owned QP_AtMostOnce],
     send_pubrels := [\<lparr>sr_pid = 5, sr_unique_id = Some (UniqueID 2)\<rparr>]\<rparr>"

theorem publishes_sent_in_order_witness:
  "\<exists>r s' w' rs ps zs cs. publishes_send_packets (tcp_ops sample_codec tick) sample_sizes
      (sample_queue, sample_world (sample_tcp [] [], 0)) = (r, s', w')
    \<and> tcp_emits sample_codec (sample_tcp [] [], 0)
        (map (\<lambda>x. Pubrel (sr_pid x)) rs @ map borrow ps @ map borrow zs @ map Pubrel cs) (env w')
    \<and> subseq rs [\<lparr>sr_pid = 5, sr_unique_id = Some (UniqueID 2)\<rparr>]
    \<and> subseq ps [sample_owned (QP_AtLeastOnce 7), sample_owned QP_AtMostOnce] \<and> list_all dup zs
    \<and> {#sample_owned (QP_AtLeastOnce 7), sample_owned QP_AtMostOnce#} = mset ps + mset (send_publish s')"
proof -
  let ?w = "sample_world (sample_tcp [] [], 0 :: nat)"
  obtain r s' w' where r: "publishes_send_packets (tcp_ops sample_codec tick) sample_sizes (sample_queue, ?w) = (r, s', w')"
    by (rule prod_cases3)
  have q: "pub_inv sample_sizes sample_queue" "env ?w = (sample_tcp [] [], 0)"
    "send_pubrels sample_queue = [\<lparr>sr_pid = 5, sr_unique_id = Some (UniqueID 2)\<rparr>]"
    "send_publish sample_queue = [sample_owned (QP_AtLeastOnce 7), sample_owned QP_AtMostOnce]"
    by (simp_all add: sample_queue_def pub_inv_def new_publishes_def sample_sizes_def sample_world_def)
  have "mset (send_publish sample_queue) = {#sample_owned (QP_AtLeastOnce 7), sample_owned QP_AtMostOnce#}"
    by (simp add: q(4))
  with publishes_sent_in_order [OF q(1) r] r show ?thesis unfolding q(2-4) by metis
qed

text \<open>The \<open>push_unchecked\<close> calls behind the PUBACK, PUBREC and PUBCOMP queues never run on a full
  queue: sending keeps the capacities and the form of the waiting entries and has no undefined
  behaviour; it panics only when a PUBREL without a request is queued or the connection
  itself panics.\<close>

lemma publishes_send_memory_safe:
  fixes w :: "('n tcp \<times> 'k) world"
  assumes "pub_inv n s" and "publishes_send_packets (tcp_ops cd clock) n (s, w) = (r, s', w')"
  shows "r \<noteq> Undefined_Behaviour \<and> pub_inv n s'
    \<and> (r = Panic \<longrightarrow> anonymous s
        \<or> (\<exists>p e. fst (try_write_packet (tcp_ops cd clock) p (e :: 'n tcp \<times> 'k)) = Panic))"
proof -
  have "r \<noteq> Undefined_Behaviour \<and> pub_inv n s'
    \<and> (r = Panic \<longrightarrow> sink_panics (tcp_ops cd clock :: ('n tcp \<times> 'k) ops) \<or> anonymous s)"
    using tcp.publishes_send_general [OF assms(2,1)] by (simp add: accounts_def)
  then show ?thesis by (auto simp: sink_panics_def)
qed

text \<open>C25: a retransmission is sent for entries only that have waited for more than 5 seconds, in
  queue order; when the send buffer takes all of them, it is sent for every such entry and
  restarts the waiting time of exactly these.\<close>

theorem retransmits_exactly_the_overdue:
  assumes "resend_await_publish (tcp_ops cd clock) now (q, w) = (r, q', w')"
  shows "\<exists>zs. tcp_emits cd (env w) (map (\<lambda>e. borrow (ap_publish e)) zs) (env w')
    \<and> subseq zs (filter (\<lambda>e. from_secs 5 < now - publish_sent e) q)
    \<and> (r = Ok SentAll \<longrightarrow> zs = filter (\<lambda>e. from_secs 5 < now - publish_sent e) q
        \<and> q' = map (\<lambda>e. if from_secs 5 < now - publish_sent e then e\<lparr>publish_sent := now\<rparr> else e) q)"
  using tcp.resend_each_general [OF assms [unfolded resend_await_publish_def RESEND_DURATION_def]]
  unfolding tcp.emitted_def by auto

definition sample_waiting :: await_publish where
  "sample_waiting = \<lparr>ap_pid = 7, ap_publish = sample_owned (QP_AtLeastOnce 7), publish_sent = 0\<rparr>"

theorem retransmits_exactly_the_overdue_witness:
  "\<exists>q' w'. resend_await_publish (tcp_ops sample_codec tick) (from_secs 6)
      ([sample_waiting], sample_world (sample_tcp [] [], 0)) = (Ok SentAll, q', w')
    \<and> tcp_emits sample_codec (sample_tcp [] [], 0) [borrow (sample_owned (QP_AtLeastOnce 7))] (env w')"
proof -
  let ?p = "borrow (sample_owned (QP_AtLeastOnce 7))"
  let ?w = "sample_world (sample_tcp [] [], 0 :: nat)"
  have "sample_bytes ?p = Some [0x30, 1, 1]"
    by (simp add: sample_bytes_def borrow_def sample_owned_def publish.defs)
  then obtain c where c: "trait_try_write_packet sample_codec ?p (sample_tcp [] []) = (Ok True, c)"
    using trait_write_fresh by fastforce
  then have r: "resend_await_publish (tcp_ops sample_codec tick) (from_secs 6) ([sample_waiting], ?w)
      = (Ok SentAll, [sample_waiting\<lparr>publish_sent := from_secs 6\<rparr>], ?w\<lparr>env := (c, 0)\<rparr>)"
    by (simp add: resend_await_publish_def sample_waiting_def RESEND_DURATION_def from_secs_def try_write_def
        tcp_ops_def sample_world_def)
  from retransmits_exactly_the_overdue [OF r] r show ?thesis
    by (simp add: sample_waiting_def from_secs_def sample_world_def)
qed

section \<open>Every request completes once\<close>

lemma process_puback_accounts:
  assumes "pub_inv n s" and "process_puback pid (s, w) = (r, s', w')"
  shows "pub_inv n s' \<and> open_ids s' + done_ids w' = open_ids s + done_ids w"
proof (cases "position (\<lambda>p. ap_pid p = pid) (await_pubacks s)")
  case None
  with assms show ?thesis by (simp add: process_puback_def del: position_None)
next
  case (Some i)
  then have i: "i < length (await_pubacks s)" using position_Some by blast
  from mset_map_vec_remove [OF i, of "\<lambda>e. op_unique_id (ap_publish e)"] Some assms i show ?thesis
    by (auto simp: process_puback_def Let_def pub_inv_def open_ids_def done_ids_def)
qed

lemma process_pubcomp_accounts:
  assumes "pub_inv n s" and "process_pubcomp pid (s, w) = (r, s', w')"
  shows "pub_inv n s' \<and> open_ids s' + done_ids w' = open_ids s + done_ids w"
proof (cases "position (\<lambda>p. ac_pid p = pid) (await_pubcomps s)")
  case None
  with assms show ?thesis by (simp add: process_pubcomp_def del: position_None)
next
  case (Some i)
  then have i: "i < length (await_pubcomps s)" using position_Some by blast
  from mset_map_vec_remove [OF i, of ac_unique_id] Some assms i show ?thesis
    by (auto simp: process_pubcomp_def Let_def pub_inv_def open_ids_def done_ids_def)
qed

text \<open>The request that a packet loses: the one that waits for a PUBREC which arrives while the PUBREL queue
  is full.\<close>

fun lost_request :: "sizes \<Rightarrow> packet \<Rightarrow> publishes_inner \<Rightarrow> unique_id multiset" where
  "lost_request n (Pubrec pid) s =
     (case position (\<lambda>e. ap_pid e = pid) (await_pubrecs s) of
        Some i \<Rightarrow> if length (send_pubrels s) = QUEUE n then {#op_unique_id (ap_publish (await_pubrecs s ! i))#} else {#}
      | None \<Rightarrow> {#})"
| "lost_request n p s = {#}"

lemma process_pubrec_accounts:
  assumes "pub_inv n s" and "process_pubrec n pid (s, w) = (r, s', w')"
  shows "pub_inv n s' \<and> w' = w \<and> open_ids s' + lost_request n (Pubrec pid) s = open_ids s"
proof (cases "position (\<lambda>p. ap_pid p = pid) (await_pubrecs s)")
  case None
  with assms show ?thesis
    by (auto simp: process_pubrec_def vec_push_def pub_inv_def open_ids_def new_anonymous_def
        simp del: position_None split: if_splits)
next
  case (Some i)
  then have i: "i < length (await_pubrecs s)" "ap_pid (await_pubrecs s ! i) = pid" using position_Some by fastforce+
  from mset_map_vec_remove [OF i(1), of "\<lambda>e. op_unique_id (ap_publish e)"] Some assms i show ?thesis
    by (auto simp: process_pubrec_def vec_push_def pub_inv_def open_ids_def send_pubrel_from_def split: if_splits)
qed

text \<open>Runs of the component: requests are added, packets are received and packets are sent, in any
  order and with any outcome.  The list holds the unique ids of the requests that were accepted, the multiset
  those of the requests that were lost.\<close>

inductive tx_run :: "'e ops \<Rightarrow> sizes \<Rightarrow> 'e world \<Rightarrow> publishes_inner \<times> 'e world \<Rightarrow> unique_id list \<Rightarrow> unique_id multiset \<Rightarrow> bool"
  for ops n w0 where
  start: "tx_run ops n w0 (new_publishes, w0) [] {#}"
| added: "tx_run ops n w0 (s, w) ids lost \<Longrightarrow> publishes_publish n p uid s = (Ok (), s')
    \<Longrightarrow> tx_run ops n w0 (s', w) (ids @ [uid]) lost"
| not_added: "tx_run ops n w0 (s, w) ids lost \<Longrightarrow> publishes_publish n p uid s = (r, s') \<Longrightarrow> r \<noteq> Ok ()
    \<Longrightarrow> tx_run ops n w0 (s', w) ids lost"
| received: "tx_run ops n w0 (s, w) ids lost \<Longrightarrow> process_incoming_packet n p (s, w) = (r, s', w')
    \<Longrightarrow> tx_run ops n w0 (s', w') ids (lost + lost_request n p s)"
| sent: "tx_run ops n w0 (s, w) ids lost \<Longrightarrow> publishes_send_packets ops n (s, w) = (r, s', w')
    \<Longrightarrow> tx_run ops n w0 (s', w') ids lost"

lemma new_from_publish_eq:
  "new_from_publish n p uid =
    (if fits n p then Ok (publish.extend p \<lparr>op_unique_id = uid\<rparr>)
     else if TOPIC n < length (topic_name p) then Err TopicSizeError else Err BufferTooSmall)"
  by (auto simp: new_from_publish_def string_try_from_def vec_try_from_def fits_def publish.defs)

lemma publishes_publish_eq:
  "length (send_publish s) \<le> QUEUE n \<Longrightarrow> publishes_publish n p uid s =
    (if length (send_publish s) = QUEUE n then (Pending, s)
     else if fits n p then
       (Ok (), s\<lparr>send_publish := send_publish s @ [publish.extend p \<lparr>op_unique_id = uid\<rparr>]\<rparr>)
     else (Panic, s))"
  by (auto simp: publishes_publish_def add_publish_def new_from_publish_eq vec_is_full_def vec_push_def)

lemma added_accounts:
  assumes "pub_inv n s" and "publishes_publish n p uid s = (Ok (), s')"
  shows "pub_inv n s' \<and> open_ids s' = add_mset uid (open_ids s)"
proof -
  from assms(1) have "length (send_publish s) \<le> QUEUE n" by (simp add: pub_inv_def)
  from publishes_publish_eq [OF this, of p uid] assms show ?thesis
    by (auto simp: pub_inv_def open_ids_def publish.defs split: if_splits)
qed

lemma received_accounts:
  assumes "pub_inv n s" and "process_incoming_packet n p (s, w) = (r, s', w')"
  shows "pub_inv n s' \<and> open_ids s' + done_ids w' + lost_request n p s = open_ids s + done_ids w"
proof (cases p)
  case (Puback pid)
  with assms process_puback_accounts [of n s pid w] show ?thesis by (simp add: process_incoming_packet_def)
next
  case (Pubrec pid)
  with assms have "process_pubrec n pid (s, w) = (r, s', w')" by (simp add: process_incoming_packet_def)
  from process_pubrec_accounts [OF assms(1) this] Pubrec show ?thesis by (metis add.assoc add.commute)
next
  case (Pubcomp pid)
  with assms process_pubcomp_accounts [of n s pid w] show ?thesis by (simp add: process_incoming_packet_def)
qed (use assms in \<open>auto simp: process_incoming_packet_def\<close>)

text \<open>C4: no request is lost but by a PUBREC on a full PUBREL queue, and none completes twice: at every moment of
  a run, the requests accepted so far are exactly those still in progress together with those
  whose completion was published and those lost in that way, each as often as it was accepted.  The steps of
  a run are all calls of the component, with any outcome.\<close>

theorem requests_in_progress_or_done_once:
  assumes "tx_run (tcp_ops cd clock) n w0 (s, w) ids lost" and "done_ids w0 = {#}"
  shows "mset ids = open_ids s + done_ids w + lost \<and> pub_inv n s"
  using assms
proof (induction "(s, w)" ids lost arbitrary: s w rule: tx_run.induct)
  case start
  then show ?case by (simp add: open_ids_def new_publishes_def pub_inv_def)
next
  case (added s w ids lost p uid s')
  with added_accounts [of n s p uid s'] show ?case by simp
next
  case (not_added s w ids lost p uid r s')
  with publishes_publish_eq [of s n p uid] show ?case by (auto simp: pub_inv_def split: if_splits)
next
  case (received s w ids lost p r s' w')
  from received_accounts [of n s p w r s' w'] received show ?case by (simp add: add.assoc add.commute add.left_commute)
next
  case (sent s w ids lost r s' w')
  with tcp.publishes_send_general [OF sent.hyps(3)] show ?case by (simp add: accounts_def)
qed

lemmas tx_eval = publishes_send_packets_def send_pending_pubrel.simps send_pending_publishes.simps
  resend_publishes_def resend_pubrel_def resend_await_publish_def file_published_def file_pubrel_def
  await_puback_from_def await_pubrec_from_def await_pubcomp_from_def has_space_def vec_is_full_def
  vec_push_unchecked_def try_write_def read_clock_def log_ops_def RESEND_DURATION_def from_secs_def
  new_publishes_def

text \<open>A run that loses a request, with room for one entry in each queue: a message of QoS 2 is added and
  sent, a PUBREC for another identifier fills the PUBREL queue, and then comes the PUBREC of the message.\<close>

definition one_place :: sizes where
  "one_place = \<lparr>QUEUE = 1, BUFFER = 8, TOPIC = 8\<rparr>"

lemma losing_run:
  obtains s w where "tx_run (tcp_ops sample_codec tick) one_place (sample_world (sample_tcp [] [], 0)) (s, w) [UniqueID 0] {#UniqueID 0#}"
proof -
  let ?ops = "tcp_ops sample_codec tick" let ?w0 = "sample_world (sample_tcp [] [], 0 :: nat)"
  let ?p = "sample_publish (QP_ExactlyOnce 7)" let ?m = "publish.extend ?p \<lparr>op_unique_id = UniqueID 0\<rparr>"
  let ?s1 = "new_publishes\<lparr>send_publish := [?m]\<rparr>"
  let ?s2 = "new_publishes\<lparr>await_pubrecs := [\<lparr>ap_pid = 7, ap_publish = ?m\<lparr>dup := True\<rparr>, publish_sent = 0\<rparr>]\<rparr>"
  let ?s3 = "?s2\<lparr>send_pubrels := [new_anonymous 9]\<rparr>" let ?s4 = "new_publishes\<lparr>send_pubrels := [new_anonymous 9]\<rparr>"
  have "fits one_place ?p" by (simp add: fits_def one_place_def sample_publish_def)
  then have 1: "publishes_publish one_place ?p (UniqueID 0) new_publishes = (Ok (), ?s1)"
    by (simp add: publishes_publish_eq new_publishes_def one_place_def)
  have m: "borrow ?m = Publish ?p" "qospid ?m = QP_ExactlyOnce 7" "op_unique_id ?m = UniqueID 0"
    by (simp_all add: borrow_def publish.defs sample_publish_def)
  have "sample_bytes (Publish ?p) = Some [0x30, 1, 1]" by (simp add: sample_bytes_def sample_publish_def)
  then obtain c where c: "trait_try_write_packet sample_codec (Publish ?p) (sample_tcp [] []) = (Ok True, c)"
    using trait_write_fresh by fastforce
  obtain w2 where 2: "publishes_send_packets ?ops one_place (?s1, ?w0) = (Ok SentAll, ?s2, w2)"
    using c m by (simp add: tx_eval tcp_ops_def tick_def one_place_def sample_world_def)
  have 3: "process_incoming_packet one_place (Pubrec 9) (?s2, w2) = (Ok (), ?s3, w2)"
    by (simp add: process_incoming_packet_def process_pubrec_def vec_push_def one_place_def new_publishes_def)
  have 4: "process_incoming_packet one_place (Pubrec 7) (?s3, w2) = (Err (QueueFull (QP_ExactlyOnce 7)), ?s4, w2)"
    by (simp add: process_incoming_packet_def process_pubrec_def vec_push_def one_place_def new_publishes_def send_pubrel_from_def
        vec_remove_def)
  have "lost_request one_place (Pubrec 9) ?s2 = {#}" "lost_request one_place (Pubrec 7) ?s3 = {#UniqueID 0#}"
    using m(3) by (simp_all add: one_place_def)
  with tx_run.received [OF tx_run.received [OF tx_run.sent [OF tx_run.added [OF tx_run.start 1] 2] 3] 4] that show ?thesis by simp
qed

theorem requests_in_progress_or_done_once_witness:
  "\<exists>s w. tx_run (tcp_ops sample_codec tick) one_place (sample_world (sample_tcp [] [], 0)) (s, w) [UniqueID 0] {#UniqueID 0#}
    \<and> open_ids s + done_ids w = {#}"
proof -
  obtain s w where r: "tx_run (tcp_ops sample_codec tick) one_place (sample_world (sample_tcp [] [], 0)) (s, w) [UniqueID 0] {#UniqueID 0#}"
    by (rule losing_run)
  from requests_in_progress_or_done_once [OF r] have "open_ids s + done_ids w = {#}"
    by (simp add: done_ids_def sample_world_def)
  with r show ?thesis by blast
qed

section \<open>Whole exchanges\<close>

text \<open>C19: the QoS 2 exchange of an outgoing message, on a connection that takes every packet: the
  message is sent once, the PUBREC is answered by a PUBREL, the PUBCOMP frees the packet
  identifier and publishes the completion, and the component is as before.\<close>

theorem qos2_publish_exchange:
  assumes "0 < QUEUE n" and "fits n p" and "qospid p = QP_ExactlyOnce pid"
  shows "\<exists>s1 s2 w2 s3 s4 w4.
      publishes_publish n p uid new_publishes = (Ok (), s1)
    \<and> publishes_send_packets log_ops n (s1, w) = (Ok SentAll, s2, w2)
    \<and> process_incoming_packet n (Pubrec pid) (s2, w2) = (Ok (), s3, w2)
    \<and> publishes_send_packets log_ops n (s3, w2) = (Ok SentAll, s4, w4)
    \<and> process_incoming_packet n (Pubcomp pid) (s4, w4) = (Ok (), new_publishes,
        w\<lparr>env := env w @ [Publish p, Pubrel pid], pid_static := free_pid pid (pid_static w),
          event_log := event_log w @ [PublishDone uid]\<rparr>)"
proof -
  let ?o = "publish.extend p \<lparr>op_unique_id = uid\<rparr>"
  let ?s1 = "new_publishes\<lparr>send_publish := [?o]\<rparr>"
  let ?s2 = "new_publishes\<lparr>await_pubrecs := [\<lparr>ap_pid = pid, ap_publish = ?o\<lparr>dup := True\<rparr>, publish_sent = 0\<rparr>]\<rparr>"
  let ?w2 = "w\<lparr>env := env w @ [Publish p]\<rparr>"
  let ?s3 = "new_publishes\<lparr>send_pubrels := [\<lparr>sr_pid = pid, sr_unique_id = Some uid\<rparr>]\<rparr>"
  let ?s4 = "new_publishes\<lparr>await_pubcomps := [\<lparr>ac_pid = pid, pubrel_sent = 0, ac_unique_id = uid\<rparr>]\<rparr>"
  let ?w4 = "w\<lparr>env := env w @ [Publish p, Pubrel pid]\<rparr>"
  have o: "borrow ?o = Publish p" "qospid ?o = QP_ExactlyOnce pid" "op_unique_id ?o = uid"
    using assms(3) by (simp_all add: borrow_def publish.defs)
  have 1: "publishes_publish n p uid new_publishes = (Ok (), ?s1)"
    using assms(1,2) by (simp add: publishes_publish_eq new_publishes_def)
  have 2: "publishes_send_packets log_ops n (?s1, w) = (Ok SentAll, ?s2, ?w2)"
    using assms(1,3) o by (simp add: tx_eval)
  have 3: "process_incoming_packet n (Pubrec pid) (?s2, ?w2) = (Ok (), ?s3, ?w2)"
    using assms(1) o by (simp add: process_incoming_packet_def process_pubrec_def send_pubrel_from_def
        vec_push_def new_publishes_def)
  have 4: "publishes_send_packets log_ops n (?s3, ?w2) = (Ok SentAll, ?s4, ?w4)"
    using assms(1) by (simp add: tx_eval)
  have 5: "process_incoming_packet n (Pubcomp pid) (?s4, ?w4) = (Ok (), new_publishes,
      w\<lparr>env := env w @ [Publish p, Pubrel pid], pid_static := free_pid pid (pid_static w),
        event_log := event_log w @ [PublishDone uid]\<rparr>)"
    by (simp add: process_incoming_packet_def process_pubcomp_def new_publishes_def world_free_pid_def
        publish_event_def)
  from 1 2 3 4 5 show ?thesis by blast
qed

lemma sample_fits: "0 < QUEUE sample_sizes" "fits sample_sizes (sample_publish q)" "qospid (sample_publish q) = q"
  by (simp_all add: sample_sizes_def fits_def sample_publish_def)

theorem qos2_publish_exchange_witness:
  "\<exists>s1. publishes_publish sample_sizes (sample_publish (QP_ExactlyOnce 7)) (UniqueID 3) new_publishes = (Ok (), s1)
    \<and> (\<exists>s2 w2. publishes_send_packets log_ops sample_sizes (s1, sample_world []) = (Ok SentAll, s2, w2)
        \<and> (\<exists>s3. process_incoming_packet sample_sizes (Pubrec 7) (s2, w2) = (Ok (), s3, w2)))"
  using qos2_publish_exchange [OF sample_fits, of 7 "UniqueID 3" "sample_world []"] by blast

text \<open>The QoS 1 exchange of an outgoing message: it is sent once, the PUBACK frees the packet
  identifier and publishes the completion, and the component is as before.\<close>

lemma qos1_publish_exchange:
  assumes "0 < QUEUE n" and "fits n p" and "qospid p = QP_AtLeastOnce pid"
  shows "\<exists>s1 s2 w2.
      publishes_publish n p uid new_publishes = (Ok (), s1)
    \<and> publishes_send_packets log_ops n (s1, w) = (Ok SentAll, s2, w2)
    \<and> event_log w2 = event_log w
    \<and> process_incoming_packet n (Puback pid) (s2, w2) = (Ok (), new_publishes,
        w\<lparr>env := env w @ [Publish p], pid_static := free_pid pid (pid_static w),
          event_log := event_log w @ [PublishDone uid]\<rparr>)"
proof -
  let ?o = "publish.extend p \<lparr>op_unique_id = uid\<rparr>"
  let ?s1 = "new_publishes\<lparr>send_publish := [?o]\<rparr>"
  let ?s2 = "new_publishes\<lparr>await_pubacks := [\<lparr>ap_pid = pid, ap_publish = ?o\<lparr>dup := True\<rparr>, publish_sent = 0\<rparr>]\<rparr>"
  let ?w2 = "w\<lparr>env := env w @ [Publish p]\<rparr>"
  have o: "borrow ?o = Publish p" "qospid ?o = QP_AtLeastOnce pid" "op_unique_id ?o = uid"
    using assms(3) by (simp_all add: borrow_def publish.defs)
  have 1: "publishes_publish n p uid new_publishes = (Ok (), ?s1)"
    using assms(1,2) by (simp add: publishes_publish_eq new_publishes_def)
  have 2: "publishes_send_packets log_ops n (?s1, w) = (Ok SentAll, ?s2, ?w2)"
    using assms(1,3) o by (simp add: tx_eval)
  have 3: "process_incoming_packet n (Puback pid) (?s2, ?w2) = (Ok (), new_publishes,
      w\<lparr>env := env w @ [Publish p], pid_static := free_pid pid (pid_static w),
        event_log := event_log w @ [PublishDone uid]\<rparr>)"
    using o by (simp add: process_incoming_packet_def process_puback_def new_publishes_def world_free_pid_def
        publish_event_def)
  have "event_log ?w2 = event_log w" by simp
  with 1 2 3 show ?thesis by blast
qed

section \<open>Acknowledgements that should not be there\<close>

text \<open>A PUBACK or PUBCOMP for a packet identifier that nothing waits for is reported as
  \<open>UnexpectedAck\<close> and changes nothing, no completion is published and no identifier is freed.\<close>

lemma unexpected_ack_changes_nothing:
  assumes "\<forall>e \<in> set (await_pubacks s). ap_pid e \<noteq> pid" and "\<forall>e \<in> set (await_pubcomps s). ac_pid e \<noteq> pid"
  shows "process_incoming_packet n (Puback pid) (s, w) = (Err (UnexpectedAck pid), s, w)
    \<and> process_incoming_packet n (Pubcomp pid) (s, w) = (Err (UnexpectedAck pid), s, w)"
proof -
  have "position (\<lambda>p. ap_pid p = pid) (await_pubacks s) = None"
    "position (\<lambda>p. ac_pid p = pid) (await_pubcomps s) = None" using assms by auto
  then show ?thesis
    by (simp add: process_incoming_packet_def process_puback_def process_pubcomp_def del: position_None)
qed

text \<open>C34: a PUBREC that nothing waits for, such as a repeated one, is accepted and queues a PUBREL
  that belongs to no request; the next send, on a connection that takes packets, writes it and then
  panics on the missing unique id.\<close>

theorem repeated_pubrec_panics:
  assumes "accepting ops" and "\<forall>e \<in> set (await_pubrecs s). ap_pid e \<noteq> pid" and "send_pubrels s = []"
    and "0 < QUEUE n" and "length (await_pubcomps s) < QUEUE n"
  shows "\<exists>s1. process_incoming_packet n (Pubrec pid) (s, w) = (Ok (), s1, w)
    \<and> fst (publishes_send_packets ops n (s1, w)) = Panic"
proof -
  let ?s1 = "s\<lparr>send_pubrels := [new_anonymous pid]\<rparr>"
  have "position (\<lambda>p. ap_pid p = pid) (await_pubrecs s) = None" using assms(2) by auto
  then have "process_incoming_packet n (Pubrec pid) (s, w) = (Ok (), ?s1, w)"
    using assms(3,4)
    by (simp add: process_incoming_packet_def process_pubrec_def vec_push_def del: position_None)
  moreover have "fst (publishes_send_packets ops n (?s1, w)) = Panic"
  proof -
    obtain e where t: "try_write ops (Pubrel pid) (?s1, w) = (Ok True, ?s1, w\<lparr>env := e\<rparr>)"
      by (rule try_write_accepting [OF assms(1)])
    obtain now w1 where c: "read_clock ops (s\<lparr>send_pubrels := []\<rparr>, w\<lparr>env := e\<rparr>) = (now, s\<lparr>send_pubrels := []\<rparr>, w1)"
      by (rule read_clock_cases)
    have "fst (send_pending_pubrel ops n 0 (?s1, w)) = Panic"
      using assms(5) t c
      by (simp add: send_pending_pubrel.simps [of _ _ 0] new_anonymous_def vec_is_full_def file_pubrel_def await_pubcomp_from_def)
    then show ?thesis
      by (cases "send_pending_pubrel ops n 0 (?s1, w)") (simp add: publishes_send_packets_def)
  qed
  ultimately show ?thesis by blast
qed

theorem repeated_pubrec_panics_witness:
  "\<exists>s1. process_incoming_packet sample_sizes (Pubrec 7) (new_publishes, sample_world ([] :: packet list)) = (Ok (), s1, sample_world ([] :: packet list))
    \<and> fst (publishes_send_packets log_ops sample_sizes (s1, sample_world ([] :: packet list))) = Panic"
  using repeated_pubrec_panics [OF accepting_log_ops, of new_publishes 7 sample_sizes "sample_world ([] :: packet list)"]
  by (simp add: new_publishes_def sample_sizes_def)

text \<open>C35: a PUBREC that arrives while the PUBREL queue is full drops the request it belongs to: the
  message is no longer waited for, no completion will be published for it, and its packet
  identifier is not freed.\<close>

theorem pubrec_on_full_queue_loses_request:
  assumes "pub_inv n s" and "length (send_pubrels s) = QUEUE n"
    and "position (\<lambda>e. ap_pid e = pid) (await_pubrecs s) = Some i"
  shows "\<exists>s'. process_incoming_packet n (Pubrec pid) (s, w) = (Err (QueueFull (QP_ExactlyOnce pid)), s', w)
    \<and> open_ids s = add_mset (op_unique_id (ap_publish (await_pubrecs s ! i))) (open_ids s')"
proof -
  let ?s = "s\<lparr>await_pubrecs := vec_remove i (await_pubrecs s)\<rparr>"
  from assms(3) have i: "i < length (await_pubrecs s)" "ap_pid (await_pubrecs s ! i) = pid"
    using position_Some by fastforce+
  have "process_incoming_packet n (Pubrec pid) (s, w) = (Err (QueueFull (QP_ExactlyOnce pid)), ?s, w)"
    using assms(2,3) i(2)
    by (simp add: process_incoming_packet_def process_pubrec_def vec_push_def send_pubrel_from_def)
  moreover have "open_ids s = add_mset (op_unique_id (ap_publish (await_pubrecs s ! i))) (open_ids ?s)"
    using mset_map_vec_remove [OF i(1), of "\<lambda>e. op_unique_id (ap_publish e)"] by (simp add: open_ids_def)
  ultimately show ?thesis by blast
qed

theorem pubrec_on_full_queue_loses_request_witness:
  "\<exists>s'. process_incoming_packet \<lparr>QUEUE = 1, BUFFER = 8, TOPIC = 8\<rparr> (Pubrec 7)
      (new_publishes\<lparr>await_pubrecs := [\<lparr>ap_pid = 7, ap_publish = sample_owned (QP_ExactlyOnce 7), publish_sent = 0\<rparr>],
         send_pubrels := [new_anonymous 5]\<rparr>, sample_world ())
    = (Err (QueueFull (QP_ExactlyOnce 7)), s', sample_world ())"
  using pubrec_on_full_queue_loses_request [of "\<lparr>QUEUE = 1, BUFFER = 8, TOPIC = 8\<rparr>"
      "new_publishes\<lparr>await_pubrecs := [\<lparr>ap_pid = 7, ap_publish = sample_owned (QP_ExactlyOnce 7), publish_sent = 0\<rparr>],
         send_pubrels := [new_anonymous 5]\<rparr>" 7 0 "sample_world ()"]
  by (auto simp: pub_inv_def new_publishes_def waits_for_def sample_owned_def)

text \<open>Adding a message waits while the queue is full, and panics (rather than return an
  error) when its topic or payload is longer than the client's buffers; otherwise the message
  is the last one of the queue.\<close>

theorem adding_a_message:
  assumes "pub_inv n s"
  shows "publishes_publish n p uid s =
    (if length (send_publish s) = QUEUE n then (Pending, s)
     else if length (topic_name p) \<le> TOPIC n \<and> length (payload p) \<le> BUFFER n
       then (Ok (), s\<lparr>send_publish := send_publish s @ [publish.extend p \<lparr>op_unique_id = uid\<rparr>]\<rparr>)
     else (Panic, s))"
  using assms publishes_publish_eq [of s n p uid] by (simp add: pub_inv_def fits_def)

theorem adding_a_message_witness:
  "publishes_publish sample_sizes (sample_publish QP_AtMostOnce\<lparr>payload := replicate 9 0\<rparr>) (UniqueID 3) new_publishes
    = (Panic, new_publishes)"
  by (subst adding_a_message) (simp_all add: sample_sizes_def new_publishes_def pub_inv_def)

end
