(* ===== verification/Ping.thy ===== *)
theory Ping
  imports Publish_Properties
begin

text \<open>
  \<open>src/src/state/ping.rs\<close>: keep-alive.  A ping is due half a keep-alive period after the last
  response, and again 5 seconds after an unanswered one; \<open>ping_pause\<close> is the time the event loop
  sleeps before it looks again.
\<close>

section \<open>Operations\<close>

definition PING_RETRY_DURATION :: duration where
  "PING_RETRY_DURATION = from_secs 5"

definition KEEP_ALIVE_DURATION :: duration where
  "KEEP_ALIVE_DURATION = from_secs KEEP_ALIVE"

definition ERROR_CORRECTING_DURATION :: duration where
  "ERROR_CORRECTING_DURATION = from_millis 10"

datatype ping_state = PingSuccess instant | AwaitingResponse (last_success: instant) (ping_request_sent: instant)

definition new_ping :: "'e ops \<Rightarrow> 'e world \<Rightarrow> ping_state \<times> 'e world" where
  "new_ping ops w = (case read_clock ops ((), w) of (now, _, w1) \<Rightarrow> (PingSuccess now, w1))"

definition on_ping_response :: "'e ops \<Rightarrow> ping_state \<times> 'e world \<Rightarrow> ping_state \<times> 'e world" where
  "on_ping_response ops st = (case read_clock ops st of (now, _, w) \<Rightarrow> (PingSuccess now, w))"

definition pause_at :: "instant \<Rightarrow> ping_state \<Rightarrow> duration" where
  \<comment> \<open>the duration computed by \<open>ping_pause\<close> at time \<open>now\<close>\<close>
  "pause_at now s =
     (case s of
        PingSuccess instant \<Rightarrow>
          if KEEP_ALIVE_DURATION div 2 < now - instant then from_secs 0
          else KEEP_ALIVE_DURATION div 2 - (now - instant) + ERROR_CORRECTING_DURATION
      | AwaitingResponse _ request_sent \<Rightarrow>
          let diff = now - request_sent in
          if PING_RETRY_DURATION < diff then from_secs 0
          else PING_RETRY_DURATION - diff + ERROR_CORRECTING_DURATION)"

definition ping_pause :: "'e ops \<Rightarrow> ping_state \<times> 'e world \<Rightarrow> duration \<times> ping_state \<times> 'e world" where
  "ping_pause ops st = (case read_clock ops st of (now, s, w) \<Rightarrow> (pause_at now s, s, w))"

definition ping_send :: "'e ops \<Rightarrow> ping_state \<times> 'e world \<Rightarrow> send_result outcome \<times> ping_state \<times> 'e world" where
  "ping_send ops st =
     (case read_clock ops st of (now, st) \<Rightarrow>
        (case fst st of
           PingSuccess instant \<Rightarrow>
             if KEEP_ALIVE_DURATION div 2 < now - instant then
               and_then (try_write ops Pingreq st) (\<lambda>sent (_, w).
                 if sent then (Ok SentAll, AwaitingResponse instant now, w)
                 else (Ok PartiallySent, fst st, w))
             else (Ok SentAll, st)
         | AwaitingResponse success request_sent \<Rightarrow>
             if PING_RETRY_DURATION < now - request_sent then
               and_then (try_write ops Pingreq st) (\<lambda>sent (_, w).
                 if sent then (Ok SentAll, AwaitingResponse success now, w)
                 else (Ok PartiallySent, fst st, w))
             else (Ok SentAll, st)))"

section \<open>Properties\<close>

definition ping_due :: "instant \<Rightarrow> ping_state \<Rightarrow> bool" where
  "ping_due now s =
     (case s of
        PingSuccess instant \<Rightarrow> from_secs 30 < now - instant
      | AwaitingResponse _ request_sent \<Rightarrow> from_secs 5 < now - request_sent)"

lemmas ping_durations = KEEP_ALIVE_DURATION_def KEEP_ALIVE_def PING_RETRY_DURATION_def
  ERROR_CORRECTING_DURATION_def from_secs_def from_millis_def

context packet_sink begin

lemma ping_send_cases:
  assumes "read_clock ops (s, w) = (now, s, w0)"
  shows "if ping_due now s
    then (\<exists>r w1. try_write ops Pingreq (s, w0) = (r, s, w1) \<and> quiet w0 w1 \<and>
           ping_send ops (s, w) =
             (obind r (\<lambda>sent. Ok (if sent then SentAll else PartiallySent)),
              (if r = Ok True
               then AwaitingResponse (case s of PingSuccess t \<Rightarrow> t | AwaitingResponse t _ \<Rightarrow> t) now else s), w1))
    else ping_send ops (s, w) = (Ok SentAll, s, w0)"
proof -
  obtain r w1 where w: "try_write ops Pingreq (s, w0) = (r, s, w1)" "quiet w0 w1" by (rule try_write_cases)
  show ?thesis
    using assms w
    by (cases s; cases r)
      (auto simp: ping_send_def ping_due_def ping_durations)
qed

end

text \<open>C32: the event loop never sleeps through a ping, and never loops without sleeping while none is
  due: if the clock has advanced by at least \<open>ping_pause\<close> when \<open>send\<close> looks at it, the ping is
  due, and the pause is zero only when it is due at once; the pause never exceeds 30 seconds and
  10 milliseconds, which is less than the keep-alive of 60 seconds.\<close>

theorem ping_pause_wakes_in_time:
  assumes "case s of PingSuccess t \<Rightarrow> t \<le> now | AwaitingResponse _ t \<Rightarrow> t \<le> now"
  shows "(now + pause_at now s \<le> later \<longrightarrow> ping_due later s)
    \<and> (pause_at now s = 0 \<longleftrightarrow> ping_due now s)
    \<and> pause_at now s \<le> from_secs 30 + from_millis 10"
  using assms by (auto simp: pause_at_def ping_due_def ping_durations Let_def split: ping_state.splits)

theorem ping_pause_wakes_in_time_witness:
  "ping_due (from_secs 40 + pause_at (from_secs 40) (PingSuccess (from_secs 20))) (PingSuccess (from_secs 20))"
  using ping_pause_wakes_in_time [where s = "PingSuccess (from_secs 20)" and now = "from_secs 40"]
  by (simp add: from_secs_def)

text \<open>\<open>send\<close> writes a PINGREQ exactly when one is due; when the connection takes it, the state
  remembers when, and keeps the time of the last response; otherwise the state is
  unchanged, so that the ping stays due.\<close>

theorem ping_sent_iff_due:
  assumes "time_now (tcp_ops cd clock) (env w) = (now, e0)"
    and "ping_send (tcp_ops cd clock) (s, w) = (r, s', w')"
  shows "\<exists>ps. tcp_emits cd (env w) ps (env w')
    \<and> (\<not> ping_due now s \<longrightarrow> r = Ok SentAll \<and> s' = s \<and> ps = [])
    \<and> (ping_due now s \<and> r = Ok SentAll \<longrightarrow> ps = [Pingreq]
        \<and> s' = AwaitingResponse (case s of PingSuccess t \<Rightarrow> t | AwaitingResponse t _ \<Rightarrow> t) now)
    \<and> (r \<noteq> Ok SentAll \<longrightarrow> s' = s \<and> ps = [])"
proof -
  let ?w0 = "w\<lparr>env := e0\<rparr>"
  have rc: "read_clock (tcp_ops cd clock) (s, w) = (now, s, ?w0)" using assms(1) by (simp add: read_clock_def)
  have e0: "tcp_emits cd (env w) [] e0" using tcp.clock_silent [OF assms(1)] .
  show ?thesis
  proof (cases "ping_due now s")
    case False
    with tcp.ping_send_cases [OF rc] assms(2) e0 show ?thesis by (intro exI [of _ "[]"]) auto
  next
    case True
    with tcp.ping_send_cases [OF rc] obtain r1 w1 where w: "try_write (tcp_ops cd clock) Pingreq (s, ?w0) = (r1, s, w1)"
      "ping_send (tcp_ops cd clock) (s, w) = (obind r1 (\<lambda>sent. Ok (if sent then SentAll else PartiallySent)),
        (if r1 = Ok True then AwaitingResponse (case s of PingSuccess t \<Rightarrow> t | AwaitingResponse t _ \<Rightarrow> t) now else s), w1)"
      by auto
    have "tcp_emits cd (env w) (if r1 = Ok True then [Pingreq] else []) (env w1)"
      using tcp.try_write_emitted [OF w(1)] tcp.emits_append [OF e0, of "if r1 = Ok True then [Pingreq] else []" "env w1"]
      by (simp add: tcp.emitted_def)
    with True w(2) assms(2) show ?thesis
      by (intro exI [of _ "if r1 = Ok True then [Pingreq] else []"]) (cases r1; auto)
  qed
qed

theorem ping_sent_iff_due_witness:
  "\<exists>s' w'. ping_send (tcp_ops sample_codec tick) (PingSuccess 0, sample_world (sample_tcp [] [], from_secs 31))
      = (Ok SentAll, s', w') \<and> s' = AwaitingResponse 0 (from_secs 31)"
proof -
  let ?w = "sample_world (sample_tcp [] [], from_secs 31)"
  obtain c where c: "trait_try_write_packet sample_codec Pingreq (sample_tcp [] []) = (Ok True, c)"
    using trait_write_fresh [of Pingreq "[0xC0, 0]" "[]"] by (auto simp: sample_bytes_def)
  then obtain s' w' where r: "ping_send (tcp_ops sample_codec tick) (PingSuccess 0, ?w) = (Ok SentAll, s', w')"
    by (simp add: ping_send_def read_clock_def try_write_def tcp_ops_def tick_def sample_world_def ping_durations)
  have "time_now (tcp_ops sample_codec tick) (env ?w) = (from_secs 31, sample_tcp [] [], from_secs 31 + 1)"
    by (simp add: tcp_ops_def tick_def sample_world_def)
  from ping_sent_iff_due [OF this r] have "s' = AwaitingResponse 0 (from_secs 31)"
    by (auto simp: ping_due_def from_secs_def)
  with r show ?thesis by blast
qed

end
