(* ===== verification/Subscriptions.thy ===== *)
theory Subscriptions
  imports Test_Doubles
begin

text \<open>
  \<open>src/src/state/sub2.rs\<close>: subscribe and unsubscribe requests.  A request waits in
  \<open>send_request\<close> until its packet is written, then in \<open>await_acks\<close> until the SUBACK or UNSUBACK
  arrives; it is sent again every 5 seconds.
\<close>

section \<open>State\<close>

definition SUB_RESEND_DURATION :: duration where
  "SUB_RESEND_DURATION = from_secs 5"

datatype request_type = Req_Subscribe qos | Req_Unsubscribe

fun is_unsub :: "request_type \<Rightarrow> bool" where
  "is_unsub (Req_Subscribe _) = False"
| "is_unsub Req_Unsubscribe = True"

definition create_subscribe_topic :: "codec \<Rightarrow> qos \<Rightarrow> string \<Rightarrow> subscribe_topic outcome" where
  "create_subscribe_topic cd q topic =
     (case string_try_from (topic_path_size cd) topic of
        None \<Rightarrow> Err TopicSizeError
      | Some path \<Rightarrow> Ok (path, q))"

definition create_unsubscribe_topic :: "codec \<Rightarrow> string \<Rightarrow> string outcome" where
  "create_unsubscribe_topic cd topic =
     (case string_try_from (topic_path_size cd) topic of
        None \<Rightarrow> Err TopicSizeError
      | Some path \<Rightarrow> Ok path)"

record sub_request =
  sub_topics :: "string list"
  sub_type :: request_type
  sub_pid :: pid
  sub_unique_id :: unique_id

definition create_packet :: "codec \<Rightarrow> sub_request \<Rightarrow> packet outcome" where
  "create_packet cd r =
     (case sub_type r of
        Req_Subscribe q \<Rightarrow>
          obind (collect_into (topics_size cd) (create_subscribe_topic cd q) (sub_topics r) [])
            (\<lambda>topics. Ok (Subscribe (sub_pid r) topics))
      | Req_Unsubscribe \<Rightarrow>
          obind (collect_into (topics_size cd) (create_unsubscribe_topic cd) (sub_topics r) [])
            (\<lambda>topics. Ok (Unsubscribe (sub_pid r) topics)))"

record await_ack =
  aa_request :: sub_request
  request_sent :: instant

definition new_await_ack :: "'e ops \<Rightarrow> sub_request \<Rightarrow> 's \<times> 'e world \<Rightarrow> await_ack \<times> 's \<times> 'e world" where
  "new_await_ack ops r st =
     (case read_clock ops st of (now, st1) \<Rightarrow> (\<lparr>aa_request = r, request_sent = now\<rparr>, st1))"

record subs_inner =
  send_request :: "sub_request list"
  await_acks :: "await_ack list"

definition new_subs :: subs_inner where
  "new_subs = \<lparr>send_request = [], await_acks = []\<rparr>"

section \<open>Sending\<close>

definition file_request :: "'e ops \<Rightarrow> sizes \<Rightarrow> sub_request \<Rightarrow> subs_inner \<times> 'e world \<Rightarrow> subs_inner \<times> 'e world" where
  \<comment> \<open>\<open>let _ = self.await_ack.push(AwaitAck::new(request))\<close>\<close>
  "file_request ops n r st =
     (case new_await_ack ops r st of (entry, s, w) \<Rightarrow>
        (case vec_push (QUEUE n) entry (await_acks s) of
           Inr q \<Rightarrow> (s\<lparr>await_acks := q\<rparr>, w)
         | Inl _ \<Rightarrow> (s, w)))"

lemma file_request_send_request [simp]:
  "send_request (fst (file_request ops n r st)) = send_request (fst st)"
  by (cases "time_now ops (env (snd st))")
    (auto simp: file_request_def new_await_ack_def read_clock_def split: sum.splits)

function send_requests :: "'e ops \<Rightarrow> codec \<Rightarrow> sizes \<Rightarrow> subs_inner \<times> 'e world
    \<Rightarrow> send_result outcome \<times> subs_inner \<times> 'e world" where
  "send_requests ops cd n st =
     (case send_request (fst st) of
        [] \<Rightarrow> (Ok SentAll, st)
      | request # rest \<Rightarrow>
          if vec_is_full (QUEUE n) (await_acks (fst st)) then (Ok PartiallySent, st)
          else
            and_then (create_packet cd request, st) (\<lambda>packet st.
            and_then (try_write ops packet st) (\<lambda>sent st1.
              if sent then
                (case send_request (fst st1) of
                   [] \<Rightarrow> (Panic, st1)
                 | request # rest \<Rightarrow>
                     send_requests ops cd n
                       (file_request ops n request ((fst st1)\<lparr>send_request := rest\<rparr>, snd st1)))
              else (Ok PartiallySent, st1))))"
  by pat_completeness auto
termination
  by (relation "measure (\<lambda>(ops, cd, n, st). length (send_request (fst st)))")
    (auto dest!: try_write_frame)

declare send_requests.simps [simp del]

fun resend_entries :: "'e ops \<Rightarrow> codec \<Rightarrow> instant \<Rightarrow> await_ack list \<times> 'e world
    \<Rightarrow> send_result outcome \<times> await_ack list \<times> 'e world" where
  \<comment> \<open>The loop of \<open>resend_requests\<close>; the waiting time restarts at the time after the write.\<close>
  "resend_entries ops cd now ([], w) = (Ok SentAll, [], w)"
| "resend_entries ops cd now (x # xs, w) =
     (if SUB_RESEND_DURATION < now - request_sent x then
        and_then (create_packet cd (aa_request x), x # xs, w) (\<lambda>packet st.
        and_then (try_write ops packet st) (\<lambda>sent st1.
          if sent then
            (case read_clock ops st1 of (now', _, w1) \<Rightarrow>
               (case resend_entries ops cd now (xs, w1) of
                  (r, ys, w2) \<Rightarrow> (r, x\<lparr>request_sent := now'\<rparr> # ys, w2)))
          else (Ok PartiallySent, st1)))
      else
        (case resend_entries ops cd now (xs, w) of (r, ys, w2) \<Rightarrow> (r, x # ys, w2)))"

definition resend_requests :: "'e ops \<Rightarrow> codec \<Rightarrow> subs_inner \<times> 'e world
    \<Rightarrow> send_result outcome \<times> subs_inner \<times> 'e world" where
  "resend_requests ops cd st =
     (case read_clock ops st of (now, s, w) \<Rightarrow>
        (case resend_entries ops cd now (await_acks s, w) of
           (r, q, w1) \<Rightarrow> (r, s\<lparr>await_acks := q\<rparr>, w1)))"

definition subs_send :: "'e ops \<Rightarrow> codec \<Rightarrow> sizes \<Rightarrow> subs_inner \<times> 'e world
    \<Rightarrow> send_result outcome \<times> subs_inner \<times> 'e world" where
  "subs_send ops cd n st =
     and_then (send_requests ops cd n st) (\<lambda>r st. send_next r (resend_requests ops cd) st)"

section \<open>Acknowledgements received\<close>

fun check_suback :: "subscribe_return_code list \<Rightarrow> string list \<Rightarrow> qos \<Rightarrow> unique_id \<Rightarrow> mqtt_event" where
  \<comment> \<open>The event published; return codes and topics are zipped.\<close>
  "check_suback (code # codes) (topic # topics) expected uid =
     (case code of
        Success q \<Rightarrow> check_suback codes topics expected uid
      | Failure \<Rightarrow> SubscribeDone uid (Inl SubscribeOrUnsubscribeFailed))"
| "check_suback _ _ expected uid = SubscribeDone uid (Inr expected)"

definition on_suback :: "pid \<Rightarrow> subscribe_return_code list \<Rightarrow> subs_inner \<times> 'e world
    \<Rightarrow> unit outcome \<times> subs_inner \<times> 'e world" where
  "on_suback pid codes st =
     (case st of (s, w) \<Rightarrow>
        (case position (\<lambda>a. sub_pid (aa_request a) = pid \<and> \<not> is_unsub (sub_type (aa_request a)))
                (await_acks s) of
           Some index \<Rightarrow>
             (let request = aa_request (await_acks s ! index) in
              case sub_type request of
                Req_Subscribe q \<Rightarrow>
                  (let w1 = world_free_pid pid w;
                       s1 = s\<lparr>await_acks := vec_remove index (await_acks s)\<rparr>
                   in (Ok (), s1,
                       publish_event (check_suback codes (sub_topics request) q (sub_unique_id request)) w1))
              | Req_Unsubscribe \<Rightarrow> (Ok (), s, w))
         | None \<Rightarrow> (Ok (), s, w)))"

definition on_unsuback :: "pid \<Rightarrow> subs_inner \<times> 'e world \<Rightarrow> subs_inner \<times> 'e world" where
  "on_unsuback pid st =
     (case st of (s, w) \<Rightarrow>
        (case position (\<lambda>a. sub_pid (aa_request a) = pid \<and> is_unsub (sub_type (aa_request a)))
                (await_acks s) of
           Some p \<Rightarrow>
             (let request = aa_request (await_acks s ! p);
                  s1 = s\<lparr>await_acks := vec_remove p (await_acks s)\<rparr>;
                  w1 = world_free_pid (sub_pid request) w
              in (s1, publish_event (UnsubscribeDone (sub_unique_id request)) w1))
         | None \<Rightarrow> (s, w)))"

section \<open>Adding a request\<close>

definition request_topics :: "sizes \<Rightarrow> string list \<Rightarrow> string list outcome" where
  \<comment> \<open>\<open>topics.iter().map(|topic| String::try_from(*topic).unwrap()).collect()\<close> into 5 topics\<close>
  "request_topics n topics =
     collect_into 5 (\<lambda>topic. unwrap_option (string_try_from (TOPIC n) topic)) topics []"

definition add_request :: "sizes \<Rightarrow> request_type \<Rightarrow> string list \<Rightarrow> unique_id \<Rightarrow> subs_inner \<times> 'e world
    \<Rightarrow> unit outcome \<times> subs_inner \<times> 'e world" where
  \<comment> \<open>\<open>add_subscribe_request\<close> and \<open>add_unsubscribe_request\<close>, which differ in the type of the request;
     a queue that stays full keeps the future waiting.\<close>
  "add_request n ty topics uid st =
     (if vec_is_full (QUEUE n) (send_request (fst st)) then (Pending, st)
      else
        and_then (request_topics n topics, st) (\<lambda>topics (s, w).
        and_then (case world_next_pid w of (r, w1) \<Rightarrow> (r, s, w1)) (\<lambda>pid (s, w).
          let request = \<lparr>sub_topics = topics, sub_type = ty, sub_pid = pid, sub_unique_id = uid\<rparr> in
          (Ok (), case vec_push (QUEUE n) request (send_request s) of
                    Inr q \<Rightarrow> s\<lparr>send_request := q\<rparr>
                  | Inl _ \<Rightarrow> s, w))))"

definition add_subscribe_request :: "sizes \<Rightarrow> string list \<Rightarrow> qos \<Rightarrow> unique_id \<Rightarrow> subs_inner \<times> 'e world
    \<Rightarrow> unit outcome \<times> subs_inner \<times> 'e world" where
  "add_subscribe_request n topics q uid st = add_request n (Req_Subscribe q) topics uid st"

definition add_unsubscribe_request :: "sizes \<Rightarrow> string list \<Rightarrow> unique_id \<Rightarrow> subs_inner \<times> 'e world
    \<Rightarrow> unit outcome \<times> subs_inner \<times> 'e world" where
  "add_unsubscribe_request n topics uid st = add_request n Req_Unsubscribe topics uid st"

section \<open>What sending does\<close>

definition subs_inv :: "sizes \<Rightarrow> subs_inner \<Rightarrow> bool" where
  "subs_inv n s \<longleftrightarrow> length (send_request s) \<le> QUEUE n \<and> length (await_acks s) \<le> QUEUE n"

context packet_sink begin

lemma file_request_step:
  assumes "length (await_acks s) < QUEUE n"
  obtains t w1 where "file_request ops n r (s, w) = (s\<lparr>await_acks := await_acks s @ [\<lparr>aa_request = r, request_sent = t\<rparr>]\<rparr>, w1)"
    "quiet w w1" "emits (env w) [] (env w1)"
proof -
  obtain t w1 where rc: "read_clock ops (s, w) = (t, s, w1)" "quiet w w1" by (rule read_clock_cases)
  moreover have "emits (env w) [] (env w1)" using read_clock_emitted [OF rc(1)] by (simp add: emitted_def)
  moreover have "file_request ops n r (s, w) = (s\<lparr>await_acks := await_acks s @ [\<lparr>aa_request = r, request_sent = t\<rparr>]\<rparr>, w1)"
    using rc assms by (simp add: file_request_def new_await_ack_def vec_push_def)
  ultimately show ?thesis using that by blast
qed

lemma send_requests_general:
  assumes "send_requests ops cd n (s, w) = (r, s', w')" and "length (await_acks s) \<le> QUEUE n"
  shows "\<exists>rs ps. emitted (s, w) ps (s', w') \<and> list_all2 (\<lambda>q p. create_packet cd q = Ok p) rs ps
    \<and> send_request s = rs @ send_request s' \<and> quiet w w'
    \<and> map aa_request (await_acks s') = map aa_request (await_acks s) @ rs \<and> length (await_acks s') \<le> QUEUE n"
  using assms
proof (induction "length (send_request s)" arbitrary: s w r rule: less_induct)
  case less
  show ?case
  proof (cases "send_request s = [] \<or> length (await_acks s) = QUEUE n")
    case True
    with less.prems have "s' = s" "w' = w"
      by (auto simp: send_requests.simps [of ops cd n] vec_is_full_def split: list.splits)
    with less.prems(2) show ?thesis by (intro exI [of _ "[]"]) simp
  next
    case False
    then obtain q rest where q: "send_request s = q # rest" by (cases "send_request s") auto
    from False less.prems(2) have room: "length (await_acks s) < QUEUE n" by simp
    show ?thesis
    proof (cases "create_packet cd q")
      case (Ok p)
      obtain o1 w1 where w: "try_write ops p (s, w) = (o1, s, w1)" by (rule try_write_cases)
      note fr = try_write_frame [OF w] and em = try_write_emitted [OF w]
      show ?thesis
      proof (cases "o1 = Ok True")
        case False
        with less.prems(1) q Ok room w have "s' = s" "w' = w1"
          by (cases o1; auto simp: send_requests.simps [of ops cd n] vec_is_full_def)+
        with fr em False less.prems(2) show ?thesis by (intro exI [of _ "[]"]) auto
      next
        case o1: True
        let ?s = "s\<lparr>send_request := rest\<rparr>"
        from room have "length (await_acks ?s) < QUEUE n" by simp
        then obtain t w2 where f: "file_request ops n q (?s, w1)
            = (?s\<lparr>await_acks := await_acks s @ [\<lparr>aa_request = q, request_sent = t\<rparr>]\<rparr>, w2)"
          "quiet w1 w2" "emits (env w1) [] (env w2)"
          by (rule file_request_step [of ?s]) auto
        let ?s2 = "?s\<lparr>await_acks := await_acks s @ [\<lparr>aa_request = q, request_sent = t\<rparr>]\<rparr>"
        from less.prems(1) q Ok room w o1 f(1) have rec: "send_requests ops cd n (?s2, w2) = (r, s', w')"
          by (simp add: send_requests.simps [of ops cd n "(s, w)"] vec_is_full_def)
        have lt: "length (send_request ?s2) < length (send_request s)" using q by simp
        have len: "length (await_acks ?s2) \<le> QUEUE n" using room by simp
        from less.hyps [OF lt rec len] obtain rs ps where rs:
          "emitted (?s2, w2) ps (s', w')" "list_all2 (\<lambda>q p. create_packet cd q = Ok p) rs ps"
          "rest = rs @ send_request s'" "quiet w2 w'"
          "map aa_request (await_acks s') = map aa_request (await_acks s) @ q # rs"
          "length (await_acks s') \<le> QUEUE n" by auto
        have "emits (env w) [p] (env w2)"
          using em o1 emits_append [OF _ f(3), of "env w" "[p]"] by (simp add: emitted_def)
        then have "emitted (s, w) (p # ps) (s', w')"
          using rs(1) emits_append [of "env w" "[p]" "env w2" ps "env w'"] by (simp add: emitted_def)
        moreover have "quiet w w'" using fr f(2) rs(4) by (auto intro: quiet_trans)
        ultimately show ?thesis using q rs Ok
          by (intro exI [of _ "q # rs"] exI [of _ "p # ps"]) simp
      qed
    qed (use less.prems q room in \<open>auto simp: send_requests.simps [of ops cd n] vec_is_full_def
        intro!: exI [of _ "[]"]\<close>)
  qed
qed

lemma resend_entries_general:
  assumes "resend_entries ops cd now (xs, w) = (r, ys, w')"
  shows "\<exists>zs ps. emitted (xs, w) ps (ys, w') \<and> list_all2 (\<lambda>q p. create_packet cd (aa_request q) = Ok p) zs ps
    \<and> subseq zs (filter (\<lambda>x. SUB_RESEND_DURATION < now - request_sent x) xs)
    \<and> map aa_request ys = map aa_request xs \<and> quiet w w'"
  using assms
proof (induction xs arbitrary: w r ys)
  case Nil
  then show ?case by (intro exI [of _ "[]"]) auto
next
  case (Cons x xs)
  show ?case
  proof (cases "SUB_RESEND_DURATION < now - request_sent x")
    case False
    with Cons.prems obtain zs1 where rec: "resend_entries ops cd now (xs, w) = (r, zs1, w')"
      and ys: "ys = x # zs1" by (auto split: prod.splits)
    from Cons.IH [OF rec] False ys show ?thesis
      by (elim exE, intro exI) (auto simp: emitted_def)
  next
    case late: True
    show ?thesis
    proof (cases "create_packet cd (aa_request x)")
      case (Ok p)
      obtain o1 w1 where w: "try_write ops p (x # xs, w) = (o1, x # xs, w1)" by (rule try_write_cases)
      note fr = try_write_frame [OF w] and em = try_write_emitted [OF w]
      show ?thesis
      proof (cases "o1 = Ok True")
        case False
        with Cons.prems late Ok w have "ys = x # xs" "w' = w1" by (cases o1; auto)+
        with fr em False show ?thesis by (intro exI [of _ "[]"]) auto
      next
        case o1: True
        obtain t w2 where rc: "read_clock ops (x # xs, w1) = (t, x # xs, w2)" "quiet w1 w2" by (rule read_clock_cases)
        from Cons.prems late Ok w o1 rc obtain zs1 where rec: "resend_entries ops cd now (xs, w2) = (r, zs1, w')"
          and ys: "ys = x\<lparr>request_sent := t\<rparr> # zs1" by (auto split: prod.splits)
        from Cons.IH [OF rec] obtain zs ps where zs: "emitted (xs, w2) ps (zs1, w')"
          "list_all2 (\<lambda>q p. create_packet cd (aa_request q) = Ok p) zs ps"
          "subseq zs (filter (\<lambda>x. SUB_RESEND_DURATION < now - request_sent x) xs)"
          "map aa_request zs1 = map aa_request xs" "quiet w2 w'" by blast
        have "emits (env w) [p] (env w2)"
          using em o1 read_clock_emitted [OF rc(1)] emits_append [of "env w" "[p]" "env w1" "[]"]
          by (simp add: emitted_def)
        then have "emitted (x # xs, w) (p # ps) (ys, w')"
          using zs(1) emits_append [of "env w" "[p]" "env w2" ps "env w'"] by (simp add: emitted_def)
        moreover have "quiet w w'" using fr rc(2) zs(5) by (auto intro: quiet_trans)
        ultimately show ?thesis using zs(2-4) late Ok ys
          by (intro exI [of _ "x # zs"] exI [of _ "p # ps"]) simp
      qed
    qed (use Cons.prems late in \<open>auto intro!: exI [of _ "[]"]\<close>)
  qed
qed

lemma subs_send_general:
  assumes "subs_send ops cd n (s, w) = (r, s', w')" and "length (await_acks s) \<le> QUEUE n"
  shows "\<exists>rs ps zs qs. emitted (s, w) (ps @ qs) (s', w') \<and> list_all2 (\<lambda>q p. create_packet cd q = Ok p) rs ps
    \<and> list_all2 (\<lambda>q p. create_packet cd q = Ok p) zs qs \<and> set zs \<subseteq> set (map aa_request (await_acks s) @ rs)
    \<and> send_request s = rs @ send_request s' \<and> quiet w w'
    \<and> map aa_request (await_acks s') = map aa_request (await_acks s) @ rs \<and> length (await_acks s') \<le> QUEUE n"
proof -
  obtain r1 s1 w1 where a: "send_requests ops cd n (s, w) = (r1, s1, w1)" by (rule prod_cases3)
  from send_requests_general [OF a assms(2)] obtain rs ps where rs: "emitted (s, w) ps (s1, w1)"
    "list_all2 (\<lambda>q p. create_packet cd q = Ok p) rs ps" "send_request s = rs @ send_request s1" "quiet w w1"
    "map aa_request (await_acks s1) = map aa_request (await_acks s) @ rs" "length (await_acks s1) \<le> QUEUE n" by blast
  show ?thesis
  proof (cases "r1 = Ok SentAll")
    case False
    have "s' = s1 \<and> w' = w1"
    proof (cases r1)
      case (Ok x)
      with False assms(1) a show ?thesis by (cases x) (auto simp: subs_send_def)
    qed (use assms(1) a in \<open>auto simp: subs_send_def\<close>)
    with rs show ?thesis
      by (intro exI [of _ rs] exI [of _ ps] exI [of _ "[]"]) simp
  next
    case True
    obtain now w2 where rc: "read_clock ops (s1, w1) = (now, s1, w2)" "quiet w1 w2" by (rule read_clock_cases)
    obtain r2 q w3 where b: "resend_entries ops cd now (await_acks s1, w2) = (r2, q, w3)" by (rule prod_cases3)
    from assms(1) a True rc b have s': "s' = s1\<lparr>await_acks := q\<rparr>" "w' = w3"
      by (simp_all add: subs_send_def resend_requests_def)
    from resend_entries_general [OF b] obtain zs qs where zs: "emitted (await_acks s1, w2) qs (q, w3)"
      "list_all2 (\<lambda>q p. create_packet cd (aa_request q) = Ok p) zs qs"
      "subseq zs (filter (\<lambda>x. SUB_RESEND_DURATION < now - request_sent x) (await_acks s1))"
      "map aa_request q = map aa_request (await_acks s1)" "quiet w2 w3" by blast
    have "emits (env w1) qs (env w3)"
      using zs(1) read_clock_emitted [OF rc(1)] emits_append [of "env w1" "[]" "env w2"] by (simp add: emitted_def)
    then have "emitted (s, w) (ps @ qs) (s', w')"
      using rs(1) emits_append s' by (simp add: emitted_def)
    moreover have "set (map aa_request zs) \<subseteq> set (map aa_request (await_acks s) @ rs)"
      using set_subseq [OF zs(3)] by (subst rs(5) [symmetric]) auto
    moreover have "list_all2 (\<lambda>q p. create_packet cd q = Ok p) (map aa_request zs) qs"
      using zs(2) by (simp add: list.rel_map)
    moreover have "quiet w w'" using rs(4) rc(2) zs(5) s' by (auto intro: quiet_trans)
    moreover have "length q = length (await_acks s1)" using zs(4) by (metis length_map)
    ultimately show ?thesis using rs(2,3,5,6) zs(4) s'
      by (intro exI [of _ rs] exI [of _ ps] exI [of _ "map aa_request zs"] exI [of _ qs]) simp
  qed
qed

end

end
