(* ===== verification/Subscription_Properties.thy ===== *)
theory Subscription_Properties
  imports Subscriptions Publish_Properties
begin

text \<open>
  The properties of subscribe and unsubscribe requests (\<open>src/src/state/sub2.rs\<close>).
\<close>


text \<open>C27: requests are sent in the order in which they were added: one call of \<open>send\<close> writes the
  packets of a prefix of the queue and moves exactly these requests, in order, behind those
  that wait for an acknowledgement; whatever else it writes are repetitions of waiting
  requests.  This holds whatever the outcome.\<close>

theorem subscriptions_sent_in_order:
  assumes "length (await_acks s) \<le> QUEUE n" and "subs_send (tcp_ops cd clock) cd n (s, w) = (r, s', w')"
  shows "\<exists>rs ps zs qs. tcp_emits cd (env w) (ps @ qs) (env w')
    \<and> list_all2 (\<lambda>q p. create_packet cd q = Ok p) rs ps
    \<and> list_all2 (\<lambda>q p. create_packet cd q = Ok p) zs qs \<and> set zs \<subseteq> set (map aa_request (await_acks s) @ rs)
    \<and> send_request s = rs @ send_request s'
    \<and> map aa_request (await_acks s') = map aa_request (await_acks s) @ rs \<and> quiet w w'"
  using tcp.subs_send_general [OF assms(2,1)] unfolding tcp.emitted_def by fastforce

definition sample_request :: "request_type \<Rightarrow> sub_request" where
  "sample_request ty = \<lparr>sub_topics = [''a'', ''b''], sub_type = ty, sub_pid = 7, sub_unique_id = UniqueID 3\<rparr>"

theorem subscriptions_sent_in_order_witness:
  "\<exists>r s' w' rs ps qs. subs_send (tcp_ops sample_codec tick) sample_codec sample_sizes
      (new_subs\<lparr>send_request := [sample_request (Req_Subscribe AtLeastOnce), sample_request Req_Unsubscribe]\<rparr>,
       sample_world (sample_tcp [] [], 0)) = (r, s', w')
    \<and> tcp_emits sample_codec (sample_tcp [] [], 0) (ps @ qs) (env w')
    \<and> list_all2 (\<lambda>q p. create_packet sample_codec q = Ok p) rs ps
    \<and> [sample_request (Req_Subscribe AtLeastOnce), sample_request Req_Unsubscribe] = rs @ send_request s'
    \<and> map aa_request (await_acks s') = rs"
proof -
  let ?s = "new_subs\<lparr>send_request := [sample_request (Req_Subscribe AtLeastOnce), sample_request Req_Unsubscribe]\<rparr>"
  let ?w = "sample_world (sample_tcp [] [], 0 :: nat)"
  obtain r s' w' where r: "subs_send (tcp_ops sample_codec tick) sample_codec sample_sizes (?s, ?w) = (r, s', w')"
    by (rule prod_cases3)
  have q: "length (await_acks ?s) \<le> QUEUE sample_sizes" "env ?w = (sample_tcp [] [], 0)" "map aa_request (await_acks ?s) = []"
    "send_request ?s = [sample_request (Req_Subscribe AtLeastOnce), sample_request Req_Unsubscribe]"
    by (simp_all add: new_subs_def sample_world_def)
  from subscriptions_sent_in_order [OF q(1) r] r show ?thesis unfolding q(2-4) append_Nil by metis
qed

lemma check_suback_eq:
  "check_suback codes topics q uid =
    SubscribeDone uid (if Failure \<in> set (take (length topics) codes) then Inl SubscribeOrUnsubscribeFailed else Inr q)"
  by (induction codes topics q uid rule: check_suback.induct)
    (auto split: subscribe_return_code.splits)

text \<open>C28: a SUBACK completes the oldest subscribe request with its packet identifier: the request
  is no longer waited for, the identifier is freed, and one completion is published, which is
  a failure exactly when one of the return codes that have a topic is a failure, and otherwise
  reports the requested quality of service.  Missing return codes count as success.\<close>

theorem suback_completes_request:
  assumes "position (\<lambda>a. sub_pid (aa_request a) = pid \<and> \<not> is_unsub (sub_type (aa_request a))) (await_acks s) = Some i"
    and "sub_type (aa_request (await_acks s ! i)) = Req_Subscribe q"
  shows "on_suback pid codes (s, w) =
    (Ok (), s\<lparr>await_acks := vec_remove i (await_acks s)\<rparr>,
     w\<lparr>pid_static := free_pid pid (pid_static w),
       event_log := event_log w @ [SubscribeDone (sub_unique_id (aa_request (await_acks s ! i)))
         (if Failure \<in> set (take (length (sub_topics (aa_request (await_acks s ! i)))) codes)
          then Inl SubscribeOrUnsubscribeFailed else Inr q)]\<rparr>)"
  using assms by (simp add: on_suback_def check_suback_eq world_free_pid_def publish_event_def)

theorem suback_completes_request_witness:
  "\<exists>s' w'. on_suback 7 [Success AtLeastOnce]
      (new_subs\<lparr>await_acks := [\<lparr>aa_request = sample_request (Req_Subscribe ExactlyOnce), request_sent = 0\<rparr>]\<rparr>,
       sample_world ()) = (Ok (), s', w') \<and> event_log w' = [SubscribeDone (UniqueID 3) (Inr ExactlyOnce)]"
  by (subst suback_completes_request [where i = 0 and q = ExactlyOnce])
    (simp_all add: sample_request_def new_subs_def sample_world_def)

section \<open>Every request completes once\<close>

definition sub_open_ids :: "subs_inner \<Rightarrow> unique_id multiset" where
  "sub_open_ids s = mset (map sub_unique_id (send_request s @ map aa_request (await_acks s)))"

fun sub_done :: "mqtt_event \<Rightarrow> unique_id option" where
  "sub_done (SubscribeDone u _) = Some u"
| "sub_done (UnsubscribeDone u) = Some u"
| "sub_done _ = None"

definition sub_done_ids :: "'e world \<Rightarrow> unique_id multiset" where
  "sub_done_ids w = mset (List.map_filter sub_done (event_log w))"

inductive sub_run :: "'e ops \<Rightarrow> codec \<Rightarrow> sizes \<Rightarrow> 'e world \<Rightarrow> subs_inner \<times> 'e world \<Rightarrow> unique_id list \<Rightarrow> bool"
  for ops cd n w0 where
  start: "sub_run ops cd n w0 (new_subs, w0) []"
| added: "sub_run ops cd n w0 (s, w) ids \<Longrightarrow> add_request n ty topics uid (s, w) = (Ok (), s', w')
    \<Longrightarrow> sub_run ops cd n w0 (s', w') (ids @ [uid])"
| suback: "sub_run ops cd n w0 (s, w) ids \<Longrightarrow> on_suback pid codes (s, w) = (r, s', w')
    \<Longrightarrow> sub_run ops cd n w0 (s', w') ids"
| unsuback: "sub_run ops cd n w0 (s, w) ids \<Longrightarrow> on_unsuback pid (s, w) = (s', w')
    \<Longrightarrow> sub_run ops cd n w0 (s', w') ids"
| sent: "sub_run ops cd n w0 (s, w) ids \<Longrightarrow> subs_send ops cd n (s, w) = (r, s', w')
    \<Longrightarrow> sub_run ops cd n w0 (s', w') ids"

lemma add_request_accounts:
  assumes "subs_inv n s" and "add_request n ty topics uid (s, w) = (Ok (), s', w')"
  shows "subs_inv n s' \<and> sub_open_ids s' = add_mset uid (sub_open_ids s) \<and> sub_done_ids w' = sub_done_ids w"
proof -
  from assms(2) obtain ts pid w1 where "length (send_request s) \<noteq> QUEUE n" "request_topics n topics = Ok ts"
    "world_next_pid w = (Ok pid, w1)" "w' = w1"
    and s': "s' = (case vec_push (QUEUE n) \<lparr>sub_topics = ts, sub_type = ty, sub_pid = pid, sub_unique_id = uid\<rparr>
      (send_request s) of Inr q \<Rightarrow> s\<lparr>send_request := q\<rparr> | Inl _ \<Rightarrow> s)"
    by (auto simp: add_request_def and_then_Ok vec_is_full_def Let_def split: if_splits prod.splits)
  moreover from \<open>world_next_pid w = (Ok pid, w1)\<close> have "event_log w1 = event_log w"
    by (auto simp: world_next_pid_def split: prod.splits)
  ultimately show ?thesis
    using assms(1) by (auto simp: subs_inv_def vec_push_def sub_open_ids_def sub_done_ids_def)
qed

lemma ack_removed:
  assumes "i < length (await_acks s)"
  shows "sub_open_ids s = add_mset (sub_unique_id (aa_request (await_acks s ! i)))
    (sub_open_ids (s\<lparr>await_acks := vec_remove i (await_acks s)\<rparr>))"
  using mset_map_vec_remove [OF assms, of "\<lambda>a. sub_unique_id (aa_request a)"]
  by (simp add: sub_open_ids_def comp_def)

lemma on_suback_accounts:
  assumes "subs_inv n s" and "on_suback pid codes (s, w) = (r, s', w')"
  shows "subs_inv n s' \<and> sub_open_ids s' + sub_done_ids w' = sub_open_ids s + sub_done_ids w"
proof (cases "position (\<lambda>a. sub_pid (aa_request a) = pid \<and> \<not> is_unsub (sub_type (aa_request a))) (await_acks s)")
  case None
  with assms show ?thesis by (simp add: on_suback_def del: position_None)
next
  case (Some i)
  then have i: "i < length (await_acks s)" using position_Some by blast
  from Some ack_removed [OF i] assms i show ?thesis
    by (auto simp: on_suback_def check_suback_eq subs_inv_def sub_done_ids_def Let_def split: request_type.splits)
qed

lemma on_unsuback_accounts:
  assumes "subs_inv n s" and "on_unsuback pid (s, w) = (s', w')"
  shows "subs_inv n s' \<and> sub_open_ids s' + sub_done_ids w' = sub_open_ids s + sub_done_ids w"
proof (cases "position (\<lambda>a. sub_pid (aa_request a) = pid \<and> is_unsub (sub_type (aa_request a))) (await_acks s)")
  case None
  with assms show ?thesis by (simp add: on_unsuback_def del: position_None)
next
  case (Some i)
  then have i: "i < length (await_acks s)" using position_Some by blast
  from Some ack_removed [OF i] assms i show ?thesis
    by (auto simp: on_unsuback_def subs_inv_def sub_done_ids_def Let_def)
qed

lemma subs_send_accounts:
  assumes "subs_inv n s" and "subs_send (tcp_ops cd clock) cd n (s, w) = (r, s', w')"
  shows "subs_inv n s' \<and> sub_open_ids s' = sub_open_ids s \<and> sub_done_ids w' = sub_done_ids w"
proof -
  from assms(1) have "length (await_acks s) \<le> QUEUE n" by (simp add: subs_inv_def)
  from tcp.subs_send_general [OF assms(2) this] obtain rs where
    rs: "send_request s = rs @ send_request s'" "quiet w w'"
    "map aa_request (await_acks s') = map aa_request (await_acks s) @ rs" "length (await_acks s') \<le> QUEUE n" by blast
  then have "mset (send_request s' @ map aa_request (await_acks s')) = mset (send_request s @ map aa_request (await_acks s))"
    by simp
  then have "sub_open_ids s' = sub_open_ids s" unfolding sub_open_ids_def by (metis mset_map)
  moreover have "length (send_request s') \<le> length (send_request s)" using rs(1) by (metis length_append le_add2)
  ultimately show ?thesis using rs(2,4) assms(1) by (auto simp: subs_inv_def sub_done_ids_def quiet_def)
qed

text \<open>C13: no subscribe or unsubscribe request is lost and none completes twice: at every moment of a
  run, the requests accepted so far are exactly those still in progress together with those
  whose completion was published.\<close>

theorem subscriptions_in_progress_or_done_once:
  assumes "sub_run (tcp_ops cd clock) cd n w0 (s, w) ids" and "sub_done_ids w0 = {#}"
  shows "mset ids = sub_open_ids s + sub_done_ids w \<and> subs_inv n s"
  using assms
proof (induction "(s, w)" ids arbitrary: s w rule: sub_run.induct)
  case start
  then show ?case by (simp add: sub_open_ids_def new_subs_def subs_inv_def)
next
  case (added s w ids ty topics uid s' w')
  with add_request_accounts [of n s ty topics uid w s' w'] show ?case by simp
next
  case (suback s w ids pid codes r s' w')
  with on_suback_accounts [of n s pid codes w r s' w'] show ?case by simp
next
  case (unsuback s w ids pid s' w')
  with on_unsuback_accounts [of n s pid w s' w'] show ?case by simp
next
  case (sent s w ids r s' w')
  with subs_send_accounts [of n s cd clock w r s' w'] show ?case by simp
qed

theorem subscriptions_in_progress_or_done_once_witness:
  "\<exists>s w. add_request sample_sizes Req_Unsubscribe [''a''] (UniqueID 3)
      (new_subs, sample_world (sample_tcp [] [], 0 :: nat)) = (Ok (), s, w) \<and> {#UniqueID 3#} = sub_open_ids s + sub_done_ids w"
proof -
  let ?w = "sample_world (sample_tcp [] [], 0 :: nat)"
  let ?r = "\<lparr>sub_topics = [''a''], sub_type = Req_Unsubscribe, sub_pid = 1, sub_unique_id = UniqueID 3\<rparr>"
  let ?w1 = "?w\<lparr>pid_static := \<lparr>pool = [], next_new_pid = 2\<rparr>\<rparr>"
  have a: "add_request sample_sizes Req_Unsubscribe [''a''] (UniqueID 3) (new_subs, ?w)
      = (Ok (), new_subs\<lparr>send_request := [?r]\<rparr>, ?w1)"
    by (simp add: add_request_def new_subs_def sample_sizes_def vec_is_full_def request_topics_def
        string_try_from_def world_next_pid_def next_pid_def pool_next_pid_def pid_take_def pid_try_from_def
        new_pid_pool_def sample_world_def vec_push_def)
  from sub_run.added [OF sub_run.start a]
  have "sub_run (tcp_ops sample_codec tick) sample_codec sample_sizes ?w (new_subs\<lparr>send_request := [?r]\<rparr>, ?w1) [UniqueID 3]"
    by simp
  moreover have "sub_done_ids ?w = {#}" by (simp add: sub_done_ids_def sample_world_def)
  ultimately have "mset [UniqueID 3] = sub_open_ids (new_subs\<lparr>send_request := [?r]\<rparr>) + sub_done_ids ?w1"
    using subscriptions_in_progress_or_done_once by blast
  with a show ?thesis by auto
qed

end
