(* ===== verification/Notifications.thy ===== *)
theory Notifications
  imports Control_Flow
begin

text \<open>
  \<open>src/src/state/request.rs\<close> and \<open>src/src/mutex.rs\<close>: how the tasks of a client wait for each other.
  The blocking mutexes around the state make every poll atomic.

  The waker registrations of \<open>embassy_sync\<close> are a parameter: a registry of type \<open>'w\<close> with the
  operations \<open>register\<close> and \<open>wake\<close>.  A waker is the number of the task it wakes.
\<close>

section \<open>Waker registrations\<close>

type_synonym task = nat

record 'w waker_ops =
  wr_register :: "task \<Rightarrow> 'w \<Rightarrow> 'w"
  wr_wake :: "'w \<Rightarrow> 'w"

text \<open>
  Their documented contract: a registered task is held until it is woken, and \<open>wake\<close> wakes every
  task held.  A registration without room for another task wakes tasks it holds to make room.
  \<open>held\<close> are the tasks registered and \<open>woken\<close> those that were woken so far.
\<close>

locale waker_registry =
  fixes wops :: "'w waker_ops"
    and held :: "'w \<Rightarrow> task set"
    and woken :: "'w \<Rightarrow> task set"
  assumes register_held: "t \<in> held (wr_register wops t r)"
    and register_keeps: "held r \<union> woken r \<subseteq> held (wr_register wops t r) \<union> woken (wr_register wops t r)"
    and wake_held: "held r \<union> woken r \<subseteq> woken (wr_wake wops r)"
begin

lemma wake_after_register: "t \<in> woken (wr_wake wops (wr_register wops t r))"
  using register_held wake_held by blast

end

section \<open>RequestState\<close>

datatype request_notification = NewRequest | DisconnectRequest

record 'w request_state =
  rq_waker :: 'w
  notification :: "request_notification option"

definition new_request_state :: "'w \<Rightarrow> 'w request_state" where
  "new_request_state r = \<lparr>rq_waker = r, notification = None\<rparr>"

definition poll_notification :: "'w waker_ops \<Rightarrow> task \<Rightarrow> 'w request_state
    \<Rightarrow> request_notification option \<times> 'w request_state" where
  \<comment> \<open>\<open>None\<close> is \<open>Poll::Pending\<close>.\<close>
  "poll_notification wops t s =
     (case notification s of
        Some DisconnectRequest \<Rightarrow> (Some DisconnectRequest, s)
      | Some other \<Rightarrow> (Some other, s\<lparr>notification := None\<rparr>)
      | None \<Rightarrow> (None, s\<lparr>rq_waker := wr_register wops t (rq_waker s)\<rparr>))"

definition notify :: "'w waker_ops \<Rightarrow> request_notification \<Rightarrow> 'w request_state \<Rightarrow> 'w request_state" where
  "notify wops n s =
     (let s1 = s\<lparr>notification :=
            (case notification s of Some DisconnectRequest \<Rightarrow> Some DisconnectRequest | _ \<Rightarrow> Some n)\<rparr>
      in s1\<lparr>rq_waker := wr_wake wops (rq_waker s1)\<rparr>)"

definition notify_new_request :: "'w waker_ops \<Rightarrow> 'w request_state \<Rightarrow> 'w request_state" where
  "notify_new_request wops s = notify wops NewRequest s"

definition notify_disconnect :: "'w waker_ops \<Rightarrow> 'w request_state \<Rightarrow> 'w request_state" where
  "notify_disconnect wops s = notify wops DisconnectRequest s"

text \<open>Runs: polls by tasks, and notifications from any task.\<close>

datatype request_action = Poll task | Notify request_notification

fun request_step :: "'w waker_ops \<Rightarrow> request_action \<Rightarrow> 'w request_state \<Rightarrow> 'w request_state" where
  "request_step wops (Poll t) s = snd (poll_notification wops t s)"
| "request_step wops (Notify n) s = notify wops n s"

lemma notify_notification [simp]:
  "notification (notify wops n s) =
    (if notification s = Some DisconnectRequest then Some DisconnectRequest else Some n)"
  by (auto simp: notify_def Let_def split: option.splits request_notification.splits)

lemma disconnect_kept:
  "notification s = Some DisconnectRequest \<Longrightarrow>
    notification (fold (request_step wops) as s) = Some DisconnectRequest"
proof (induction as arbitrary: s)
  case Nil
  then show ?case by simp
next
  case (Cons a as)
  then have "notification (request_step wops a s) = Some DisconnectRequest"
    by (cases a) (auto simp: poll_notification_def)
  with Cons.IH show ?case by simp
qed

section \<open>Mutex\<close>

record ('w, 't) mutex =
  mx_value :: 't
  mx_wakers :: 'w
  locked :: bool

definition new_mutex :: "'w \<Rightarrow> 't \<Rightarrow> ('w, 't) mutex" where
  "new_mutex r v = \<lparr>mx_value = v, mx_wakers = r, locked = False\<rparr>"

definition try_lock :: "('w, 't) mutex \<Rightarrow> bool \<times> ('w, 't) mutex" where
  "try_lock m = (if locked m then (False, m) else (True, m\<lparr>locked := True\<rparr>))"

definition poll_lock :: "'w waker_ops \<Rightarrow> task \<Rightarrow> ('w, 't) mutex \<Rightarrow> bool \<times> ('w, 't) mutex" where
  \<comment> \<open>\<open>True\<close> is \<open>Poll::Ready\<close> with the lock.\<close>
  "poll_lock wops t m =
     (if locked m then (False, m\<lparr>mx_wakers := wr_register wops t (mx_wakers m)\<rparr>)
      else (True, m\<lparr>locked := True\<rparr>))"

definition drop_lock :: "'w waker_ops \<Rightarrow> ('w, 't) mutex \<Rightarrow> ('w, 't) mutex" where
  "drop_lock wops m =
     (let m1 = m\<lparr>locked := False\<rparr> in m1\<lparr>mx_wakers := wr_wake wops (mx_wakers m1)\<rparr>)"

definition poll_try_with_lock :: "'w waker_ops \<Rightarrow> ('t \<Rightarrow> bool outcome \<times> 't) \<Rightarrow> task \<Rightarrow> ('w, 't) mutex
    \<Rightarrow> unit outcome \<times> ('w, 't) mutex" where
  \<comment> \<open>\<open>Pending\<close> is \<open>Poll::Pending\<close>; the operation itself does not wait.\<close>
  "poll_try_with_lock wops f t m =
     (if locked m then (Pending, m\<lparr>mx_wakers := wr_register wops t (mx_wakers m)\<rparr>)
      else
        (case f (mx_value m) of
           (r, v) \<Rightarrow>
             and_then (r, m\<lparr>mx_value := v\<rparr>) (\<lambda>ready m.
               if ready then (Ok (), m)
               else (Pending, m\<lparr>mx_wakers := wr_register wops t (mx_wakers m)\<rparr>))))"

text \<open>
  Runs of a mutex: \<open>h\<close> is the task that holds the lock.  The holder may change the value and
  drop the lock; any task may poll for the lock or poll an operation.
\<close>

inductive mutex_step :: "'w waker_ops \<Rightarrow> ('w, 't) mutex \<times> task list \<Rightarrow> ('w, 't) mutex \<times> task list \<Rightarrow> bool"
  for wops where
  acquire: "poll_lock wops t m = (True, m') \<Longrightarrow> mutex_step wops (m, hs) (m', t # hs)"
| wait: "poll_lock wops t m = (False, m') \<Longrightarrow> mutex_step wops (m, hs) (m', hs)"
| change: "h \<in> set hs \<Longrightarrow> mutex_step wops (m, hs) (m\<lparr>mx_value := v\<rparr>, hs)"
| release: "h \<in> set hs \<Longrightarrow> mutex_step wops (m, hs) (drop_lock wops m, remove1 h hs)"
| operate: "poll_try_with_lock wops f t m = (r, m') \<Longrightarrow> mutex_step wops (m, hs) (m', hs)"

inductive mutex_run :: "'w waker_ops \<Rightarrow> ('w, 't) mutex \<times> task list \<Rightarrow> ('w, 't) mutex \<times> task list \<Rightarrow> bool"
  for wops st where
  start: "mutex_run wops st st"
| step: "mutex_run wops st st1 \<Longrightarrow> mutex_step wops st1 st2 \<Longrightarrow> mutex_run wops st st2"

definition mutex_inv :: "('w, 't) mutex \<times> task list \<Rightarrow> bool" where
  "mutex_inv st \<longleftrightarrow> length (snd st) = (if locked (fst st) then 1 else 0)"

lemma poll_try_with_lock_frame:
  "poll_try_with_lock wops f t m = (r, m') \<Longrightarrow>
    locked m' = locked m \<and> (locked m \<longrightarrow> r = Pending \<and> mx_value m' = mx_value m)
    \<and> (mx_wakers m' = mx_wakers m \<or> mx_wakers m' = wr_register wops t (mx_wakers m))"
  by (cases "fst (f (mx_value m))")
    (auto simp: poll_try_with_lock_def split: prod.splits if_splits)

lemma mutex_step_inv: "mutex_step wops st st' \<Longrightarrow> mutex_inv st \<Longrightarrow> mutex_inv st'"
proof (induction rule: mutex_step.induct)
  case (release h hs m)
  then show ?case by (auto simp: mutex_inv_def drop_lock_def length_remove1 split: if_splits)
next
  case (operate f t m r m' hs)
  then show ?case by (auto simp: mutex_inv_def dest: poll_try_with_lock_frame)
qed (auto simp: mutex_inv_def poll_lock_def split: if_splits)

lemma mutex_run_inv: "mutex_run wops st st' \<Longrightarrow> mutex_inv st \<Longrightarrow> mutex_inv st'"
  by (induction rule: mutex_run.induct) (auto intro: mutex_step_inv)

context waker_registry begin

definition remembered :: "task \<Rightarrow> ('w, 't) mutex \<Rightarrow> bool" where
  "remembered t m \<longleftrightarrow> t \<in> held (mx_wakers m) \<union> woken (mx_wakers m)"

lemma register_remembered: "t \<in> held r \<union> woken r \<Longrightarrow> t \<in> held (wr_register wops u r) \<union> woken (wr_register wops u r)"
  using register_keeps [of r u] by blast

lemma mutex_step_remembers:
  "mutex_step wops st st' \<Longrightarrow> remembered t (fst st) \<Longrightarrow> remembered t (fst st')"
proof (induction rule: mutex_step.induct)
  case (release h hs m)
  then show ?case using wake_held [of "mx_wakers m"] by (auto simp: remembered_def drop_lock_def)
next
  case (operate f u m r m' hs)
  then have "mx_wakers m' = mx_wakers m \<or> mx_wakers m' = wr_register wops u (mx_wakers m)"
    by (auto dest: poll_try_with_lock_frame)
  with operate.prems register_remembered [of t "mx_wakers m" u] show ?case by (auto simp: remembered_def)
next
  case (wait u m m' hs)
  then show ?case using register_remembered [of t "mx_wakers m" u]
    by (auto simp: remembered_def poll_lock_def split: if_splits)
qed (auto simp: remembered_def poll_lock_def split: if_splits)

lemma mutex_run_remembers: "mutex_run wops st st' \<Longrightarrow> remembered t (fst st) \<Longrightarrow> remembered t (fst st')"
  by (induction rule: mutex_run.induct) (auto intro: mutex_step_remembers)

end

section \<open>The registrations as documented\<close>

text \<open>\<open>WakerRegistration\<close> holds one waker and wakes the one it replaces.
  \<open>MultiWakerRegistration<N>\<close> holds \<open>N\<close> of them and wakes all when it is full.  A registry is the
  list of tasks held and the list of tasks woken.\<close>

definition single_registry :: "(task list \<times> task list) waker_ops" where
  "single_registry =
     \<lparr>wr_register = (\<lambda>t (hs, ws). ([t], if hs = [t] then ws else ws @ hs)),
      wr_wake = (\<lambda>(hs, ws). ([], ws @ hs))\<rparr>"

definition multi_registry :: "nat \<Rightarrow> (task list \<times> task list) waker_ops" where
  "multi_registry cap =
     \<lparr>wr_register = (\<lambda>t (hs, ws).
        if t \<in> set hs then (hs, ws)
        else if length hs < cap then (hs @ [t], ws) else ([t], ws @ hs)),
      wr_wake = (\<lambda>(hs, ws). ([], ws @ hs))\<rparr>"

interpretation single: waker_registry single_registry "\<lambda>r. set (fst r)" "\<lambda>r. set (snd r)"
  by unfold_locales (auto simp: single_registry_def split: prod.splits)

interpretation multi: waker_registry "multi_registry cap" "\<lambda>r. set (fst r)" "\<lambda>r. set (snd r)" for cap
  by unfold_locales (auto simp: multi_registry_def split: prod.splits)

section \<open>Properties\<close>

text \<open>A disconnect request is never lost: once it was made, whatever else is notified and
  however often the notification is polled, every later poll gives the disconnect.\<close>

lemma disconnect_is_sticky:
  "fst (poll_notification wops t (fold (request_step wops) as (notify_disconnect wops s)))
    = Some DisconnectRequest"
  using disconnect_kept [of "notify_disconnect wops s" wops as]
  by (simp add: notify_disconnect_def poll_notification_def)

text \<open>No wake-up is lost between the event loop and the requests: a task whose poll found no
  notification is woken by the next notification, and the poll after it is ready.\<close>

lemma notification_wakes_waiting_task:
  assumes "waker_registry wops held woken" and "poll_notification wops t s = (None, s1)"
  shows "t \<in> woken (rq_waker (notify wops n s1)) \<and> fst (poll_notification wops t (notify wops n s1)) \<noteq> None"
  using assms(2) waker_registry.wake_after_register [OF assms(1)]
  by (auto simp: poll_notification_def notify_def split: option.splits request_notification.splits)

text \<open>C30: the mutex excludes: in every run at most one task holds the lock, the lock is marked as
  taken exactly while one does, and an operation run through \<open>try_with_lock\<close> while a task holds
  the lock waits and leaves the value alone.\<close>

theorem mutex_excludes:
  assumes "mutex_run wops (new_mutex r v, []) (m, hs)"
  shows "length hs \<le> 1 \<and> (locked m \<longleftrightarrow> hs \<noteq> [])
    \<and> (hs \<noteq> [] \<longrightarrow> fst (poll_lock wops t m) = False
        \<and> fst (poll_try_with_lock wops f t m) = Pending
        \<and> mx_value (snd (poll_try_with_lock wops f t m)) = mx_value m)"
proof -
  have "mutex_inv (m, hs)"
    using mutex_run_inv [OF assms] by (simp add: mutex_inv_def new_mutex_def)
  then have "length hs = (if locked m then 1 else 0)" by (simp add: mutex_inv_def)
  then show ?thesis by (auto simp: poll_lock_def poll_try_with_lock_def)
qed

lemma sample_mutex_run:
  "mutex_run wops (new_mutex r v, []) (new_mutex r v\<lparr>locked := True\<rparr>, [3])"
proof -
  have "mutex_step wops (new_mutex r v, []) (new_mutex r v\<lparr>locked := True\<rparr>, [3])"
    by (rule mutex_step.acquire) (simp add: poll_lock_def new_mutex_def)
  with mutex_run.start show ?thesis by (rule mutex_run.step)
qed

theorem mutex_excludes_witness:
  "fst (poll_lock (multi_registry 2) 4 (new_mutex ([], []) (0 :: nat)\<lparr>locked := True\<rparr>)) = False"
  using mutex_excludes [OF sample_mutex_run,
      where wops = "multi_registry 2" and r = "([], [])" and v = "0 :: nat" and t = 4] by simp

text \<open>No task waits for the mutex forever unnoticed: a task whose poll did not get the lock is
  woken at the latest when the lock is dropped, whatever the other tasks did in between.\<close>

lemma mutex_waiter_is_woken:
  assumes "waker_registry wops held woken" and "poll_lock wops t m = (False, m1)"
    and "mutex_run wops (m1, hs) (m2, hs2)"
  shows "t \<in> woken (mx_wakers (drop_lock wops m2))"
proof -
  have "waker_registry.remembered held woken t m1"
    using assms(2) waker_registry.register_held [OF assms(1)]
    by (auto simp: waker_registry.remembered_def [OF assms(1)] poll_lock_def split: if_splits)
  with waker_registry.mutex_run_remembers [OF assms(1,3)]
  have "t \<in> held (mx_wakers m2) \<union> woken (mx_wakers m2)"
    by (simp add: waker_registry.remembered_def [OF assms(1)])
  with waker_registry.wake_held [OF assms(1), of "mx_wakers m2"] show ?thesis
    by (auto simp: drop_lock_def)
qed

end
