(* ===== verification/Unique_Ids.thy ===== *)
theory Unique_Ids
  imports Id_Pool
begin

text \<open>
  \<open>UniqueIDPool\<close> of \<open>src/src/lib.rs\<close>: the ids that tie a client call to the event that
  completes it.  Like the packet identifier pool it reuses ids that were handed back, but an
  id that finds the queue of 16 full makes \<open>free\<close> panic.  The static pool is a value that the
  callers thread.
\<close>

section \<open>Operations\<close>

record unique_id_pool =
  next_unused :: u32
  uid_pool :: "u32 list"

definition UNIQUE_ID_POOL_SIZE :: nat where
  "UNIQUE_ID_POOL_SIZE = 16"

definition new_unique_id_pool :: unique_id_pool where
  "new_unique_id_pool = \<lparr>next_unused = 0, uid_pool = []\<rparr>"

definition uid_take :: "unique_id_pool \<Rightarrow> unique_id outcome \<times> unique_id_pool" where
  "uid_take p =
     (let uid = next_unused p in
      if next_unused p = 0xFFFFFFFF then (Panic, p)
      else (Ok (UniqueID uid), p\<lparr>next_unused := next_unused p + 1\<rparr>))"

definition uid_next :: "unique_id_pool \<Rightarrow> unique_id outcome \<times> unique_id_pool" where
  "uid_next p =
     (case uid_pool p of
        uid # rest \<Rightarrow> (Ok (UniqueID uid), p\<lparr>uid_pool := rest\<rparr>)
      | [] \<Rightarrow> uid_take p)"

fun uid_free :: "unique_id \<Rightarrow> unique_id_pool \<Rightarrow> unit outcome \<times> unique_id_pool" where
  "uid_free (UniqueID uid) p =
     (case vec_push UNIQUE_ID_POOL_SIZE uid (uid_pool p) of
        Inr q \<Rightarrow> (Ok (), p\<lparr>uid_pool := q\<rparr>)
      | Inl _ \<Rightarrow> (Panic, p))"

section \<open>The pool as an identifier pool\<close>

definition uids_issued :: "unique_id_pool \<Rightarrow> unique_id set" where
  "uids_issued p = UniqueID ` {w. w < next_unused p}"

definition uids_free :: "unique_id_pool \<Rightarrow> unique_id list" where
  "uids_free p = map UniqueID (uid_pool p)"

lemma uid_next_again:
  "uids_free p = i # is \<Longrightarrow> uid_next p = (Ok i, p\<lparr>uid_pool := tl (uid_pool p)\<rparr>)
    \<and> uids_free (p\<lparr>uid_pool := tl (uid_pool p)\<rparr>) = is"
  by (auto simp: uids_free_def uid_next_def)

lemma uid_next_fresh:
  assumes "uid_pool p = []" and "uid_next p = (Ok i, p')"
  shows "i \<notin> uids_issued p \<and> uid_pool p' = [] \<and> uids_issued p' = insert i (uids_issued p)"
proof -
  let ?w = "next_unused p"
  from assms have w: "?w \<noteq> - 1" and i: "i = UniqueID ?w" and p': "p' = p\<lparr>next_unused := ?w + 1\<rparr>"
    by (auto simp: uid_next_def uid_take_def Let_def split: if_splits)
  have "{v. v < ?w + 1} = insert ?w {v. v < ?w}"
    using w by (auto simp: word_less_inc_iff)
  then show ?thesis using assms(1) by (auto simp: i p' uids_issued_def)
qed

lemma uid_free_Ok:
  "uid_free i p = (Ok (), p') \<Longrightarrow> next_unused p' = next_unused p \<and> uids_free p' = uids_free p @ [i]"
  by (cases i) (auto simp: uids_free_def vec_push_def split: if_splits)

lemma uid_free_room:
  "length (uids_free p) < UNIQUE_ID_POOL_SIZE \<Longrightarrow>
    \<exists>p'. uid_free i p = (Ok (), p') \<and> uids_free p' = uids_free p @ [i]"
  by (cases i) (auto simp: uids_free_def vec_push_def)

interpretation uids: bounded_id_pool "\<lambda>_. True" uids_free uids_issued uid_next uid_free
  new_unique_id_pool UNIQUE_ID_POOL_SIZE
proof unfold_locales
  show "uids_free new_unique_id_pool = []" "uids_issued new_unique_id_pool = {}"
    by (auto simp: uids_free_def uids_issued_def new_unique_id_pool_def word_less_nat_alt)
next
  fix p :: unique_id_pool
  show "finite (uids_issued p)" by (simp add: uids_issued_def)
next
  fix p :: unique_id_pool and i rest
  assume "uids_free p = i # rest"
  from uid_next_again [OF this]
  show "\<exists>p'. uid_next p = (Ok i, p') \<and> True \<and> uids_free p' = rest \<and> uids_issued p' = uids_issued p"
    by (auto simp: uids_issued_def)
next
  fix p p' :: unique_id_pool and i
  assume "uids_free p = []" "uid_next p = (Ok i, p')"
  then show "i \<notin> uids_issued p \<and> True \<and> uids_free p' = [] \<and> uids_issued p' = insert i (uids_issued p)"
    using uid_next_fresh [of p i p'] by (auto simp: uids_free_def)
next
  fix p p' :: unique_id_pool and i
  assume "uid_free i p = (Ok (), p')"
  from uid_free_Ok [OF this]
  show "True \<and> uids_issued p' = uids_issued p
      \<and> (uids_free p' = uids_free p @ [i] \<or> uids_free p' = uids_free p)"
    by (simp add: uids_issued_def)
qed (auto intro: uid_free_room)

section \<open>Properties\<close>

text \<open>C33: in any run in which callers free only ids they hold, two calls that are in progress
  at the same time never share a unique id, so a completion event reaches one call only.\<close>

theorem unique_ids_are_unique:
  assumes "id_run uid_next uid_free new_unique_id_pool k p H"
    and "uid_next p = (Ok i, p')"
  shows "i \<notin> H"
  using assms by (rule uids.run_acquire_new)

lemma uid_run_one:
  "id_run uid_next uid_free new_unique_id_pool 2 \<lparr>next_unused = 1, uid_pool = []\<rparr> {UniqueID 0}"
  by (rule id_run.acquired [OF id_run.start, simplified])
    (simp_all add: uid_next_def uid_take_def new_unique_id_pool_def)

theorem unique_ids_are_unique_witness: "UniqueID 1 \<notin> {UniqueID 0}"
  by (rule unique_ids_are_unique [OF uid_run_one, where p' = "\<lparr>next_unused = 2, uid_pool = []\<rparr>"])
    (simp add: uid_next_def uid_take_def)

text \<open>While at most 16 unique ids are in use at a time, handing one back never panics and
  makes it available again.\<close>

lemma unique_id_free_never_panics:
  assumes "id_run uid_next uid_free new_unique_id_pool k p H" and "k \<le> 16" and "i \<in> H"
  shows "\<exists>p'. uid_free i p = (Ok (), p') \<and> uids_free p' = uids_free p @ [i]"
proof -
  from assms(2) have "k \<le> UNIQUE_ID_POOL_SIZE" by (simp add: UNIQUE_ID_POOL_SIZE_def)
  from uids.run_release_room [OF assms(1) this assms(3)] show ?thesis .
qed

text \<open>An id handed back while 16 others wait for reuse makes \<open>free\<close> panic, where its log
  message says that the id is dropped forever.\<close>

lemma unique_id_free_full_panics:
  assumes "length (uid_pool p) = 16"
  shows "uid_free i p = (Panic, p)"
  using assms by (cases i) (simp add: vec_push_def UNIQUE_ID_POOL_SIZE_def)

end
