(* ===== verification/Client_State.thy ===== *)
theory Client_State
  imports Ping Subscription_Properties Notifications Unique_Ids
begin

text \<open>
  \<open>src/src/state/mod.rs\<close> and \<open>src/src/client.rs\<close>: the state of a client, its event loop and the
  calls of \<open>MqttClient\<close>.

  Everything outside the crate is a field of \<open>runtime\<close>: codec, network, clock and timers, waker
  registrations, and the requests other tasks make.  Requests of other tasks take effect where
  the event loop waits: at the beginning of a round and in \<open>select3\<close>.
\<close>

section \<open>State\<close>

datatype client_request =
    Publish_Request string "byte list" qos bool unique_id
  | Subscribe_Request "string list" qos unique_id
  | Unsubscribe_Request "string list" unique_id
  | Disconnect_Request

record ('n, 'k, 'w) runtime =
  rt_codec :: codec
  rt_sizes :: sizes
  rt_net :: "'n network_ops"
  rt_clock :: "'k \<Rightarrow> instant \<times> 'k"
  rt_sleep :: "duration \<Rightarrow> 'k \<Rightarrow> 'k"
  rt_sleep_ready :: "duration \<Rightarrow> 'k \<Rightarrow> bool"
  rt_wakers :: "'w waker_ops"
  rt_task :: task
  rt_others :: "'k \<Rightarrow> client_request list \<times> 'k"

definition rt_ops :: "('n, 'k, 'w) runtime \<Rightarrow> ('n tcp \<times> 'k) ops" where
  "rt_ops rt = tcp_ops (rt_codec rt) (rt_clock rt)"

text \<open>The connection is in the world's environment, beside the clock.  \<open>uid_static\<close> is the static
  pool of unique ids, \<open>event_subscribers\<close> the number of subscribers of the event channel.\<close>

record 'w client_state =
  ping :: ping_state
  publishes :: publishes_inner
  received_publishes :: receives_inner
  subscribes :: subs_inner
  on_requst_added :: "'w request_state"
  event_subscribers :: nat
  uid_static :: unique_id_pool

type_synonym ('n, 'k, 'w) client = "'w client_state \<times> ('n tcp \<times> 'k) world"

definition conn :: "('n, 'k, 'w) client \<Rightarrow> 'n tcp" where
  "conn st = fst (env (snd st))"

definition RECONNECT_DURATION :: duration where
  "RECONNECT_DURATION = from_secs 5"

definition new_state :: "('n, 'k, 'w) runtime \<Rightarrow> client_config \<Rightarrow> last_will option \<Rightarrow> 'n \<Rightarrow> 'k \<Rightarrow> 'w
    \<Rightarrow> ('n, 'k, 'w) client" where
  "new_state rt config will net k wakers =
     (let w = \<lparr>pid_static = new_pid_pool, event_log = [], received_log = [],
               env = (new_tcp (BUFFER (rt_sizes rt)) net will config, k)\<rparr>
      in case new_ping (rt_ops rt) w of (pg, w1) \<Rightarrow>
        (\<lparr>ping = pg, publishes = new_publishes, received_publishes = new_receives,
          subscribes = new_subs, on_requst_added = new_request_state wakers,
          event_subscribers = 0, uid_static = new_unique_id_pool\<rparr>, w1))"

text \<open>A component's operation on the whole state.\<close>

definition in_publishes ::
  "(publishes_inner \<times> 'e world \<Rightarrow> 'a outcome \<times> publishes_inner \<times> 'e world)
    \<Rightarrow> 'w client_state \<times> 'e world \<Rightarrow> 'a outcome \<times> 'w client_state \<times> 'e world" where
  "in_publishes f st =
     (case f (publishes (fst st), snd st) of (r, p, w) \<Rightarrow> (r, (fst st)\<lparr>publishes := p\<rparr>, w))"

definition in_receives ::
  "(receives_inner \<times> 'e world \<Rightarrow> 'a outcome \<times> receives_inner \<times> 'e world)
    \<Rightarrow> 'w client_state \<times> 'e world \<Rightarrow> 'a outcome \<times> 'w client_state \<times> 'e world" where
  "in_receives f st =
     (case f (received_publishes (fst st), snd st) of
        (r, p, w) \<Rightarrow> (r, (fst st)\<lparr>received_publishes := p\<rparr>, w))"

definition in_subscribes ::
  "(subs_inner \<times> 'e world \<Rightarrow> 'a outcome \<times> subs_inner \<times> 'e world)
    \<Rightarrow> 'w client_state \<times> 'e world \<Rightarrow> 'a outcome \<times> 'w client_state \<times> 'e world" where
  "in_subscribes f st =
     (case f (subscribes (fst st), snd st) of (r, p, w) \<Rightarrow> (r, (fst st)\<lparr>subscribes := p\<rparr>, w))"

definition in_ping ::
  "(ping_state \<times> 'e world \<Rightarrow> 'a outcome \<times> ping_state \<times> 'e world)
    \<Rightarrow> 'w client_state \<times> 'e world \<Rightarrow> 'a outcome \<times> 'w client_state \<times> 'e world" where
  "in_ping f st = (case f (ping (fst st), snd st) of (r, p, w) \<Rightarrow> (r, (fst st)\<lparr>ping := p\<rparr>, w))"

definition on_connection ::
  "('n tcp \<Rightarrow> 'a outcome \<times> 'n tcp) \<Rightarrow> ('n, 'k, 'w) client \<Rightarrow> 'a outcome \<times> ('n, 'k, 'w) client" where
  "on_connection f st =
     (case f (conn st) of
        (r, c) \<Rightarrow> (r, fst st, (snd st)\<lparr>env := (c, snd (env (snd st)))\<rparr>))"

definition update_request ::
  "('w request_state \<Rightarrow> 'w request_state) \<Rightarrow> ('n, 'k, 'w) client \<Rightarrow> ('n, 'k, 'w) client" where
  "update_request f st = ((fst st)\<lparr>on_requst_added := f (on_requst_added (fst st))\<rparr>, snd st)"

section \<open>Requests\<close>

definition take_qospid :: "qos \<Rightarrow> ('n, 'k, 'w) client \<Rightarrow> qospid outcome \<times> ('n, 'k, 'w) client" where
  "take_qospid q st =
     (case q of
        AtMostOnce \<Rightarrow> (Ok QP_AtMostOnce, st)
      | AtLeastOnce \<Rightarrow>
          and_then (case world_next_pid (snd st) of (r, w) \<Rightarrow> (r, fst st, w)) (\<lambda>pid st. (Ok (QP_AtLeastOnce pid), st))
      | ExactlyOnce \<Rightarrow>
          and_then (case world_next_pid (snd st) of (r, w) \<Rightarrow> (r, fst st, w)) (\<lambda>pid st. (Ok (QP_ExactlyOnce pid), st)))"

definition state_publish :: "('n, 'k, 'w) runtime \<Rightarrow> string \<Rightarrow> byte list \<Rightarrow> qos \<Rightarrow> bool \<Rightarrow> unique_id
    \<Rightarrow> ('n, 'k, 'w) client \<Rightarrow> unit outcome \<times> ('n, 'k, 'w) client" where
  "state_publish rt topic bytes q retained uid st =
     and_then (take_qospid q st) (\<lambda>qp st.
       let publish = \<lparr>dup = False, qospid = qp, retain = retained, topic_name = topic, payload = bytes\<rparr> in
       and_then (in_publishes (\<lambda>(p, w). case publishes_publish (rt_sizes rt) publish uid p of
                                          (r, p') \<Rightarrow> (r, p', w)) st) (\<lambda>_ st.
         (Ok (), update_request (notify_new_request (rt_wakers rt)) st)))"

definition state_subscribe :: "('n, 'k, 'w) runtime \<Rightarrow> string list \<Rightarrow> qos \<Rightarrow> unique_id
    \<Rightarrow> ('n, 'k, 'w) client \<Rightarrow> unit outcome \<times> ('n, 'k, 'w) client" where
  "state_subscribe rt topics q uid st =
     and_then (in_subscribes (add_subscribe_request (rt_sizes rt) topics q uid) st) (\<lambda>_ st.
       (Ok (), update_request (notify_new_request (rt_wakers rt)) st))"

definition state_unsubscribe :: "('n, 'k, 'w) runtime \<Rightarrow> string list \<Rightarrow> unique_id
    \<Rightarrow> ('n, 'k, 'w) client \<Rightarrow> unit outcome \<times> ('n, 'k, 'w) client" where
  "state_unsubscribe rt topics uid st =
     and_then (in_subscribes (add_unsubscribe_request (rt_sizes rt) topics uid) st) (\<lambda>_ st.
       (Ok (), update_request (notify_new_request (rt_wakers rt)) st))"

definition state_disconnect :: "('n, 'k, 'w) runtime \<Rightarrow> ('n, 'k, 'w) client \<Rightarrow> ('n, 'k, 'w) client" where
  "state_disconnect rt st = update_request (notify_disconnect (rt_wakers rt)) st"

text \<open>What the other tasks do: each request that has to wait or panics leaves the state it reached.\<close>

fun perform :: "('n, 'k, 'w) runtime \<Rightarrow> client_request \<Rightarrow> ('n, 'k, 'w) client \<Rightarrow> ('n, 'k, 'w) client" where
  "perform rt (Publish_Request topic bytes q retained uid) st = snd (state_publish rt topic bytes q retained uid st)"
| "perform rt (Subscribe_Request topics q uid) st = snd (state_subscribe rt topics q uid st)"
| "perform rt (Unsubscribe_Request topics uid) st = snd (state_unsubscribe rt topics uid st)"
| "perform rt Disconnect_Request st = state_disconnect rt st"

definition other_tasks :: "('n, 'k, 'w) runtime \<Rightarrow> ('n, 'k, 'w) client \<Rightarrow> ('n, 'k, 'w) client" where
  "other_tasks rt st =
     (case rt_others rt (snd (env (snd st))) of
        (rs, k) \<Rightarrow> fold (perform rt) rs (fst st, (snd st)\<lparr>env := (conn st, k)\<rparr>))"

section \<open>The event loop\<close>

definition process_packet :: "('n, 'k, 'w) runtime \<Rightarrow> packet
    \<Rightarrow> ('n, 'k, 'w) client \<Rightarrow> unit outcome \<times> ('n, 'k, 'w) client" where
  "process_packet rt p st =
     (case p of
        Connack _ _ \<Rightarrow> (Panic, st)
      | Publish m \<Rightarrow> in_receives (on_publish (rt_sizes rt) m) st
      | Puback _ \<Rightarrow> in_publishes (process_incoming_packet (rt_sizes rt) p) st
      | Pubrec _ \<Rightarrow> in_publishes (process_incoming_packet (rt_sizes rt) p) st
      | Pubcomp _ \<Rightarrow> in_publishes (process_incoming_packet (rt_sizes rt) p) st
      | Pubrel pid \<Rightarrow> in_receives (on_pubrel (rt_sizes rt) pid) st
      | Suback pid codes \<Rightarrow> in_subscribes (on_suback pid codes) st
      | Unsuback pid \<Rightarrow> in_subscribes (\<lambda>s. (Ok (), on_unsuback pid s)) st
      | Pingresp \<Rightarrow> in_ping (\<lambda>s. (Ok (), on_ping_response (rt_ops rt) s)) st
      | _ \<Rightarrow> (Ok (), st))"

definition consume_packet :: "('n, 'k, 'w) runtime \<Rightarrow> nat \<times> packet
    \<Rightarrow> ('n, 'k, 'w) client \<Rightarrow> unit outcome \<times> ('n, 'k, 'w) client" where
  \<comment> \<open>\<open>process_packet(&packet).await?\<close>; the packet is dropped at the end of its scope, also on an error.\<close>
  "consume_packet rt m st =
     (case process_packet rt (snd m) st of
        (r, st1) \<Rightarrow> and_then (on_connection (drop_packet m) st1) (\<lambda>_ st2. (r, st2)))"

definition ensure_connected :: "('n, 'k, 'w) runtime \<Rightarrow> ('n, 'k, 'w) client \<Rightarrow> unit outcome \<times> ('n, 'k, 'w) client" where
  "ensure_connected rt st =
     (if get_state (conn st) \<noteq> Some Connected then
        (case tcp_connect (rt_codec rt) (rt_net rt) (conn st, pid_static (snd st)) of
           (r, c, p) \<Rightarrow> (r, fst st, (snd st)\<lparr>pid_static := p, env := (c, snd (env (snd st)))\<rparr>))
      else (Ok (), st))"

definition send_components :: "('n, 'k, 'w) runtime
    \<Rightarrow> ('n, 'k, 'w) client \<Rightarrow> send_result outcome \<times> ('n, 'k, 'w) client" where
  "send_components rt st =
     and_then (in_publishes (publishes_send_packets (rt_ops rt) (rt_sizes rt)) st) (\<lambda>r st.
     and_then (send_next r (in_receives (receives_send_packets (rt_ops rt) (rt_sizes rt))) st) (\<lambda>r st.
     and_then (send_next r (in_subscribes (subs_send (rt_ops rt) (rt_codec rt) (rt_sizes rt))) st) (\<lambda>r st.
       send_next r (in_ping (ping_send (rt_ops rt))) st)))"

definition poll_request :: "('n, 'k, 'w) runtime
    \<Rightarrow> ('n, 'k, 'w) client \<Rightarrow> request_notification option \<times> ('n, 'k, 'w) client" where
  "poll_request rt st =
     (case poll_notification (rt_wakers rt) (rt_task rt) (on_requst_added (fst st)) of
        (r, q) \<Rightarrow> (r, (fst st)\<lparr>on_requst_added := q\<rparr>, snd st))"

definition sleep_for :: "('n, 'k, 'w) runtime \<Rightarrow> duration \<Rightarrow> ('n, 'k, 'w) client \<Rightarrow> ('n, 'k, 'w) client" where
  \<comment> \<open>\<open>time::sleep(duration).await\<close>\<close>
  "sleep_for rt d st = (fst st, (snd st)\<lparr>env := (conn st, rt_sleep rt d (snd (env (snd st))))\<rparr>)"

definition await_event_round :: "('n, 'k, 'w) runtime
    \<Rightarrow> ('n, 'k, 'w) client \<Rightarrow> bool outcome \<times> ('n, 'k, 'w) client" where
  \<comment> \<open>\<open>select3(request_added_future, ping_future, io_future)\<close> and the match on its result.  The futures
     are polled in this order.  When none is ready at once, other tasks run, and the loop goes on
     when they made a request or, with the network idle, at the end of the ping pause.\<close>
  "await_event_round rt st =
     (case poll_request rt st of
        (Some n, st) \<Rightarrow> (Ok (n \<noteq> DisconnectRequest), st)
      | (None, st) \<Rightarrow>
          (case ping_pause (rt_ops rt) (ping (fst st), snd st) of
             (pause, _, w) \<Rightarrow>
               if rt_sleep_ready rt pause (snd (env w)) then (Ok True, fst st, w)
               else
                 (case on_connection (run_io (rt_codec rt) (rt_net rt)) (fst st, w) of
                    (Ok m, st) \<Rightarrow> and_then (consume_packet rt m st) (\<lambda>_ st. (Ok True, st))
                  | (Pending, st) \<Rightarrow>
                      (case poll_request rt (other_tasks rt st) of
                         (Some n, st) \<Rightarrow> (Ok (n \<noteq> DisconnectRequest), st)
                       | (None, st) \<Rightarrow> (Ok True, sleep_for rt pause st))
                  | (r, st) \<Rightarrow> (obind r (\<lambda>_. Ok True), st))))"

definition run_once :: "('n, 'k, 'w) runtime
    \<Rightarrow> ('n, 'k, 'w) client \<Rightarrow> bool outcome \<times> ('n, 'k, 'w) client" where
  "run_once rt st =
     and_then (ensure_connected rt st) (\<lambda>_ st.
     and_then (send_components rt st) (\<lambda>send_packet_result st.
       if send_packet_result = PartiallySent then
         and_then (on_connection (run_io_nonblocking (rt_codec rt) (rt_net rt)) st) (\<lambda>packet st.
           case packet of
             Some m \<Rightarrow> and_then (consume_packet rt m st) (\<lambda>_ st. (Ok True, st))
           | None \<Rightarrow> (Ok True, st))
       else await_event_round rt st))"

fun recoverable :: "mqtt_error \<Rightarrow> bool" where
  "recoverable (ConnectionFailed2 _) = True"
| "recoverable ConnackError = True"
| "recoverable (CodecError _) = True"
| "recoverable ReceivedMessageTooLong = True"
| "recoverable (QueueFull _) = True"
| "recoverable (UnexpectedAck _) = True"
| "recoverable _ = False"

definition set_error_and_sleep :: "('n, 'k, 'w) runtime \<Rightarrow> ('n, 'k, 'w) client \<Rightarrow> ('n, 'k, 'w) client" where
  "set_error_and_sleep rt st =
     (fst st, (snd st)\<lparr>env := (set_error (conn st), rt_sleep rt RECONNECT_DURATION (snd (env (snd st))))\<rparr>)"

definition run_round :: "('n, 'k, 'w) runtime
    \<Rightarrow> ('n, 'k, 'w) client \<Rightarrow> unit option outcome \<times> ('n, 'k, 'w) client" where
  \<comment> \<open>The body of the loop of \<open>run\<close>, after the requests other tasks made in the meantime\<close>
  "run_round rt st =
     (case run_once rt (other_tasks rt st) of
        (Ok True, st) \<Rightarrow> (Ok None, st)
      | (Ok False, st) \<Rightarrow>
          and_then (on_connection (tcp_disconnect (rt_codec rt) (rt_net rt)) st) (\<lambda>_ st. (Ok (Some ()), st))
      | (Err e, st) \<Rightarrow>
          if recoverable e then (Ok None, set_error_and_sleep rt st) else (Err e, st)
      | (r, st) \<Rightarrow> (obind r (\<lambda>_. Ok None), st))"

definition run :: "('n, 'k, 'w) runtime \<Rightarrow> ('n, 'k, 'w) client \<Rightarrow> unit outcome \<times> ('n, 'k, 'w) client" where
  "run rt st = run_loop (run_round rt) st"

section \<open>MqttClient\<close>

definition MAX_EVENT_SUBSCRIBERS :: nat where
  "MAX_EVENT_SUBSCRIBERS = 16"

definition subscribe_events :: "('n, 'k, 'w) client \<Rightarrow> unit outcome \<times> ('n, 'k, 'w) client" where
  "subscribe_events st =
     (if event_subscribers (fst st) < MAX_EVENT_SUBSCRIBERS
      then (Ok (), (fst st)\<lparr>event_subscribers := event_subscribers (fst st) + 1\<rparr>, snd st)
      else (Err (PubsubError 0), st))"

definition drop_subscriber :: "('n, 'k, 'w) client \<Rightarrow> ('n, 'k, 'w) client" where
  "drop_subscriber st = ((fst st)\<lparr>event_subscribers := event_subscribers (fst st) - 1\<rparr>, snd st)"

fun await_event :: "('m \<Rightarrow> 'u option) \<Rightarrow> 'm list \<Rightarrow> 'u outcome" where
  \<comment> \<open>The events published since the subscriber was created; after them the call waits.\<close>
  "await_event f [] = Pending"
| "await_event f (event # events) = (case f event of Some u \<Rightarrow> Ok u | None \<Rightarrow> await_event f events)"

definition new_unique_id :: "('n, 'k, 'w) client \<Rightarrow> unique_id outcome \<times> ('n, 'k, 'w) client" where
  "new_unique_id st =
     (case uid_next (uid_static (fst st)) of (r, p) \<Rightarrow> (r, (fst st)\<lparr>uid_static := p\<rparr>, snd st))"

definition free_unique_id :: "unique_id \<Rightarrow> ('n, 'k, 'w) client \<Rightarrow> unit outcome \<times> ('n, 'k, 'w) client" where
  "free_unique_id uid st =
     (case uid_free uid (uid_static (fst st)) of (r, p) \<Rightarrow> (r, (fst st)\<lparr>uid_static := p\<rparr>, snd st))"

definition call_and_wait :: "(unique_id \<Rightarrow> ('n, 'k, 'w) client \<Rightarrow> unit outcome \<times> ('n, 'k, 'w) client)
    \<Rightarrow> (unique_id \<Rightarrow> mqtt_event \<Rightarrow> (mqtt_error + unit) option)
    \<Rightarrow> (('n, 'k, 'w) client \<Rightarrow> ('n, 'k, 'w) client)
    \<Rightarrow> unique_id \<Rightarrow> ('n, 'k, 'w) client \<Rightarrow> unit outcome \<times> ('n, 'k, 'w) client" where
  \<comment> \<open>From making the request to handing back the unique id\<close>
  "call_and_wait request result meanwhile uid st =
     (case request uid st of
        (Ok _, st1) \<Rightarrow>
          (let st2 = meanwhile st1;
               events = drop (length (event_log (snd st))) (event_log (snd st2))
           in and_then (await_event (result uid) events, st2) (\<lambda>r st.
              and_then (free_unique_id uid (drop_subscriber st)) (\<lambda>_ st.
                (case r of Inr _ \<Rightarrow> Ok () | Inl e \<Rightarrow> Err e, st))))
      | (r, st1) \<Rightarrow> (r, drop_subscriber st1))"

definition client_call :: "(unique_id \<Rightarrow> ('n, 'k, 'w) client \<Rightarrow> unit outcome \<times> ('n, 'k, 'w) client)
    \<Rightarrow> (unique_id \<Rightarrow> mqtt_event \<Rightarrow> (mqtt_error + unit) option)
    \<Rightarrow> (('n, 'k, 'w) client \<Rightarrow> ('n, 'k, 'w) client)
    \<Rightarrow> ('n, 'k, 'w) client \<Rightarrow> unit outcome \<times> ('n, 'k, 'w) client" where
  \<comment> \<open>What \<open>publish\<close>, \<open>subscribe\<close> and \<open>unsubscribe\<close> share: \<open>request\<close> makes the request, \<open>result\<close>
     recognises the event that ends it and \<open>meanwhile\<close> is what happens while the call waits.\<close>
  "client_call request result meanwhile st =
     and_then (new_unique_id st) (\<lambda>uid st.
     and_then (subscribe_events st) (\<lambda>_ st.
       call_and_wait request result meanwhile uid st))"

definition client_publish :: "('n, 'k, 'w) runtime \<Rightarrow> string \<Rightarrow> byte list \<Rightarrow> qos \<Rightarrow> bool
    \<Rightarrow> (('n, 'k, 'w) client \<Rightarrow> ('n, 'k, 'w) client)
    \<Rightarrow> ('n, 'k, 'w) client \<Rightarrow> unit outcome \<times> ('n, 'k, 'w) client" where
  "client_publish rt topic bytes q retained =
     client_call (\<lambda>uid. state_publish rt topic bytes q retained uid)
       (\<lambda>uid event. case event of PublishDone u \<Rightarrow> if u = uid then Some (Inr ()) else None | _ \<Rightarrow> None)"

definition client_subscribe :: "('n, 'k, 'w) runtime \<Rightarrow> string \<Rightarrow> qos
    \<Rightarrow> (('n, 'k, 'w) client \<Rightarrow> ('n, 'k, 'w) client)
    \<Rightarrow> ('n, 'k, 'w) client \<Rightarrow> unit outcome \<times> ('n, 'k, 'w) client" where
  "client_subscribe rt topic q =
     client_call (\<lambda>uid. state_subscribe rt [topic] q uid)
       (\<lambda>uid event. case event of
          SubscribeDone u r \<Rightarrow> if u = uid then Some (map_sum id (\<lambda>_. ()) r) else None | _ \<Rightarrow> None)"

definition client_unsubscribe :: "('n, 'k, 'w) runtime \<Rightarrow> string
    \<Rightarrow> (('n, 'k, 'w) client \<Rightarrow> ('n, 'k, 'w) client)
    \<Rightarrow> ('n, 'k, 'w) client \<Rightarrow> unit outcome \<times> ('n, 'k, 'w) client" where
  "client_unsubscribe rt topic =
     client_call (\<lambda>uid. state_unsubscribe rt [topic] uid)
       (\<lambda>uid event. case event of UnsubscribeDone u \<Rightarrow> if u = uid then Some (Inr ()) else None | _ \<Rightarrow> None)"

definition client_disconnect :: "('n, 'k, 'w) runtime \<Rightarrow> ('n, 'k, 'w) client \<Rightarrow> ('n, 'k, 'w) client" where
  "client_disconnect rt st = state_disconnect rt st"

definition await_connected :: "('n, 'k, 'w) client \<Rightarrow> unit outcome" where
  \<comment> \<open>\<open>on_auto_subscribes_done\<close>\<close>
  "await_connected st = (if watch (conn st) = Some Connected then Ok () else Pending)"

end
