(* ===== verification/Client_Safety.thy ===== *)
theory Client_Safety
  imports Client_State Tcp_Session
begin

text \<open>
  The event loop keeps the invariants of its components, has no undefined behaviour, and meets
  the assertions on the connection state, whatever codec, network, clock and other tasks do.
\<close>

section \<open>Outcomes of the components\<close>

definition defined_sink :: "'e ops \<Rightarrow> bool" where
  "defined_sink ops \<longleftrightarrow> (\<forall>p e. fst (try_write_packet ops p e) \<noteq> Undefined_Behaviour)"

lemma defined_sink_write: "defined_sink ops \<Longrightarrow> try_write ops p st \<noteq> (Undefined_Behaviour, st')"
  by (auto simp: defined_sink_def try_write_def split: prod.splits) (metis fst_conv)

lemma defined_sink_tcp: "defined_sink (tcp_ops cd clock)"
  by (simp add: defined_sink_def tcp.write_defined)

lemma send_pubacks_defined: "defined_sink ops \<Longrightarrow> fst (send_pubacks ops i st) \<noteq> Undefined_Behaviour"
  by (induction ops i st rule: send_pubacks.induct)
    (subst send_pubacks.simps, auto simp: defined_sink_write split: and_then_split)

lemma send_pubrecs_defined: "defined_sink ops \<Longrightarrow> fst (send_pubrecs ops n i st) \<noteq> Undefined_Behaviour"
  by (induction ops n i st rule: send_pubrecs.induct)
    (subst send_pubrecs.simps, auto simp: defined_sink_write Let_def split: and_then_split)

lemma send_pubcomps_defined: "defined_sink ops \<Longrightarrow> fst (send_pubcomps ops i st) \<noteq> Undefined_Behaviour"
  by (induction ops i st rule: send_pubcomps.induct)
    (subst send_pubcomps.simps, auto simp: defined_sink_write split: and_then_split)

lemma receives_send_defined:
  assumes "defined_sink ops"
  shows "fst (receives_send_packets ops n st) \<noteq> Undefined_Behaviour"
  using send_pubacks_defined [OF assms, of 0 st] send_pubrecs_defined [OF assms, of n 0]
    send_pubcomps_defined [OF assms, of 0]
  by (auto simp: receives_send_packets_def split: and_then_split) (metis fst_conv)+

lemma create_packet_defined: "create_packet cd q \<noteq> Undefined_Behaviour"
proof -
  have "collect_into cap (create_subscribe_topic cd x) ts [] \<noteq> Undefined_Behaviour"
    "collect_into cap (create_unsubscribe_topic cd) ts [] \<noteq> Undefined_Behaviour" for cap x ts
    by (rule collect_into_defined, simp add: create_subscribe_topic_def create_unsubscribe_topic_def
        split: option.splits)+
  then show ?thesis
    unfolding create_packet_def by (cases "sub_type q") (simp_all add: obind_defined)
qed

lemma send_requests_defined: "defined_sink ops \<Longrightarrow> fst (send_requests ops cd n st) \<noteq> Undefined_Behaviour"
  by (induction ops cd n st rule: send_requests.induct)
    (subst send_requests.simps,
     auto simp: defined_sink_write create_packet_defined split: and_then_split list.splits)

lemma resend_entries_defined: "defined_sink ops \<Longrightarrow> fst (resend_entries ops cd now (xs, w)) \<noteq> Undefined_Behaviour"
proof (induction xs arbitrary: w)
  case (Cons x xs)
  then show ?case
    by (auto simp: defined_sink_write create_packet_defined split: and_then_split prod.splits)
      (metis fst_conv)+
qed simp

lemma subs_send_defined:
  assumes "defined_sink ops"
  shows "fst (subs_send ops cd n st) \<noteq> Undefined_Behaviour"
proof -
  obtain r st1 where x: "send_requests ops cd n st = (r, st1)" by (rule prod.exhaust)
  with send_requests_defined [OF assms, of cd n st] have "r \<noteq> Undefined_Behaviour" by simp
  moreover have "fst (resend_requests ops cd st1) \<noteq> Undefined_Behaviour"
    using resend_entries_defined [OF assms] by (auto simp: resend_requests_def split: prod.splits) (metis fst_conv)
  ultimately show ?thesis
    using x by (cases "r = Ok SentAll"; cases r) (auto simp: subs_send_def send_next_def split: and_then_split)
qed

lemma ping_send_defined: "defined_sink ops \<Longrightarrow> fst (ping_send ops st) \<noteq> Undefined_Behaviour"
  by (auto simp: ping_send_def defined_sink_write split: and_then_split prod.splits ping_state.splits)


section \<open>The invariant of a client\<close>

definition client_inv :: "sizes \<Rightarrow> 'w client_state \<Rightarrow> bool" where
  "client_inv n s \<longleftrightarrow> pub_inv n (publishes s) \<and> receives_inv n (received_publishes s) \<and> subs_inv n (subscribes s)"

definition disconnecting :: "'w client_state \<Rightarrow> bool" where
  "disconnecting s \<longleftrightarrow> notification (on_requst_added s) = Some DisconnectRequest"

text \<open>\<open>kept n st x\<close>: from a state with the invariant the result \<open>x\<close> is no undefined behaviour and
  has the invariant, the connection state is the same, and a request to disconnect is still there.\<close>

definition kept :: "sizes \<Rightarrow> ('n, 'k, 'w) client \<Rightarrow> 'a outcome \<times> ('n, 'k, 'w) client \<Rightarrow> bool" where
  "kept n st x \<longleftrightarrow> (client_inv n (fst st) \<longrightarrow> fst x \<noteq> Undefined_Behaviour \<and> client_inv n (fst (snd x))
     \<and> watch (conn (snd x)) = watch (conn st) \<and> connection (conn (snd x)) = connection (conn st)
     \<and> (disconnecting (fst st) \<longrightarrow> disconnecting (fst (snd x))))"

lemma kept_return: "r \<noteq> Undefined_Behaviour \<Longrightarrow> kept n st (r, st)"
  by (simp add: kept_def)

lemma kept_and_then:
  assumes "kept n st x" and "\<And>v st1. x = (Ok v, st1) \<Longrightarrow> kept n st1 (f v st1)"
  shows "kept n st (and_then x f)"
proof (cases "\<exists>v st1. x = (Ok v, st1)")
  case True
  then obtain v st1 where x: "x = (Ok v, st1)" by blast
  from assms(1) assms(2) [OF x] x show ?thesis by (simp add: kept_def)
next
  case False
  with assms(1) show ?thesis by (cases "(x, f)" rule: and_then.cases) (auto simp: kept_def)
qed

lemma kept_send_next: "(\<And>st. kept n st (f st)) \<Longrightarrow> kept n st (send_next r f st)"
  by (cases r) (simp_all add: kept_return)

lemma kept_on_connection: "(\<And>c. steady c (f c)) \<Longrightarrow> kept n st (on_connection f st)"
  by (cases "f (conn st)") (simp add: kept_def on_connection_def conn_def steady_def, metis fst_conv snd_conv)

lemma emits_conn: "tcp_emits cd e ps e' \<Longrightarrow> watch (fst e') = watch (fst e) \<and> connection (fst e') = connection (fst e)"
  by (auto simp: tcp_emits_def)

section \<open>Sending\<close>

lemma kept_publishes_send:
  "kept (rt_sizes rt) st (in_publishes (publishes_send_packets (rt_ops rt) (rt_sizes rt)) st)"
proof -
  obtain r p w where x: "publishes_send_packets (tcp_ops (rt_codec rt) (rt_clock rt)) (rt_sizes rt) (publishes (fst st), snd st)
    = (r, p, w)" by (rule prod_cases3)
  show ?thesis
    using tcp.publishes_send_general [OF x] x
    by (auto simp: kept_def in_publishes_def rt_ops_def client_inv_def accounts_def conn_def disconnecting_def
        tcp.emitted_def dest: emits_conn)
qed

lemma kept_receives_send:
  "kept (rt_sizes rt) st (in_receives (receives_send_packets (rt_ops rt) (rt_sizes rt)) st)"
proof -
  let ?ops = "tcp_ops (rt_codec rt) (rt_clock rt)"
  obtain r p w where x: "receives_send_packets ?ops (rt_sizes rt) (received_publishes (fst st), snd st)
    = (r, p, w)" by (rule prod_cases3)
  have "r \<noteq> Undefined_Behaviour"
    using receives_send_defined [OF defined_sink_tcp] x by (metis fst_conv)
  moreover have "receives_inv (rt_sizes rt) p \<and> watch (fst (env w)) = watch (conn st) \<and> connection (fst (env w)) = connection (conn st)"
    if inv: "receives_inv (rt_sizes rt) (received_publishes (fst st))"
  proof -
    from inv have "length (await_pubrel (received_publishes (fst st))) \<le> QUEUE (rt_sizes rt)" by (simp add: receives_inv_def)
    from tcp.receives_send_general [OF x this] send_holding [OF inv x] show ?thesis
      by (auto simp: tcp.emitted_def conn_def dest: emits_conn)
  qed
  ultimately show ?thesis
    using x by (auto simp: kept_def in_receives_def rt_ops_def client_inv_def conn_def disconnecting_def)
qed

lemma kept_subs_send:
  "kept (rt_sizes rt) st (in_subscribes (subs_send (rt_ops rt) (rt_codec rt) (rt_sizes rt)) st)"
proof -
  let ?ops = "tcp_ops (rt_codec rt) (rt_clock rt)"
  obtain r p w where x: "subs_send ?ops (rt_codec rt) (rt_sizes rt) (subscribes (fst st), snd st)
    = (r, p, w)" by (rule prod_cases3)
  have "r \<noteq> Undefined_Behaviour"
    using subs_send_defined [OF defined_sink_tcp] x by (metis fst_conv)
  moreover have "subs_inv (rt_sizes rt) p \<and> watch (fst (env w)) = watch (conn st) \<and> connection (fst (env w)) = connection (conn st)"
    if inv: "subs_inv (rt_sizes rt) (subscribes (fst st))"
  proof -
    from inv have "length (await_acks (subscribes (fst st))) \<le> QUEUE (rt_sizes rt)" by (simp add: subs_inv_def)
    from tcp.subs_send_general [OF x this] subs_send_accounts [OF inv x] show ?thesis
      by (auto simp: tcp.emitted_def conn_def dest: emits_conn)
  qed
  ultimately show ?thesis
    using x by (auto simp: kept_def in_subscribes_def rt_ops_def client_inv_def conn_def disconnecting_def)
qed

lemma ping_send_emits:
  assumes "ping_send (tcp_ops cd clock) (s, w) = (r, s', w')"
  shows "\<exists>ps. tcp_emits cd (env w) ps (env w')"
proof -
  obtain now w0 where rc: "read_clock (tcp_ops cd clock) (s, w) = (now, s, w0)" "quiet w w0" by (rule read_clock_cases)
  have e0: "tcp_emits cd (env w) [] (env w0)" using tcp.read_clock_emitted [OF rc(1)] by (simp add: tcp.emitted_def)
  show ?thesis
  proof (cases "ping_due now s")
    case False
    with tcp.ping_send_cases [OF rc(1)] assms e0 show ?thesis by auto
  next
    case True
    with tcp.ping_send_cases [OF rc(1)] obtain r1 w1 where
      t: "try_write (tcp_ops cd clock) Pingreq (s, w0) = (r1, s, w1)" "w' = w1" using assms by auto
    from tcp.try_write_emitted [OF t(1)] tcp.emits_append [OF e0] t(2) show ?thesis
      unfolding tcp.emitted_def snd_conv by blast
  qed
qed

lemma kept_ping_send: "kept (rt_sizes rt) st (in_ping (ping_send (rt_ops rt)) st)"
proof -
  let ?ops = "tcp_ops (rt_codec rt) (rt_clock rt)"
  obtain r p w where x: "ping_send ?ops (ping (fst st), snd st) = (r, p, w)" by (rule prod_cases3)
  have "r \<noteq> Undefined_Behaviour" using ping_send_defined [OF defined_sink_tcp] x by (metis fst_conv)
  moreover obtain ps where "tcp_emits (rt_codec rt) (env (snd st)) ps (env w)" using ping_send_emits [OF x] by blast
  ultimately show ?thesis
    using x by (auto dest!: emits_conn simp: kept_def in_ping_def rt_ops_def client_inv_def conn_def disconnecting_def)
qed

lemma kept_send_components: "kept (rt_sizes rt) st (send_components rt st)"
  unfolding send_components_def
  by (intro kept_and_then kept_send_next kept_publishes_send kept_receives_send kept_subs_send kept_ping_send)


section \<open>Packets received\<close>

lemma process_incoming_defined: "fst (process_incoming_packet n p st) \<noteq> Undefined_Behaviour"
  by (auto simp: process_incoming_packet_def process_puback_def process_pubrec_def process_pubcomp_def Let_def
      split: packet.splits prod.splits option.splits sum.splits)

lemma process_incoming_frame:
  assumes "process_incoming_packet n p (s, w) = (r, s', w')"
  shows "env w' = env w \<and> (pub_inv n s \<longrightarrow> pub_inv n s')"
proof -
  have "env w' = env w"
    using assms by (auto simp: process_incoming_packet_def process_puback_def process_pubrec_def process_pubcomp_def
        Let_def split: packet.splits prod.splits option.splits sum.splits)
  moreover have "pub_inv n s'" if "pub_inv n s"
  proof (cases "\<exists>pid. p = Pubrec pid")
    case True
    then obtain pid where "process_pubrec n pid (s, w) = (r, s', w')" using assms by (auto simp: process_incoming_packet_def)
    from process_pubrec_accounts [OF that this] show ?thesis by simp
  next
    case False
    then have "\<forall>q. r \<noteq> Err (QueueFull q)"
      using assms by (auto simp: process_incoming_packet_def process_puback_def process_pubcomp_def Let_def
          split: packet.splits option.splits)
    with received_accounts [OF that assms] show ?thesis by simp
  qed
  ultimately show ?thesis by blast
qed

lemma kept_incoming: "kept n st (in_publishes (process_incoming_packet n p) st)"
proof -
  obtain r s w where x: "process_incoming_packet n p (publishes (fst st), snd st) = (r, s, w)" by (rule prod_cases3)
  with process_incoming_frame [OF x] process_incoming_defined [of n p "(publishes (fst st), snd st)"]
  show ?thesis by (auto simp: kept_def in_publishes_def client_inv_def conn_def disconnecting_def)
qed

lemma deliver_frame: "fst (deliver n p (s, w)) \<noteq> Undefined_Behaviour \<and> env (snd (snd (deliver n p (s, w)))) = env w"
  by (simp add: deliver_eq)

lemma on_publish_frame: "fst (on_publish n p (s, w)) \<noteq> Undefined_Behaviour \<and> env (snd (snd (on_publish n p (s, w)))) = env w"
  by (auto simp: on_publish_def on_qos_2_publish_def deliver_eq Let_def split: qospid.splits sum.splits)

lemma on_pubrel_frame: "fst (on_pubrel n i (s, w)) \<noteq> Undefined_Behaviour \<and> env (snd (snd (on_pubrel n i (s, w)))) = env w"
  by (auto simp: on_pubrel_def Let_def split: sum.splits option.splits)

lemma kept_received:
  assumes "receives_inv n (received_publishes (fst st)) \<Longrightarrow>
      receives_inv n (fst (snd (f (received_publishes (fst st), snd st))))"
    and "fst (f (received_publishes (fst st), snd st)) \<noteq> Undefined_Behaviour"
    and "env (snd (snd (f (received_publishes (fst st), snd st)))) = env (snd st)"
  shows "kept n st (in_receives f st)"
  using assms by (cases "f (received_publishes (fst st), snd st)")
    (auto simp: kept_def in_receives_def client_inv_def conn_def disconnecting_def)

lemma on_suback_frame: "fst (on_suback pid codes (s, w)) \<noteq> Undefined_Behaviour
    \<and> env (snd (snd (on_suback pid codes (s, w)))) = env w"
  by (auto simp: on_suback_def Let_def split: option.splits request_type.splits)

lemma on_unsuback_frame: "env (snd (on_unsuback pid (s, w))) = env w"
  by (auto simp: on_unsuback_def Let_def split: option.splits)

lemma kept_subacked:
  assumes "subs_inv n (subscribes (fst st)) \<Longrightarrow> subs_inv n (fst (snd (f (subscribes (fst st), snd st))))"
    and "fst (f (subscribes (fst st), snd st)) \<noteq> Undefined_Behaviour"
    and "env (snd (snd (f (subscribes (fst st), snd st)))) = env (snd st)"
  shows "kept n st (in_subscribes f st)"
  using assms by (cases "f (subscribes (fst st), snd st)")
    (auto simp: kept_def in_subscribes_def client_inv_def conn_def disconnecting_def)

lemma kept_pingresp: "kept n st (in_ping (\<lambda>s. (Ok (), on_ping_response (rt_ops rt) s)) st)"
  by (auto simp: kept_def in_ping_def on_ping_response_def read_clock_def rt_ops_def tcp_ops_def client_inv_def
      conn_def disconnecting_def split: prod.splits)

lemma kept_process_packet: "kept (rt_sizes rt) st (process_packet rt p st)"
proof (cases p)
  case (Publish m)
  then show ?thesis
    by (auto simp: process_packet_def on_publish_frame intro!: kept_received on_publish_inv)
next
  case (Pubrel i)
  then show ?thesis
    by (auto simp: process_packet_def on_pubrel_frame intro!: kept_received on_pubrel_inv)
next
  case (Suback i codes)
  have "subs_inv (rt_sizes rt) (fst (snd (on_suback i codes (subscribes (fst st), snd st))))"
    if "subs_inv (rt_sizes rt) (subscribes (fst st))"
    using on_suback_accounts [OF that, of i codes "snd st"] by (metis prod.collapse)
  with Suback show ?thesis by (auto simp: process_packet_def on_suback_frame intro!: kept_subacked)
next
  case (Unsuback i)
  have "subs_inv (rt_sizes rt) (fst (on_unsuback i (subscribes (fst st), snd st)))"
    if "subs_inv (rt_sizes rt) (subscribes (fst st))"
    using on_unsuback_accounts [OF that, of i "snd st"] by (metis prod.collapse)
  with Unsuback show ?thesis by (auto simp: process_packet_def on_unsuback_frame intro!: kept_subacked)
qed (simp_all add: process_packet_def kept_incoming kept_pingresp kept_return)

lemma kept_consume_packet: "kept (rt_sizes rt) st (consume_packet rt m st)"
proof -
  obtain r st1 where x: "process_packet rt (snd m) st = (r, st1)" by (rule prod.exhaust)
  with kept_process_packet [of rt st "snd m"] have k: "kept (rt_sizes rt) st (r, st1)" by simp
  have d: "kept (rt_sizes rt) st1 (on_connection (drop_packet m) st1)"
    by (rule kept_on_connection) (rule steady_drop_packet)
  obtain r2 st2 where y: "on_connection (drop_packet m) st1 = (r2, st2)" by (rule prod.exhaust)
  from k d y x show ?thesis by (cases r2) (auto simp: consume_packet_def kept_def)
qed

section \<open>Requests\<close>

definition frame :: "sizes \<Rightarrow> ('n, 'k, 'w) client \<Rightarrow> ('n, 'k, 'w) client \<Rightarrow> bool" where
  "frame n st st' \<longleftrightarrow> kept n st (Ok (), st')"

lemma frame_refl [simp]: "frame n st st"
  by (simp add: frame_def kept_return)

lemma frame_trans: "frame n st st1 \<Longrightarrow> frame n st1 st2 \<Longrightarrow> frame n st st2"
  by (simp add: frame_def kept_def)

lemma kept_frame: "kept n st x \<Longrightarrow> frame n st (snd x)"
  by (auto simp: frame_def kept_def)

lemma frame_kept: "frame n st st1 \<Longrightarrow> kept n st1 x \<Longrightarrow> kept n st x"
  by (simp add: frame_def kept_def)

lemma frame_notify:
  "frame n st (update_request (notify_new_request wops) st)" "frame n st (update_request (notify_disconnect wops) st)"
  by (simp_all add: frame_def kept_def update_request_def notify_new_request_def notify_disconnect_def
      client_inv_def conn_def disconnecting_def)

lemma kept_notify: "kept n st (Ok (), update_request (notify_new_request wops) st)"
  using frame_notify(1) by (simp add: frame_def)

lemma kept_take_qospid: "kept n st (take_qospid q st)"
proof -
  have "fst (next_pid p) \<noteq> Undefined_Behaviour" for p
    by (auto simp: next_pid_def pool_next_pid_def pid_take_def pid_try_from_def Let_def split: list.splits)
  then have "kept n st (case world_next_pid (snd st) of (r, w) \<Rightarrow> (r, fst st, w))"
    by (auto simp: kept_def world_next_pid_def conn_def split: prod.splits) (metis fst_conv)
  then show ?thesis unfolding take_qospid_def by (cases q) (auto intro!: kept_and_then kept_return)
qed

lemma kept_add_publish:
  "kept n st (in_publishes (\<lambda>(p, w). case publishes_publish n m uid p of (r, p') \<Rightarrow> (r, p', w)) st)"
proof -
  have "pub_inv n s \<Longrightarrow> publishes_publish n m uid s = (r, s') \<Longrightarrow> r \<noteq> Undefined_Behaviour \<and> pub_inv n s'" for s r s'
    using publishes_publish_eq [of s n m uid] by (auto simp: pub_inv_def split: if_splits)
  then show ?thesis
    by (auto simp: kept_def in_publishes_def client_inv_def conn_def disconnecting_def split: prod.splits)
qed

lemma frame_state_publish: "frame (rt_sizes rt) st (snd (state_publish rt topic bytes q retained uid st))"
  unfolding state_publish_def Let_def
  by (intro kept_frame kept_and_then kept_take_qospid kept_add_publish kept_notify)

lemma add_request_keeps:
  assumes "subs_inv n s"
  shows "subs_inv n (fst (snd (add_request n ty topics uid (s, w))))
    \<and> env (snd (snd (add_request n ty topics uid (s, w)))) = env w"
  using assms
  by (auto simp: add_request_def subs_inv_def vec_is_full_def vec_push_def world_next_pid_def Let_def
      split: and_then_split prod.splits)

lemma frame_in_subscribes:
  assumes "\<And>s w. subs_inv n s \<Longrightarrow> subs_inv n (fst (snd (f (s, w)))) \<and> env (snd (snd (f (s, w)))) = env w"
  shows "frame n st (snd (and_then (in_subscribes f st) (\<lambda>_ st. (Ok (), update_request (notify_new_request wops) st))))"
proof -
  obtain r s w where x: "f (subscribes (fst st), snd st) = (r, s, w)" by (rule prod_cases3)
  have 1: "frame n st ((fst st)\<lparr>subscribes := s\<rparr>, w)"
    using assms [of "subscribes (fst st)" "snd st"] x
    by (auto simp: frame_def kept_def client_inv_def conn_def disconnecting_def)
  then show ?thesis
    using x frame_trans [OF 1 frame_notify(1)] by (cases r) (auto simp: in_subscribes_def)
qed

lemma frame_perform: "frame (rt_sizes rt) st (perform rt req st)"
  by (cases req)
    (auto simp: frame_state_publish state_subscribe_def state_unsubscribe_def state_disconnect_def frame_notify add_subscribe_request_def add_unsubscribe_request_def add_request_keeps
      intro!: frame_in_subscribes)

lemma frame_perform_all: "frame (rt_sizes rt) st (fold (perform rt) rs st)"
proof (induction rs arbitrary: st)
  case (Cons req rs)
  show ?case using frame_trans [OF frame_perform Cons.IH] by simp
qed simp

lemma frame_other_tasks: "frame (rt_sizes rt) st (other_tasks rt st)"
proof -
  obtain rs k where x: "rt_others rt (snd (env (snd st))) = (rs, k)" by (rule prod.exhaust)
  have "frame (rt_sizes rt) st (fst st, (snd st)\<lparr>env := (conn st, k)\<rparr>)"
    by (simp add: frame_def kept_def conn_def)
  from frame_trans [OF this frame_perform_all] x show ?thesis by (simp add: other_tasks_def)
qed

section \<open>A round\<close>

lemma frame_poll_request: "poll_request rt st = (r, st') \<Longrightarrow> frame n st st'"
  by (auto simp: poll_request_def poll_notification_def frame_def kept_def client_inv_def conn_def disconnecting_def
      split: option.splits request_notification.splits)

lemma frame_sleep_for: "frame n st (sleep_for rt d st)"
  by (simp add: sleep_for_def frame_def kept_def conn_def)

lemma kept_await_event_round: "kept (rt_sizes rt) st (await_event_round rt st)"
proof -
  obtain q st1 where p: "poll_request rt st = (q, st1)" by (rule prod.exhaust)
  note f1 = frame_poll_request [OF p, of "rt_sizes rt"]
  show ?thesis
  proof (cases q)
    case (Some n)
    with f1 p show ?thesis by (simp add: await_event_round_def frame_kept kept_return)
  next
    case None
    obtain pause s w where pp: "ping_pause (rt_ops rt) (ping (fst st1), snd st1) = (pause, s, w)" by (rule prod_cases3)
    have "conn (fst st1, w) = conn st1"
      using pp by (auto simp: ping_pause_def read_clock_def rt_ops_def tcp_ops_def conn_def split: prod.splits)
    then have f2: "frame (rt_sizes rt) st (fst st1, w)"
      using f1 by (auto simp: frame_def kept_def)
    obtain r st2 where io: "on_connection (run_io (rt_codec rt) (rt_net rt)) (fst st1, w) = (r, st2)"
      by (rule prod.exhaust)
    have k: "kept (rt_sizes rt) (fst st1, w) (r, st2)"
      unfolding io [symmetric] by (rule kept_on_connection) (rule steady_run_io)
    obtain q2 st3 where p2: "poll_request rt (other_tasks rt st2) = (q2, st3)" by (rule prod.exhaust)
    have f3: "frame (rt_sizes rt) (fst st1, w) st3"
      using kept_frame [OF k] frame_other_tasks frame_poll_request [OF p2]
      unfolding snd_conv by (rule frame_trans [OF frame_trans])
    have c: "kept (rt_sizes rt) st2 (and_then (consume_packet rt m st2) (\<lambda>_ st. (Ok True, st)))" for m
      by (intro kept_and_then kept_consume_packet kept_return) simp
    have "kept (rt_sizes rt) (fst st1, w) (case (r, st2) of
        (Ok m, st) \<Rightarrow> and_then (consume_packet rt m st) (\<lambda>_ st. (Ok True, st))
      | (Pending, st) \<Rightarrow> (case poll_request rt (other_tasks rt st) of
           (Some n, st) \<Rightarrow> (Ok (n \<noteq> DisconnectRequest), st) | (None, st) \<Rightarrow> (Ok True, sleep_for rt pause st))
      | (r, st) \<Rightarrow> (obind r (\<lambda>_. Ok True), st))"
    proof (cases r)
      case (Ok m)
      with frame_kept [OF kept_frame [OF k]] c [of m] show ?thesis by simp
    next
      case Pending
      have f4: "frame (rt_sizes rt) (fst st1, w) (sleep_for rt pause st3)"
        using f3 frame_sleep_for by (rule frame_trans)
      show ?thesis
      proof (cases q2)
        case None
        with Pending p2 frame_kept [OF f4 kept_return, of "Ok True"] show ?thesis by simp
      next
        case (Some x)
        with Pending p2 frame_kept [OF f3 kept_return, of "Ok (x \<noteq> DisconnectRequest)"] show ?thesis by simp
      qed
    qed (use k in \<open>auto simp: kept_def\<close>)
    with None p pp io f2 show ?thesis
      by (auto simp: await_event_round_def intro: frame_kept kept_return)
  qed
qed

lemma ensure_connected_state:
  assumes "ensure_connected rt st = (r, st')"
  shows "r \<noteq> Undefined_Behaviour \<and> fst st' = fst st \<and> (r = Ok () \<longrightarrow> watch (conn st') = Some Connected)"
proof (cases "get_state (conn st) = Some Connected")
  case True
  with assms show ?thesis by (auto simp: ensure_connected_def get_state_def)
next
  case False
  obtain r1 c p where x: "tcp_connect (rt_codec rt) (rt_net rt) (conn st, pid_static (snd st)) = (r1, c, p)"
    by (rule prod_cases3)
  from tcp_connect_state [OF x] x False assms show ?thesis by (auto simp: ensure_connected_def conn_def)
qed

text \<open>A round that returns leaves the connection Connected: the assertions in \<open>run_io\<close>,
  \<open>run_io_nonblocking\<close> and \<open>disconnect\<close> hold.\<close>

lemma run_once_state:
  assumes "run_once rt st = (r, st')" and inv: "client_inv (rt_sizes rt) (fst st)"
  shows "r \<noteq> Undefined_Behaviour \<and> client_inv (rt_sizes rt) (fst st')
    \<and> (\<forall>b. r = Ok b \<longrightarrow> watch (conn st') = Some Connected)
    \<and> (disconnecting (fst st) \<longrightarrow> disconnecting (fst st'))"
proof -
  obtain r1 st1 where e: "ensure_connected rt st = (r1, st1)" by (rule prod.exhaust)
  note s1 = ensure_connected_state [OF e]
  let ?rest = "and_then (send_components rt st1) (\<lambda>send_packet_result st.
       if send_packet_result = PartiallySent then
         and_then (on_connection (run_io_nonblocking (rt_codec rt) (rt_net rt)) st) (\<lambda>packet st.
           case packet of
             Some m \<Rightarrow> and_then (consume_packet rt m st) (\<lambda>_ st. (Ok True, st))
           | None \<Rightarrow> (Ok True, st))
       else await_event_round rt st)"
  have k: "kept (rt_sizes rt) st1 ?rest"
    by (intro kept_and_then kept_send_components)
      (auto intro!: kept_and_then kept_await_event_round kept_on_connection steady_run_io_nonblocking
        kept_consume_packet kept_return split: option.splits)
  show ?thesis
  proof (cases "r1 = Ok ()")
    case True
    with assms(1) e have "(r, st') = ?rest" by (simp add: run_once_def)
    with k have "kept (rt_sizes rt) st1 (r, st')" by simp
    with s1 True inv show ?thesis by (simp add: kept_def)
  next
    case False
    with assms(1) e s1 inv show ?thesis by (cases r1) (auto simp: run_once_def)
  qed
qed

end
