(* ===== verification/Pid_Lending.thy ===== *)
theory Pid_Lending
  imports Subscription_Properties
begin

text \<open>
  The packet identifiers in flight: what the outgoing publishes (\<open>src/src/state/publish2.rs\<close>) and
  the subscriptions (\<open>src/src/state/sub2.rs\<close>) hold of the pool of \<open>src/src/state/pid.rs\<close>.  Every
  operation keeps the identifiers held distinct and apart from those the pool will issue again.
\<close>

definition lent :: "pid multiset \<Rightarrow> pid_pool \<Rightarrow> bool" where
  \<comment> \<open>\<open>U\<close> are the identifiers in flight\<close>
  "lent U p \<longleftrightarrow> (\<forall>i. count U i \<le> 1) \<and> pids.owned p (set_mset U)"

definition sub_pids :: "subs_inner \<Rightarrow> pid multiset" where
  "sub_pids s = mset (map sub_pid (send_request s @ map aa_request (await_acks s)))"

named_theorems lent_intros \<open>operations that keep the identifiers in flight distinct\<close>

lemma lent_new [simp]: "lent {#} new_pid_pool"
  using pids.run_owned [OF id_run.start] by (simp add: lent_def)

lemma lent_mono: "lent U p \<Longrightarrow> V \<subseteq># U \<Longrightarrow> lent V p"
proof -
  assume l: "lent U p" and V: "V \<subseteq># U"
  have "count V i \<le> 1" for i
    using l mset_subset_eq_count [OF V, of i] by (auto simp: lent_def intro: le_trans)
  moreover have "set_mset V \<subseteq> set_mset U" using V by (rule set_mset_mono)
  with l have "pids.owned p (set_mset V)" by (auto simp: lent_def pids.owned_def)
  ultimately show ?thesis by (simp add: lent_def)
qed

lemma lent_next:
  assumes "lent U p" and "next_pid p = (r, p')"
  shows "(\<forall>i. r = Ok i \<longrightarrow> i \<noteq> 0 \<and> i \<notin># U \<and> lent (add_mset i U) p') \<and> lent U p'"
proof (cases "\<exists>i. r = Ok i")
  case True
  then obtain i where r: "r = Ok i" by blast
  from assms(1) have own: "pids.owned p (set_mset U)" by (simp add: lent_def)
  from pids.owned_acquire [OF own assms(2) [unfolded r]] have i: "i \<notin># U" "pids.owned p' (insert i (set_mset U))" by auto
  then have l: "lent (add_mset i U) p'" using assms(1) by (auto simp: lent_def not_in_iff)
  have "i \<in> pids_issued p'" using i(2) by (simp add: pids.owned_def)
  then have "i \<noteq> 0" by (auto simp: pids_issued_def)
  with r i l lent_mono [OF l, of U] show ?thesis by simp
next
  case False
  have "p' = p"
  proof (cases "pool p")
    case Nil
    with assms False show ?thesis
      by (auto simp: next_pid_def pool_next_pid_def pid_take_def pid_try_from_def lent_def pids.owned_def pid_inv_def
          Let_def split: if_splits)
  next
    case (Cons j js)
    with assms(1) have "j \<in> pids_issued p" by (simp add: lent_def pids.owned_def)
    from next_pid_again [OF Cons this] assms(2) False show ?thesis by auto
  qed
  with assms(1) False show ?thesis by auto
qed

lemma lent_free: "lent (add_mset i U) p \<Longrightarrow> lent U (free_pid i p)"
proof -
  assume l: "lent (add_mset i U) p"
  then have "i \<notin># U" by (auto simp: lent_def count_eq_zero_iff [symmetric] dest: spec [of _ i])
  moreover have "pids.owned (free_pid i p) (insert i (set_mset U) - {i})"
    using l by (intro pids.owned_release) (simp_all add: lent_def)
  moreover have "count U j \<le> 1" for j
    using l by (cases "j = i") (auto simp: lent_def dest: spec [of _ j])
  ultimately show ?thesis by (simp add: lent_def)
qed

section \<open>Outgoing publishes\<close>

lemma process_puback_pids:
  assumes "process_puback pid (s, w) = (r, s', w')" and "lent (open_pids s + F) (pid_static w)"
  shows "lent (open_pids s' + F) (pid_static w')"
proof (cases "position (\<lambda>p. ap_pid p = pid) (await_pubacks s)")
  case None
  with assms show ?thesis by (simp add: process_puback_def del: position_None)
next
  case (Some i)
  then have i: "i < length (await_pubacks s)" using position_Some by blast
  have s': "s' = s\<lparr>await_pubacks := vec_remove i (await_pubacks s)\<rparr>"
    "pid_static w' = free_pid (ap_pid (await_pubacks s ! i)) (pid_static w)"
    using assms(1) Some by (auto simp: process_puback_def Let_def)
  have "open_pids s = add_mset (ap_pid (await_pubacks s ! i)) (open_pids s')"
    using mset_map_vec_remove [OF i, of ap_pid] by (simp add: s' open_pids_def)
  with assms(2) s' show ?thesis by (auto intro: lent_free)
qed

lemma process_pubcomp_pids:
  assumes "process_pubcomp pid (s, w) = (r, s', w')" and "lent (open_pids s + F) (pid_static w)"
  shows "lent (open_pids s' + F) (pid_static w')"
proof (cases "position (\<lambda>p. ac_pid p = pid) (await_pubcomps s)")
  case None
  with assms show ?thesis by (simp add: process_pubcomp_def del: position_None)
next
  case (Some i)
  then have i: "i < length (await_pubcomps s)" using position_Some by blast
  have s': "s' = s\<lparr>await_pubcomps := vec_remove i (await_pubcomps s)\<rparr>"
    "pid_static w' = free_pid (ac_pid (await_pubcomps s ! i)) (pid_static w)"
    using assms(1) Some by (auto simp: process_pubcomp_def Let_def)
  have "open_pids s = add_mset (ac_pid (await_pubcomps s ! i)) (open_pids s')"
    using mset_map_vec_remove [OF i, of ac_pid] by (simp add: s' open_pids_def)
  with assms(2) s' show ?thesis by (auto intro: lent_free)
qed

text \<open>A PUBREC moves the identifier on with its request, or loses both.\<close>

lemma process_pubrec_pids:
  assumes "process_pubrec n pid (s, w) = (r, s', w')" and "lent (open_pids s + F) (pid_static w)"
  shows "lent (open_pids s' + F) (pid_static w')"
proof -
  have "open_pids s' \<subseteq># open_pids s \<and> w' = w"
  proof (cases "position (\<lambda>p. ap_pid p = pid) (await_pubrecs s)")
    case None
    with assms(1) show ?thesis
      by (auto simp: process_pubrec_def vec_push_def open_pids_def new_anonymous_def simp del: position_None split: if_splits)
  next
    case (Some i)
    then have i: "i < length (await_pubrecs s)" using position_Some by blast
    from mset_map_vec_remove [OF i, of ap_pid] Some assms(1) show ?thesis
      by (auto simp: process_pubrec_def vec_push_def open_pids_def send_pubrel_from_def split: if_splits)
        (metis mset_subset_eq_add_right add_mset_add_single mset_subset_eq_add_left)
  qed
  with assms(2) show ?thesis by (auto intro: lent_mono)
qed

lemma process_incoming_pids:
  assumes "process_incoming_packet n p (s, w) = (r, s', w')" and "lent (open_pids s + F) (pid_static w)"
  shows "lent (open_pids s' + F) (pid_static w')"
  using assms process_puback_pids process_pubrec_pids process_pubcomp_pids
  by (cases p) (auto simp: process_incoming_packet_def)

lemma added_pids:
  assumes "pub_inv n s" and "publishes_publish n p uid s = (r, s')"
  shows "open_pids s' = open_pids s \<or>
    open_pids s' = open_pids s + (case qospid_pid (qospid p) of Some i \<Rightarrow> {#i#} | None \<Rightarrow> {#})"
proof -
  from assms(1) have "length (send_publish s) \<le> QUEUE n" by (simp add: pub_inv_def)
  from publishes_publish_eq [OF this, of p uid] assms(2) show ?thesis
    by (auto simp: open_pids_def publish.defs split: if_splits option.splits)
qed

section \<open>Subscriptions\<close>

lemma sub_ack_removed_pids:
  "i < length (await_acks s) \<Longrightarrow>
    sub_pids s = add_mset (sub_pid (aa_request (await_acks s ! i))) (sub_pids (s\<lparr>await_acks := vec_remove i (await_acks s)\<rparr>))"
  using mset_map_vec_remove [of i "await_acks s" "\<lambda>a. sub_pid (aa_request a)"]
  by (simp add: sub_pids_def comp_def)

lemma on_suback_pids:
  assumes "on_suback pid codes (s, w) = (r, s', w')" and "lent (sub_pids s + F) (pid_static w)"
  shows "lent (sub_pids s' + F) (pid_static w')"
proof (cases "position (\<lambda>a. sub_pid (aa_request a) = pid \<and> \<not> is_unsub (sub_type (aa_request a))) (await_acks s)")
  case None
  with assms show ?thesis by (simp add: on_suback_def del: position_None)
next
  case (Some i)
  then have i: "i < length (await_acks s)" "sub_pid (aa_request (await_acks s ! i)) = pid"
    using position_Some by fastforce+
  from Some assms sub_ack_removed_pids [OF i(1)] i show ?thesis
    by (auto simp: on_suback_def Let_def intro: lent_free split: request_type.splits)
qed

lemma on_unsuback_pids:
  assumes "on_unsuback pid (s, w) = (s', w')" and "lent (sub_pids s + F) (pid_static w)"
  shows "lent (sub_pids s' + F) (pid_static w')"
proof (cases "position (\<lambda>a. sub_pid (aa_request a) = pid \<and> is_unsub (sub_type (aa_request a))) (await_acks s)")
  case None
  with assms show ?thesis by (simp add: on_unsuback_def del: position_None)
next
  case (Some i)
  then have i: "i < length (await_acks s)" using position_Some by blast
  from Some assms sub_ack_removed_pids [OF i] show ?thesis
    by (auto simp: on_unsuback_def Let_def intro: lent_free)
qed

lemma subs_send_pids:
  assumes "subs_inv n s" and "subs_send (tcp_ops cd clock) cd n (s, w) = (r, s', w')"
  shows "sub_pids s' = sub_pids s \<and> pid_static w' = pid_static w"
proof -
  from assms(1) have "length (await_acks s) \<le> QUEUE n" by (simp add: subs_inv_def)
  from tcp.subs_send_general [OF assms(2) this] obtain rs where
    rs: "send_request s = rs @ send_request s'" "quiet w w'"
    "map aa_request (await_acks s') = map aa_request (await_acks s) @ rs" by blast
  then have "mset (send_request s' @ map aa_request (await_acks s')) = mset (send_request s @ map aa_request (await_acks s))"
    by simp
  then have "sub_pids s' = sub_pids s" unfolding sub_pids_def by (metis mset_map)
  with rs(2) show ?thesis by (simp add: quiet_def)
qed

lemma add_request_pids:
  assumes "add_request n ty topics uid (s, w) = (r, s', w')" and "lent (sub_pids s + F) (pid_static w)"
  shows "lent (sub_pids s' + F) (pid_static w')"
proof -
  obtain q p where taken: "next_pid (pid_static w) = (q, p)" by (rule prod.exhaust)
  note l = lent_next [OF assms(2) taken]
  show ?thesis
  proof (cases "vec_is_full (QUEUE n) (send_request s) \<or> (\<nexists>ts. request_topics n topics = Ok ts)")
    case True
    with assms have "s' = s" "w' = w"
      by (cases "request_topics n topics"; auto simp: add_request_def split: if_splits)+
    with assms(2) show ?thesis by simp
  next
    case False
    then obtain ts where ts: "request_topics n topics = Ok ts" by blast
    show ?thesis
    proof (cases "\<exists>i. q = Ok i")
      case True
      with l False ts taken assms(1) show ?thesis
        by (auto simp: add_request_def world_next_pid_def vec_push_def sub_pids_def vec_is_full_def Let_def split: if_splits)
    next
      case no: False
      with l False ts taken assms(1) show ?thesis
        by (cases q) (auto simp: add_request_def world_next_pid_def)
    qed
  qed
qed

section \<open>Automatic subscriptions\<close>

text \<open>Connecting takes identifiers and hands none back.\<close>

definition takes_pids :: "'n tcp \<times> pid_pool \<Rightarrow> 'a outcome \<times> 'n tcp \<times> pid_pool \<Rightarrow> bool" where
  "takes_pids st x \<longleftrightarrow> (\<forall>U. lent U (snd st) \<longrightarrow> lent U (snd (snd x)))"

lemma takes_and_then [lent_intros]:
  assumes "takes_pids st x" and "\<And>v st1. x = (Ok v, st1) \<Longrightarrow> takes_pids st1 (f v st1)"
  shows "takes_pids st (and_then x f)"
proof (cases "\<exists>v st1. x = (Ok v, st1)")
  case True
  then obtain v st1 where "x = (Ok v, st1)" by blast
  with assms show ?thesis by (auto simp: takes_pids_def)
next
  case False
  with assms(1) show ?thesis by (cases "(x, f)" rule: and_then.cases) (auto simp: takes_pids_def)
qed

lemma takes_return [lent_intros]: "takes_pids st (r, c, snd st)"
  by (simp add: takes_pids_def)

lemma takes_on_tcp [lent_intros]: "takes_pids st (on_tcp f st)"
  by (simp add: takes_pids_def on_tcp_def split: prod.splits)

lemma takes_take_pid [lent_intros]: "takes_pids st (take_pid st)"
  using lent_next by (fastforce simp: takes_pids_def take_pid_def split: prod.splits)

lemma takes_same [lent_intros]: "takes_pids st (r, st)"
  by (simp add: takes_pids_def)

lemma takes_subscribe_chunk [lent_intros]: "takes_pids st (subscribe_chunk cd net chunk st)"
  unfolding subscribe_chunk_def Let_def by (intro lent_intros)

lemma takes_subscribe_chunks [lent_intros]: "takes_pids st (subscribe_chunks cd net cs st)"
proof (induction cs arbitrary: st)
  case (Cons c cs)
  show ?case unfolding subscribe_chunks.simps by (intro takes_and_then takes_subscribe_chunk Cons.IH)
qed (simp add: takes_same)

lemma takes_process_connack [lent_intros]: "takes_pids st (process_connack cd net code st)"
proof (cases code)
  case Accepted
  have "takes_pids st (and_then (subscribe_auto_subscribes cd net st) (\<lambda>_ (c, p). (Ok (), set_watch Connected c, p)))"
    unfolding subscribe_auto_subscribes_def
    by (intro lent_intros) (simp add: takes_pids_def split: prod.splits)
  with Accepted show ?thesis by (simp add: process_connack_def)
qed (simp_all add: process_connack_def takes_pids_def)

lemma takes_connect: "takes_pids st (tcp_connect cd net st)"
  unfolding tcp_connect_def by (auto intro!: lent_intros)

end
