(* ===== verification/Client_Rounds.thy ===== *)
theory Client_Rounds
  imports Client_Safety Pid_Lending
begin

text \<open>
  Invariants of the event loop of \<open>src/src/state/mod.rs\<close>.  The locale \<open>client_invariant\<close> names what
  a predicate on the state of a client has to survive: requests of other tasks, connecting,
  the sending of each component, network I/O, the packet it hands out and the loop's waiting.  Its
  lemmas carry the predicate through a round and through all rounds.  Two invariants are given this way:
  packet identifiers in flight are distinct, and the buffers of the connection are in order
  and not borrowed.
\<close>

section \<open>Rounds\<close>

text \<open>The states in which \<open>run\<close> begins a round.\<close>

inductive round_start :: "('n, 'k, 'w) runtime \<Rightarrow> ('n, 'k, 'w) client \<Rightarrow> ('n, 'k, 'w) client \<Rightarrow> bool"
  for rt st0 where
  first_round: "round_start rt st0 st0"
| next_round: "round_start rt st0 st \<Longrightarrow> run_round rt st = (Ok None, st') \<Longrightarrow> round_start rt st0 st'"

lemma round_start_trans: "round_start rt st1 st2 \<Longrightarrow> round_start rt st0 st1 \<Longrightarrow> round_start rt st0 st2"
  by (induction rule: round_start.induct) (auto intro: round_start.intros)

text \<open>\<open>inv\<close> holds between the steps of a round, \<open>lending m\<close> while the packet \<open>m\<close> is alive.\<close>

locale client_invariant =
  fixes rt :: "('n, 'k, 'w) runtime"
    and inv :: "('n, 'k, 'w) client \<Rightarrow> bool"
    and lending :: "nat \<times> packet \<Rightarrow> ('n, 'k, 'w) client \<Rightarrow> bool"
  assumes requested: "inv st \<Longrightarrow> inv (perform rt req st)"
    and elapsed: "inv st \<Longrightarrow> inv (fst st, (snd st)\<lparr>env := (conn st, k)\<rparr>)"
    and polled: "inv st \<Longrightarrow> poll_request rt st = (q, st') \<Longrightarrow> inv st'"
    and connected: "inv st \<Longrightarrow> ensure_connected rt st = (r, st') \<Longrightarrow> r \<noteq> Panic \<Longrightarrow> inv st'"
    and publishes_sent: "inv st \<Longrightarrow> in_publishes (publishes_send_packets (rt_ops rt) (rt_sizes rt)) st = (s, st') \<Longrightarrow> inv st'"
    and acks_sent: "inv st \<Longrightarrow> in_receives (receives_send_packets (rt_ops rt) (rt_sizes rt)) st = (s, st') \<Longrightarrow> inv st'"
    and requests_sent: "inv st \<Longrightarrow> in_subscribes (subs_send (rt_ops rt) (rt_codec rt) (rt_sizes rt)) st = (s, st') \<Longrightarrow> inv st'"
    and ping_sent: "inv st \<Longrightarrow> in_ping (ping_send (rt_ops rt)) st = (s, st') \<Longrightarrow> inv st'"
    and io_done: "inv st \<Longrightarrow> on_connection (run_io (rt_codec rt) (rt_net rt)) st = (p, st') \<Longrightarrow>
      (case p of Ok m \<Rightarrow> lending m st' | _ \<Rightarrow> inv st')"
    and io_tried: "inv st \<Longrightarrow> on_connection (run_io_nonblocking (rt_codec rt) (rt_net rt)) st = (po, st') \<Longrightarrow>
      (case po of Ok (Some m) \<Rightarrow> lending m st' | _ \<Rightarrow> inv st')"
    and processed: "lending m st \<Longrightarrow> process_packet rt (snd m) st = (r, st') \<Longrightarrow> lending m st'"
    and dropped: "lending m st \<Longrightarrow> on_connection (drop_packet m) st = (Ok u, st') \<Longrightarrow> inv st'"
    and failed: "inv st \<Longrightarrow> inv (set_error_and_sleep rt st)"
begin

text \<open>What a panic leaves behind does not matter.\<close>

definition holds_after :: "'a outcome \<times> ('n, 'k, 'w) client \<Rightarrow> bool" where
  "holds_after x \<longleftrightarrow> (fst x \<noteq> Panic \<longrightarrow> inv (snd x))"

lemma holds_return: "inv st \<Longrightarrow> holds_after (r, st)"
  by (simp add: holds_after_def)

lemma holds_and_then:
  assumes "holds_after x" and "\<And>v st1. x = (Ok v, st1) \<Longrightarrow> inv st1 \<Longrightarrow> holds_after (f v st1)"
  shows "holds_after (and_then x f)"
proof (cases "\<exists>v st1. x = (Ok v, st1)")
  case True
  then obtain v st1 where x: "x = (Ok v, st1)" by blast
  with assms(1) assms(2) [OF x] show ?thesis by (simp add: holds_after_def)
next
  case False
  with assms(1) show ?thesis by (cases "(x, f)" rule: and_then.cases) (auto simp: holds_after_def)
qed

lemma holds_send_next: "inv st \<Longrightarrow> (\<And>s st'. f st = (s, st') \<Longrightarrow> inv st') \<Longrightarrow> holds_after (send_next r f st)"
  by (cases "f st"; cases r) (simp_all add: holds_after_def)

lemma others_kept: "inv st \<Longrightarrow> inv (other_tasks rt st)"
proof -
  assume inv: "inv st"
  obtain rs k where x: "rt_others rt (snd (env (snd st))) = (rs, k)" by (rule prod.exhaust)
  have "inv st1 \<Longrightarrow> inv (fold (perform rt) rs st1)" for st1
  proof (induction rs arbitrary: st1)
    case (Cons req rs)
    from Cons.IH [OF requested [OF Cons.prems]] show ?case by simp
  qed simp
  from this [OF elapsed [OF inv]] x show ?thesis by (simp add: other_tasks_def)
qed

lemma send_components_kept:
  assumes "inv st"
  shows "holds_after (send_components rt st)"
proof -
  obtain s st1 where "in_publishes (publishes_send_packets (rt_ops rt) (rt_sizes rt)) st = (s, st1)" by (rule prod.exhaust)
  with publishes_sent [OF assms] have "holds_after (in_publishes (publishes_send_packets (rt_ops rt) (rt_sizes rt)) st)"
    by (simp add: holds_after_def)
  then show ?thesis
    unfolding send_components_def
    by (intro holds_and_then holds_send_next) (auto intro: acks_sent requests_sent ping_sent)
qed

lemma consume_kept:
  assumes "lending m st"
  shows "holds_after (and_then (consume_packet rt m st) (\<lambda>_ st. (Ok True, st)))"
proof -
  obtain r st1 where p: "process_packet rt (snd m) st = (r, st1)" by (rule prod.exhaust)
  note l = processed [OF assms p]
  obtain d st2 where x: "on_connection (drop_packet m) st1 = (d, st2)" by (rule prod.exhaust)
  show ?thesis
  proof (cases d)
    case (Ok u)
    with dropped [OF l, of u st2] x p show ?thesis by (cases r) (auto simp: consume_packet_def holds_after_def)
  next
    case Panic
    with x p show ?thesis by (simp add: consume_packet_def holds_after_def)
  qed (use x in \<open>auto simp: on_connection_def drop_packet_def mapped_drop_def bufref_drop_def reaable_data_def add_bytes_read_def
      split: prod.splits outcome.splits sum.splits if_splits\<close>)
qed

lemma await_event_round_kept:
  assumes "inv st"
  shows "holds_after (await_event_round rt st)"
proof -
  obtain q st1 where p: "poll_request rt st = (q, st1)" by (rule prod.exhaust)
  note i1 = polled [OF assms p]
  show ?thesis
  proof (cases q)
    case (Some n)
    with i1 p show ?thesis by (simp add: await_event_round_def holds_return)
  next
    case None
    obtain pause s w where pp: "ping_pause (rt_ops rt) (ping (fst st1), snd st1) = (pause, s, w)" by (rule prod_cases3)
    then have w: "w = (snd st1)\<lparr>env := (conn st1, snd (env w))\<rparr>"
      by (auto simp: ping_pause_def read_clock_def rt_ops_def tcp_ops_def conn_def split: prod.splits)
    have i2: "inv (fst st1, w)" using elapsed [OF i1, of "snd (env w)"] w by simp
    obtain r st2 where io: "on_connection (run_io (rt_codec rt) (rt_net rt)) (fst st1, w) = (r, st2)" by (rule prod.exhaust)
    note i3 = io_done [OF i2 io]
    obtain q2 st3 where p2: "poll_request rt (other_tasks rt st2) = (q2, st3)" by (rule prod.exhaust)
    have i4: "inv st3" if "inv st2" using polled [OF others_kept [OF that] p2] .
    have "inv (sleep_for rt pause st3)" if "inv st2"
      using elapsed [OF i4 [OF that]] by (simp add: sleep_for_def)
    with None p pp io i2 i3 i4 p2 consume_kept show ?thesis
      by (cases r; cases q2) (auto simp: await_event_round_def holds_return)
  qed
qed

lemma run_once_kept:
  assumes "inv st"
  shows "holds_after (run_once rt st)"
proof -
  have e: "holds_after (ensure_connected rt st)"
    using connected [OF assms] by (cases "ensure_connected rt st") (simp add: holds_after_def)
  have io: "holds_after (and_then (on_connection (run_io_nonblocking (rt_codec rt) (rt_net rt)) st1) (\<lambda>packet st.
      case packet of Some m \<Rightarrow> and_then (consume_packet rt m st) (\<lambda>_ st. (Ok True, st)) | None \<Rightarrow> (Ok True, st)))"
    if i: "inv st1" for st1
  proof -
    obtain r st2 where x: "on_connection (run_io_nonblocking (rt_codec rt) (rt_net rt)) st1 = (r, st2)" by (rule prod.exhaust)
    show ?thesis
    proof (cases "\<exists>m. r = Ok (Some m)")
      case True
      then obtain m where "r = Ok (Some m)" by blast
      with io_tried [OF i x] x consume_kept [of m st2] show ?thesis by simp
    next
      case False
      with io_tried [OF i x] x show ?thesis by (cases r) (auto simp: holds_return split: option.splits)
    qed
  qed
  show ?thesis
    unfolding run_once_def
    by (intro holds_and_then e send_components_kept) (auto intro: io await_event_round_kept)
qed

lemma run_round_kept:
  assumes "inv st" and "run_round rt st = (Ok None, st')"
  shows "inv st'"
proof -
  obtain r st1 where x: "run_once rt (other_tasks rt st) = (r, st1)" by (rule prod.exhaust)
  have h: "holds_after (r, st1)" using run_once_kept [OF others_kept [OF assms(1)]] x by simp
  show ?thesis
  proof (cases r)
    case (Ok b)
    with assms(2) x h show ?thesis
      by (cases b) (simp_all add: run_round_def holds_after_def and_then_Ok)
  next
    case (Err e)
    with assms(2) x h failed [of st1] show ?thesis
      by (auto simp: run_round_def holds_after_def split: if_splits)
  qed (use assms(2) x in \<open>auto simp: run_round_def\<close>)
qed

lemma rounds_kept: "round_start rt st0 st \<Longrightarrow> inv st0 \<Longrightarrow> inv st"
  by (induction rule: round_start.induct) (auto intro: run_round_kept)

end

end
