(* ===== verification/Client_Pids.thy ===== *)
theory Client_Pids
  imports Client_Rounds
begin

text \<open>
  Packet identifiers across the components of a client: those of publishes, subscribe and
  unsubscribe requests in progress never coincide, in any round of the event loop, whatever the
  broker acknowledges.
\<close>

definition pids_in_flight :: "'w client_state \<Rightarrow> pid multiset" where
  "pids_in_flight s = open_pids (publishes s) + sub_pids (subscribes s)"

definition flight_inv :: "('n, 'k, 'w) runtime \<Rightarrow> ('n, 'k, 'w) client \<Rightarrow> bool" where
  "flight_inv rt st \<longleftrightarrow> client_inv (rt_sizes rt) (fst st) \<and> lent (pids_in_flight (fst st)) (pid_static (snd st))"

lemma flight_invI:
  "kept (rt_sizes rt) st (r, st') \<Longrightarrow> flight_inv rt st \<Longrightarrow>
    lent (pids_in_flight (fst st')) (pid_static (snd st')) \<Longrightarrow> flight_inv rt st'"
  by (simp add: flight_inv_def kept_def)

lemma flight_frame:
  "frame (rt_sizes rt) st st' \<Longrightarrow> flight_inv rt st \<Longrightarrow>
    pids_in_flight (fst st') = pids_in_flight (fst st) \<Longrightarrow> pid_static (snd st') = pid_static (snd st) \<Longrightarrow> flight_inv rt st'"
  by (simp add: flight_inv_def frame_def kept_def)

section \<open>Requests\<close>

lemma take_qospid_lent:
  assumes "take_qospid q st = (r, st')" and "lent U (pid_static (snd st))"
  shows "fst st' = fst st \<and> lent U (pid_static (snd st'))
    \<and> (\<forall>qp. r = Ok qp \<longrightarrow> lent (U + (case qospid_pid qp of Some i \<Rightarrow> {#i#} | None \<Rightarrow> {#})) (pid_static (snd st')))"
proof -
  obtain o1 p where n: "next_pid (pid_static (snd st)) = (o1, p)" by (rule prod.exhaust)
  from lent_next [OF assms(2) n] n assms show ?thesis
    by (cases q; cases o1) (auto simp: take_qospid_def world_next_pid_def)
qed

lemma flight_publish:
  assumes "flight_inv rt st" and "state_publish rt topic bytes q retained uid st = (r, st')"
  shows "lent (pids_in_flight (fst st')) (pid_static (snd st'))"
proof -
  obtain o1 st1 where t: "take_qospid q st = (o1, st1)" by (rule prod.exhaust)
  from take_qospid_lent [OF t] assms(1) have l: "fst st1 = fst st" "lent (pids_in_flight (fst st)) (pid_static (snd st1))"
    "\<And>qp. o1 = Ok qp \<Longrightarrow> lent (pids_in_flight (fst st) + (case qospid_pid qp of Some i \<Rightarrow> {#i#} | None \<Rightarrow> {#})) (pid_static (snd st1))"
    by (auto simp: flight_inv_def)
  show ?thesis
  proof (cases "\<exists>qp. o1 = Ok qp")
    case False
    with t l assms(2) show ?thesis by (cases o1) (auto simp: state_publish_def)
  next
    case True
    then obtain qp where qp: "o1 = Ok qp" by blast
    let ?m = "\<lparr>dup = False, qospid = qp, retain = retained, topic_name = topic, payload = bytes\<rparr>"
    obtain o2 p where a: "publishes_publish (rt_sizes rt) ?m uid (publishes (fst st)) = (o2, p)" by (rule prod.exhaust)
    have st': "pid_static (snd st') = pid_static (snd st1)" "publishes (fst st') = p" "subscribes (fst st') = subscribes (fst st)"
      using assms(2) t qp a l(1) by (cases o2; auto simp: state_publish_def in_publishes_def update_request_def)+
    from assms(1) have "pub_inv (rt_sizes rt) (publishes (fst st))" by (simp add: flight_inv_def client_inv_def)
    from added_pids [OF this a] l(2) l(3) [OF qp] show ?thesis
      by (auto simp: pids_in_flight_def st' ac_simps)
  qed
qed

lemma flight_add_request:
  assumes "flight_inv rt st"
    and "and_then (in_subscribes (add_request (rt_sizes rt) ty topics uid) st)
      (\<lambda>_ st. (Ok (), update_request (notify_new_request wops) st)) = (r, st')"
  shows "lent (pids_in_flight (fst st')) (pid_static (snd st'))"
proof -
  obtain o1 s w where a: "add_request (rt_sizes rt) ty topics uid (subscribes (fst st), snd st) = (o1, s, w)"
    by (rule prod_cases3)
  have "lent (sub_pids (subscribes (fst st)) + open_pids (publishes (fst st))) (pid_static (snd st))"
    using assms(1) by (simp add: flight_inv_def pids_in_flight_def ac_simps)
  from add_request_pids [OF a this] assms(2) a show ?thesis
    by (cases o1) (auto simp: in_subscribes_def update_request_def pids_in_flight_def ac_simps)
qed

lemma flight_perform: "flight_inv rt st \<Longrightarrow> flight_inv rt (perform rt req st)"
proof -
  assume inv: "flight_inv rt st"
  have "lent (pids_in_flight (fst (perform rt req st))) (pid_static (snd (perform rt req st)))"
  proof (cases req)
    case (Publish_Request topic bytes q retained uid)
    obtain r st' where "state_publish rt topic bytes q retained uid st = (r, st')" by (rule prod.exhaust)
    with flight_publish [OF inv this] Publish_Request show ?thesis by simp
  next
    case (Subscribe_Request topics q uid)
    obtain r st' where "and_then (in_subscribes (add_request (rt_sizes rt) (Req_Subscribe q) topics uid) st)
      (\<lambda>_ st. (Ok (), update_request (notify_new_request (rt_wakers rt)) st)) = (r, st')" by (rule prod.exhaust)
    with flight_add_request [OF inv this] Subscribe_Request show ?thesis
      by (simp add: state_subscribe_def add_subscribe_request_def [abs_def])
  next
    case (Unsubscribe_Request topics uid)
    obtain r st' where "and_then (in_subscribes (add_request (rt_sizes rt) Req_Unsubscribe topics uid) st)
      (\<lambda>_ st. (Ok (), update_request (notify_new_request (rt_wakers rt)) st)) = (r, st')" by (rule prod.exhaust)
    with flight_add_request [OF inv this] Unsubscribe_Request show ?thesis
      by (simp add: state_unsubscribe_def add_unsubscribe_request_def [abs_def])
  next
    case Disconnect_Request
    with inv show ?thesis by (simp add: state_disconnect_def update_request_def flight_inv_def pids_in_flight_def)
  qed
  with inv frame_perform [of rt st req] show ?thesis by (simp add: flight_inv_def frame_def kept_def)
qed

section \<open>Packets received\<close>

lemma flight_process:
  assumes "flight_inv rt st" and "process_packet rt p st = (r, st')"
  shows "lent (pids_in_flight (fst st')) (pid_static (snd st'))"
proof -
  let ?P = "open_pids (publishes (fst st))" and ?S = "sub_pids (subscribes (fst st))"
  from assms(1) have l: "lent (?P + ?S) (pid_static (snd st))" "lent (?S + ?P) (pid_static (snd st))"
    by (simp_all add: flight_inv_def pids_in_flight_def ac_simps)
  have pub: ?thesis if x: "in_publishes (process_incoming_packet (rt_sizes rt) p) st = (r, st')"
  proof -
    obtain o1 s w where i: "process_incoming_packet (rt_sizes rt) p (publishes (fst st), snd st) = (o1, s, w)" by (rule prod_cases3)
    from process_incoming_pids [OF i l(1)] x i show ?thesis by (auto simp: in_publishes_def pids_in_flight_def)
  qed
  have rec: ?thesis if x: "in_receives f st = (r, st')" and f: "pid_static (snd (snd (f (received_publishes (fst st), snd st))))
      = pid_static (snd st)" for f
    using x f l(1) by (auto simp: in_receives_def pids_in_flight_def split: prod.splits)
  show ?thesis
  proof (cases p)
    case (Publish m)
    then show ?thesis using assms(2)
      by (intro rec [where f = "on_publish (rt_sizes rt) m"])
        (auto simp: process_packet_def on_publish_def on_qos_2_publish_def deliver_eq Let_def split: qospid.splits sum.splits)
  next
    case (Pubrel i)
    then show ?thesis using assms(2)
      by (intro rec [where f = "on_pubrel (rt_sizes rt) i"])
        (auto simp: process_packet_def on_pubrel_def Let_def split: sum.splits option.splits)
  next
    case (Suback i codes)
    obtain o1 s w where x: "on_suback i codes (subscribes (fst st), snd st) = (o1, s, w)" by (rule prod_cases3)
    from on_suback_pids [OF x l(2)] x Suback assms(2) show ?thesis
      by (auto simp: process_packet_def in_subscribes_def pids_in_flight_def ac_simps)
  next
    case (Unsuback i)
    obtain s w where x: "on_unsuback i (subscribes (fst st), snd st) = (s, w)" by (rule prod.exhaust)
    from on_unsuback_pids [OF x l(2)] x Unsuback assms(2) show ?thesis
      by (auto simp: process_packet_def in_subscribes_def pids_in_flight_def ac_simps)
  next
    case Pingresp
    with assms(2) l(1) show ?thesis
      by (auto simp: process_packet_def in_ping_def on_ping_response_def read_clock_def pids_in_flight_def split: prod.splits)
  qed (use assms(2) pub l(1) in \<open>auto simp: process_packet_def pids_in_flight_def\<close>)
qed

section \<open>Sending and connecting\<close>

lemma flight_publishes_send:
  assumes "flight_inv rt st" and "in_publishes (publishes_send_packets (rt_ops rt) (rt_sizes rt)) st = (r, st')"
  shows "lent (pids_in_flight (fst st')) (pid_static (snd st'))"
proof -
  obtain o1 p w where x: "publishes_send_packets (tcp_ops (rt_codec rt) (rt_clock rt)) (rt_sizes rt)
      (publishes (fst st), snd st) = (o1, p, w)" by (rule prod_cases3)
  from assms(1) have "pub_inv (rt_sizes rt) (publishes (fst st))" by (simp add: flight_inv_def client_inv_def)
  with tcp.publishes_send_general [OF x] x assms show ?thesis
    by (auto simp: in_publishes_def rt_ops_def accounts_def flight_inv_def pids_in_flight_def)
qed

lemma flight_receives_send:
  assumes "flight_inv rt st" and "in_receives (receives_send_packets (rt_ops rt) (rt_sizes rt)) st = (r, st')"
  shows "lent (pids_in_flight (fst st')) (pid_static (snd st'))"
proof -
  obtain o1 p w where x: "receives_send_packets (tcp_ops (rt_codec rt) (rt_clock rt)) (rt_sizes rt)
      (received_publishes (fst st), snd st) = (o1, p, w)" by (rule prod_cases3)
  from assms(1) have "length (await_pubrel (received_publishes (fst st))) \<le> QUEUE (rt_sizes rt)"
    by (simp add: flight_inv_def client_inv_def receives_inv_def)
  from tcp.receives_send_general [OF x this] have "quiet (snd st) w" by blast
  with x assms show ?thesis by (auto simp: in_receives_def rt_ops_def flight_inv_def pids_in_flight_def quiet_def)
qed

lemma flight_subs_send:
  assumes "flight_inv rt st" and "in_subscribes (subs_send (rt_ops rt) (rt_codec rt) (rt_sizes rt)) st = (r, st')"
  shows "lent (pids_in_flight (fst st')) (pid_static (snd st'))"
proof -
  obtain o1 p w where x: "subs_send (tcp_ops (rt_codec rt) (rt_clock rt)) (rt_codec rt) (rt_sizes rt)
      (subscribes (fst st), snd st) = (o1, p, w)" by (rule prod_cases3)
  from assms(1) have "subs_inv (rt_sizes rt) (subscribes (fst st))" by (simp add: flight_inv_def client_inv_def)
  from subs_send_pids [OF this x] x assms show ?thesis
    by (auto simp: in_subscribes_def rt_ops_def flight_inv_def pids_in_flight_def)
qed

lemma ping_send_quiet: "ping_send ops (s, w) = (r, s', w') \<Longrightarrow> quiet w w'"
proof -
  obtain now w0 where rc: "read_clock ops (s, w) = (now, s, w0)" "quiet w w0" by (rule read_clock_cases)
  obtain o1 w1 where t: "try_write ops Pingreq (s, w0) = (o1, s, w1)" "quiet w0 w1" by (rule try_write_cases)
  assume "ping_send ops (s, w) = (r, s', w')"
  with rc t have "w' = w0 \<or> w' = w1"
    by (cases o1) (auto simp: ping_send_def split: ping_state.splits if_splits)
  with rc(2) quiet_trans [OF rc(2) t(2)] show ?thesis by auto
qed

lemma flight_ping_send:
  assumes "flight_inv rt st" and "in_ping (ping_send (rt_ops rt)) st = (r, st')"
  shows "lent (pids_in_flight (fst st')) (pid_static (snd st'))"
proof -
  obtain o1 p w where x: "ping_send (rt_ops rt) (ping (fst st), snd st) = (o1, p, w)" by (rule prod_cases3)
  from ping_send_quiet [OF x] x assms show ?thesis
    by (auto simp: in_ping_def flight_inv_def pids_in_flight_def quiet_def)
qed

lemma flight_connect:
  assumes "flight_inv rt st" and "ensure_connected rt st = (r, st')"
  shows "flight_inv rt st'"
proof -
  obtain o1 c p where x: "tcp_connect (rt_codec rt) (rt_net rt) (conn st, pid_static (snd st)) = (o1, c, p)" by (rule prod_cases3)
  from takes_connect [of "(conn st, pid_static (snd st))" "rt_codec rt" "rt_net rt"] x assms show ?thesis
    by (auto simp: ensure_connected_def takes_pids_def flight_inv_def split: if_splits)
qed

lemma flight_on_connection:
  assumes "flight_inv rt st" and "on_connection f st = (r, st')"
  shows "flight_inv rt st'"
  using assms by (auto simp: on_connection_def flight_inv_def split: prod.splits)

interpretation flight: client_invariant rt "flight_inv rt" "\<lambda>_. flight_inv rt"
  for rt :: "('n, 'k, 'w) runtime"
proof (unfold_locales, goal_cases)
  case (1 st req)
  then show ?case by (rule flight_perform)
next
  case (2 st k)
  then show ?case by (simp add: flight_inv_def)
next
  case (3 st q st')
  from frame_poll_request [OF 3(2)] have f: "frame (rt_sizes rt) st st'" .
  have "pids_in_flight (fst st') = pids_in_flight (fst st)" "pid_static (snd st') = pid_static (snd st)"
    using 3(2) by (auto simp: poll_request_def pids_in_flight_def split: prod.splits)
  with flight_frame [OF f 3(1)] show ?case by simp
next
  case (4 st r st')
  then show ?case by (auto intro: flight_connect)
next
  case (5 st s st')
  with kept_publishes_send [of rt st] show ?case by (metis flight_invI flight_publishes_send)
next
  case (6 st s st')
  with kept_receives_send [of rt st] show ?case by (metis flight_invI flight_receives_send)
next
  case (7 st s st')
  with kept_subs_send [of rt st] show ?case by (metis flight_invI flight_subs_send)
next
  case (8 st s st')
  with kept_ping_send [of rt st] show ?case by (metis flight_invI flight_ping_send)
next
  case (9 st p st')
  then have "flight_inv rt st'" by (rule flight_on_connection)
  then show ?case by (simp split: outcome.splits)
next
  case (10 st po st')
  then have "flight_inv rt st'" by (rule flight_on_connection)
  then show ?case by (simp split: outcome.splits option.splits)
next
  case (11 m st r st')
  with kept_process_packet [of rt st "snd m"] show ?case by (metis flight_invI flight_process)
next
  case (12 m st u st')
  then show ?case by (rule flight_on_connection)
next
  case (13 st)
  then show ?case by (simp add: set_error_and_sleep_def flight_inv_def)
qed

end
