(* ===== verification/Tcp_Orderly.thy ===== *)
theory Tcp_Orderly
  imports Tcp_Session
begin

text \<open>
  The buffers of the connection of \<open>src/src/state/connection/mod.rs\<close> through connecting and
  disconnecting: every operation that does not panic leaves both buffers well-formed, with the
  capacity they had and with no reference to them but those that were alive before.
\<close>

named_theorems tidy_intros \<open>operations that leave the buffers in order\<close>

definition tidy :: "'n tcp \<Rightarrow> 'a outcome \<times> 'n tcp \<Rightarrow> bool" where
  "tidy c x \<longleftrightarrow> (wf_tcp c \<and> fst x \<noteq> Panic \<longrightarrow>
     wf_tcp (snd x) \<and> send_capacity (snd x) = send_capacity c \<and> recv_capacity (snd x) = recv_capacity c
     \<and> borrows (send_buffer (snd x)) = borrows (send_buffer c)
     \<and> borrows (recv_buffer (snd x)) = borrows (recv_buffer c))"

lemma tidy_return [tidy_intros]: "tidy c (r, c)"
  by (simp add: tidy_def)

lemma tidy_panic [simp]: "tidy c (Panic, c')"
  by (simp add: tidy_def)

lemma tidy_and_then [tidy_intros]:
  assumes "tidy c x" and "\<And>v c1. x = (Ok v, c1) \<Longrightarrow> tidy c1 (f v c1)"
  shows "tidy c (and_then x f)"
proof (cases "\<exists>v c1. x = (Ok v, c1)")
  case True
  then obtain v c1 where "x = (Ok v, c1)" by blast
  with assms show ?thesis by (auto simp: tidy_def)
next
  case False
  with assms(1) show ?thesis by (cases "(x, f)" rule: and_then.cases) (auto simp: tidy_def)
qed

lemma tidy_run_loop [tidy_intros]:
  assumes "\<And>c. tidy c (body c)"
  shows "tidy c (run_loop body c)"
proof -
  have "tidy c (fst (run_loop body c), snd (run_loop body c))"
  proof (rule run_loop_rel [where R = "\<lambda>c c'. tidy c (Ok (), c')" and Q = "\<lambda>c r c'. tidy c (r, c')"])
    fix s s' assume "body s = (Ok None, s')"
    with assms [of s] show "tidy s (Ok (), s')" by (simp add: tidy_def)
  next
    fix s s' r assume "body s = (r, s')"
    with assms [of s] show "tidy s (leave r, s')" by (cases r rule: leave.cases) (auto simp: tidy_def)
  qed (auto simp: tidy_def)
  then show ?thesis by simp
qed

lemma tidy_if [tidy_intros]: "(b \<Longrightarrow> tidy c x) \<Longrightarrow> (\<not> b \<Longrightarrow> tidy c y) \<Longrightarrow> tidy c (if b then x else y)"
  by simp

lemma tidy_same_buffers:
  "send_buffer c' = send_buffer c \<Longrightarrow> recv_buffer c' = recv_buffer c \<Longrightarrow> tidy c' x = tidy c x"
  by (simp add: tidy_def wf_tcp_def send_capacity_def recv_capacity_def)

lemma tidy_unchanged: "send_buffer c' = send_buffer c \<Longrightarrow> recv_buffer c' = recv_buffer c \<Longrightarrow> tidy c (r, c')"
  by (simp add: tidy_def wf_tcp_def send_capacity_def recv_capacity_def)

lemma tidy_set_watch [simp]: "tidy (set_watch v c) x = tidy c x" "tidy c (r, set_watch v c)"
  using tidy_same_buffers [of "set_watch v c" c x] tidy_unchanged [of "set_watch v c" c r]
  by (simp_all add: set_watch_def)

lemma tidy_with_send [tidy_intros]:
  assumes "\<And>c. tidy c (f c)"
  shows "tidy c (with_send_buffer f c)"
proof (cases "borrows (send_buffer c) = 0")
  case True
  let ?c = "c\<lparr>send_buffer := (send_buffer c)\<lparr>borrows := 1\<rparr>\<rparr>"
  obtain r c1 where f: "f ?c = (r, c1)" by (rule prod.exhaust)
  with assms [of ?c] True show ?thesis
    by (cases "borrows (send_buffer c1) = 0")
      (auto simp: with_send_buffer_def cell_borrow_def bufref_drop_def tidy_def wf_tcp_def send_capacity_def recv_capacity_def)
qed (simp add: with_send_buffer_def cell_borrow_def)

lemma tidy_with_recv [tidy_intros]:
  assumes "\<And>c. tidy c (f c)"
  shows "tidy c (with_recv_buffer f c)"
proof (cases "borrows (recv_buffer c) = 0")
  case True
  let ?c = "c\<lparr>recv_buffer := (recv_buffer c)\<lparr>borrows := 1\<rparr>\<rparr>"
  obtain r c1 where f: "f ?c = (r, c1)" by (rule prod.exhaust)
  with assms [of ?c] True show ?thesis
    by (cases "borrows (recv_buffer c1) = 0")
      (auto simp: with_recv_buffer_def cell_borrow_def bufref_drop_def tidy_def wf_tcp_def send_capacity_def recv_capacity_def)
qed (simp add: with_recv_buffer_def cell_borrow_def)

lemma tidy_reset_buffers [tidy_intros]: "tidy c (reset_buffers c)"
proof -
  have "tidy c (on_send (unit_step (\<lambda>b. Ok (buffer_reset b))) c)" "tidy c (on_recv (unit_step (\<lambda>b. Ok (buffer_reset b))) c)"
    for c :: "'n tcp"
    by (simp_all add: on_send_def on_recv_def unit_step_def tidy_def wf_tcp_def wf_buffer_def buffer_reset_def
        send_capacity_def recv_capacity_def capacity_def)
  then show ?thesis unfolding reset_buffers_def by (intro tidy_intros)
qed

lemma tidy_open_connection [tidy_intros]: "tidy c (open_connection net c)"
proof -
  have "tidy c (network_result f c)" for f and c :: "'n tcp"
    by (auto simp: network_result_def intro: tidy_unchanged split: prod.splits option.splits sum.splits)
  then show ?thesis
    unfolding open_connection_def Let_def by (intro tidy_intros) (simp_all add: tidy_unchanged)
qed

text \<open>Writing a packet: the slice is prepared, and the bytes of the encoder stored in it.\<close>

lemma tidy_inherent_write [tidy_intros]: "tidy c (inherent_try_write_packet cd p c)"
proof -
  have "tidy c (and_then (on_send (unit_step flip) c) (\<lambda>_ c.
       and_then (on_send writeable_data c) (\<lambda>buf c.
         case encode_slice cd p (length buf) of
           Inr bytes \<Rightarrow> and_then (on_send (unit_step (store bytes)) c) (\<lambda>_ c. (Ok True, c))
         | Inl WriteZero \<Rightarrow>
             if is_max_capacity (cell_buffer (send_buffer c)) then (Err BufferTooSmall, c)
             else (Ok False, c)
         | Inl err \<Rightarrow> (Err (CodecError err), c))))" (is "tidy c ?x") for c :: "'n tcp"
  proof (cases "wf_tcp c")
    case True
    then have wf: "wf_buffer (cell_buffer (send_buffer c))" by (simp add: wf_tcp_def)
    then obtain b0 where b0: "flip (cell_buffer (send_buffer c)) = Ok b0" "wf_buffer b0"
      "capacity b0 = capacity (cell_buffer (send_buffer c))" by (auto elim: flip_wf)
    from b0(2) obtain sl b1 where b1: "writeable_data b0 = Ok (sl, b1)" "wf_buffer b1" "capacity b1 = capacity b0"
      by (auto elim: writeable_data_wf)
    have "\<exists>b2. store bs b1 = Ok b2 \<and> wf_buffer b2 \<and> capacity b2 = capacity b0 \<or> store bs b1 = Panic" for bs
      using prepared_store [OF b0(2) b1(1), of bs] by (cases "length bs \<le> length sl") auto
    note stored = this
    show ?thesis
    proof (cases "encode_slice cd p (length sl)")
      case (Inl e)
      with True b0 b1 show ?thesis
        by (cases e) (simp_all add: on_send_def unit_step_def tidy_def wf_tcp_def send_capacity_def recv_capacity_def)
    next
      case (Inr bs)
      with True b0 b1 stored [of bs] show ?thesis
        by (auto simp: on_send_def unit_step_def tidy_def wf_tcp_def send_capacity_def recv_capacity_def)
    qed
  qed (simp add: tidy_def)
  then show ?thesis unfolding inherent_try_write_packet_def by (rule tidy_with_send)
qed

context byte_stream begin

lemma safe_tidy: "safe S R c x \<Longrightarrow> tidy c x"
  by (auto simp: safe_def conserves_def tidy_def)

lemmas tidy_sending [tidy_intros] = safe_tidy [OF safe_send_all] safe_tidy [OF safe_tcp_send]

lemma tidy_write_packet [tidy_intros]: "tidy c (write_packet_async cd net p c)"
  unfolding write_packet_async_def by (intro tidy_intros)

text \<open>A packet read and then dropped.\<close>

definition tidy_lent :: "'n tcp \<Rightarrow> 'n tcp \<Rightarrow> bool" where
  "tidy_lent c c' \<longleftrightarrow> wf_tcp c' \<and> send_capacity c' = send_capacity c \<and> recv_capacity c' = recv_capacity c
     \<and> borrows (send_buffer c') = borrows (send_buffer c)
     \<and> borrows (recv_buffer c') = borrows (recv_buffer c) + 1"

lemma lends_tidy:
  assumes "lends cd c (obind r (\<lambda>pk. Ok (Some pk)), c')" and "wf_tcp c"
  shows "if \<exists>m. r = Ok m then tidy_lent c c' else tidy c (r, c')"
  using assms by (cases r) (auto simp: lends_def safe_def conserves_def tidy_lent_def tidy_def)

lemma drop_tidy:
  assumes "tidy_lent c c1"
  shows "tidy c (drop_packet m c1)"
proof -
  let ?b = "cell_buffer (recv_buffer c1)"
  have "mapped_drop (fst m) (recv_buffer c1) = Panic \<or>
    (\<exists>b. mapped_drop (fst m) (recv_buffer c1) = Ok \<lparr>cell_buffer = b, borrows = borrows (recv_buffer c)\<rparr>
      \<and> wf_buffer b \<and> capacity b = capacity ?b)"
    using assms by (cases "recv_buffer c1")
      (auto simp: mapped_drop_def add_bytes_read_def bufref_drop_def tidy_lent_def wf_tcp_def wf_buffer_def capacity_def)
  with assms show ?thesis
    by (auto simp: drop_packet_def tidy_def tidy_lent_def wf_tcp_def send_capacity_def recv_capacity_def)
qed

lemma tidy_read_drop [tidy_intros]:
  "tidy c (and_then (read_packet cd net c) (\<lambda>m c. and_then (drop_packet m c) (\<lambda>_ c. (f m, c))))"
proof (cases "wf_tcp c")
  case True
  obtain r c1 where x: "read_packet cd net c = (r, c1)" by (rule prod.exhaust)
  note l = lends_tidy [OF read_packet_lends [OF x] True]
  show ?thesis
  proof (cases "\<exists>m. r = Ok m")
    case True
    then obtain m where m: "r = Ok m" by blast
    with l have "tidy c (drop_packet m c1)" by (simp add: drop_tidy)
    then have "tidy c (and_then (drop_packet m c1) (\<lambda>_ c. (f m, c)))" by (rule tidy_and_then) (rule tidy_return)
    with x m show ?thesis by simp
  next
    case False
    with l x show ?thesis by (cases r) (auto simp: tidy_def)
  qed
qed (simp add: tidy_def)

lemma tidy_send_connect [tidy_intros]: "tidy c (send_connect cd net c)"
proof -
  have "tidy c (and_then (read_packet cd net (set_watch ConnectSent c)) (\<lambda>m c.
    let connack = (case snd m of Connack _ code \<Rightarrow> Ok code | _ \<Rightarrow> Err ConnackError)
    in and_then (drop_packet m c) (\<lambda>_ c. (connack, c))))" for c
    using tidy_read_drop [of "set_watch ConnectSent c" cd "\<lambda>m. case snd m of Connack _ code \<Rightarrow> Ok code | _ \<Rightarrow> Err ConnackError"]
    by (simp add: Let_def)
  then show ?thesis
    unfolding send_connect_def
    by (intro tidy_and_then [OF tidy_inherent_write] tidy_if tidy_return tidy_and_then [OF tidy_sending(2)])
qed

text \<open>The same beside the pool of packet identifiers.\<close>

definition tidy2 :: "'n tcp \<times> pid_pool \<Rightarrow> 'a outcome \<times> 'n tcp \<times> pid_pool \<Rightarrow> bool" where
  "tidy2 st x \<longleftrightarrow> tidy (fst st) (fst x, fst (snd x))"

lemma tidy2_and_then:
  assumes "tidy2 st x" and "\<And>v st1. x = (Ok v, st1) \<Longrightarrow> tidy2 st1 (f v st1)"
  shows "tidy2 st (and_then x f)"
proof (cases "\<exists>v st1. x = (Ok v, st1)")
  case True
  then obtain v st1 where "x = (Ok v, st1)" by blast
  with assms show ?thesis by (auto simp: tidy2_def tidy_def)
next
  case False
  with assms(1) show ?thesis by (cases "(x, f)" rule: and_then.cases) (auto simp: tidy2_def tidy_def)
qed

lemma tidy2_on_tcp: "(\<And>c. tidy c (f c)) \<Longrightarrow> tidy2 st (on_tcp f st)"
  by (cases "f (fst st)") (simp add: tidy2_def on_tcp_def, metis)

lemma tidy2_return: "tidy2 st (r, st)"
  by (simp add: tidy2_def tidy_return)

lemma tidy2_take_pid: "tidy2 st (take_pid st)"
  by (simp add: tidy2_def take_pid_def tidy_return split: prod.splits)

lemma on_tcp_and_then:
  "and_then (on_tcp f st) (\<lambda>v st. and_then (on_tcp (g v) st) (\<lambda>_ st. (h v, st)))
    = on_tcp (\<lambda>c. and_then (f c) (\<lambda>v c. and_then (g v c) (\<lambda>_ c. (h v, c)))) st"
  by (simp add: on_tcp_def split: prod.splits and_then_split)

lemma tidy2_subscribe_chunk: "tidy2 st (subscribe_chunk cd net chunk st)"
proof -
  let ?f = "\<lambda>m. case snd m of Suback _ codes \<Rightarrow> process_suback codes chunk | _ \<Rightarrow> Err ConnackError"
  have "tidy2 st (and_then (on_tcp (read_packet cd net) st) (\<lambda>m st.
      let result = ?f m in and_then (on_tcp (drop_packet m) st) (\<lambda>_ st. (result, st))))" for st
    unfolding Let_def on_tcp_and_then by (rule tidy2_on_tcp) (rule tidy_read_drop)
  then show ?thesis
    unfolding subscribe_chunk_def
    by (intro tidy2_and_then [OF tidy2_take_pid] tidy2_and_then [OF tidy2_return]
        tidy2_and_then [OF tidy2_on_tcp [OF tidy_write_packet]] tidy2_and_then [OF tidy2_on_tcp [OF tidy_sending(1)]])
qed

lemma tidy2_subscribe_chunks: "tidy2 st (subscribe_chunks cd net cs st)"
proof (induction cs arbitrary: st)
  case (Cons c cs)
  show ?case unfolding subscribe_chunks.simps by (intro tidy2_and_then tidy2_subscribe_chunk Cons.IH)
qed (simp add: tidy2_return)

lemma tidy2_process_connack: "tidy2 st (process_connack cd net code st)"
proof (cases code)
  case Accepted
  have "tidy2 st (and_then (subscribe_auto_subscribes cd net st) (\<lambda>_ (c, p). (Ok (), set_watch Connected c, p)))"
    unfolding subscribe_auto_subscribes_def
    by (rule tidy2_and_then [OF tidy2_subscribe_chunks]) (simp add: tidy2_def split: prod.splits)
  with Accepted show ?thesis by (simp add: process_connack_def)
qed (simp_all add: process_connack_def tidy2_def)

lemma tidy2_connect: "tidy2 st (tcp_connect cd net st)"
  unfolding tcp_connect_def
  by (auto intro!: tidy2_and_then tidy2_on_tcp tidy_intros tidy2_process_connack simp: tidy2_return)

end

end
