(* ===== verification/Client_Buffers.thy ===== *)
theory Client_Buffers
  imports Client_Rounds Tcp_Orderly
begin

text \<open>
  The buffers of the connection through the rounds of the event loop, over a network that is an
  ordered byte stream: at the beginning of every round both are well-formed, have the capacity they
  were made with and are not borrowed, and a client in the state Connected has an open connection.  So
  no borrow of a buffer panics in the next round.
\<close>

definition buffers_in_order :: "nat \<Rightarrow> nat \<Rightarrow> 'n tcp \<Rightarrow> bool" where
  \<comment> \<open>\<open>k\<close> references to the receive buffer are alive\<close>
  "buffers_in_order N k c \<longleftrightarrow> wf_tcp c \<and> send_capacity c = N \<and> recv_capacity c = N
     \<and> borrows (send_buffer c) = 0 \<and> borrows (recv_buffer c) = k
     \<and> (watch c = Some Connected \<longrightarrow> connection c)"

definition buffers_inv :: "('n, 'k, 'w) runtime \<Rightarrow> nat \<Rightarrow> ('n, 'k, 'w) client \<Rightarrow> bool" where
  "buffers_inv rt k st \<longleftrightarrow> client_inv (rt_sizes rt) (fst st) \<and> buffers_in_order (BUFFER (rt_sizes rt)) k (conn st)"

lemma buffers_in_order_emits:
  "buffers_in_order N k (fst e) \<Longrightarrow> tcp_emits cd e ps e' \<Longrightarrow> buffers_in_order N k (fst e')"
  by (auto simp: buffers_in_order_def tcp_emits_def wf_tcp_def recv_capacity_def)

lemma buffers_in_order_tidy:
  assumes "tidy c (r, c')" and "steady c (r, c')" and "r \<noteq> Panic" and "buffers_in_order N k c"
  shows "buffers_in_order N k c'"
  using assms by (auto simp: tidy_def steady_def buffers_in_order_def)

lemma buffers_kept:
  "kept (rt_sizes rt) st (r, st') \<Longrightarrow> buffers_inv rt k st \<Longrightarrow>
    (buffers_in_order (BUFFER (rt_sizes rt)) k (conn st) \<Longrightarrow> buffers_in_order (BUFFER (rt_sizes rt)) j (conn st')) \<Longrightarrow>
    buffers_inv rt j st'"
  by (simp add: buffers_inv_def kept_def)

lemma buffers_frame:
  "frame (rt_sizes rt) st st' \<Longrightarrow> buffers_inv rt k st \<Longrightarrow> conn st' = conn st \<Longrightarrow> buffers_inv rt k st'"
  by (simp add: buffers_inv_def frame_def kept_def)

section \<open>Steps that leave the connection alone\<close>

lemma conn_update_request: "conn (update_request f st) = conn st"
  by (simp add: update_request_def conn_def)

lemma conn_state_publish: "conn (snd (state_publish rt topic bytes q retained uid st)) = conn st"
proof -
  obtain o1 st1 where t: "take_qospid q st = (o1, st1)" by (rule prod.exhaust)
  obtain o2 p where "next_pid (pid_static (snd st)) = (o2, p)" by (rule prod.exhaust)
  with t have "conn st1 = conn st"
    by (cases q; cases o2) (auto simp: take_qospid_def world_next_pid_def conn_def)
  with t show ?thesis
    by (cases o1) (auto simp: state_publish_def in_publishes_def conn_update_request conn_def [of "(_, _)"] conn_def [of st1]
        split: prod.splits and_then_split)
qed

lemma conn_in_subscribes:
  assumes "\<And>s w. env (snd (snd (f (s, w)))) = env w"
  shows "conn (snd (and_then (in_subscribes f st) (\<lambda>_ st. (Ok (), update_request g st)))) = conn st"
proof -
  obtain r s w where x: "f (subscribes (fst st), snd st) = (r, s, w)" by (rule prod_cases3)
  with assms [of "subscribes (fst st)" "snd st"] show ?thesis
    by (cases r) (auto simp: in_subscribes_def update_request_def conn_def)
qed

lemma add_request_env: "env (snd (snd (add_request n ty topics uid (s, w)))) = env w"
  by (auto simp: add_request_def world_next_pid_def Let_def split: and_then_split prod.splits)

lemma conn_perform: "conn (perform rt req st) = conn st"
  by (cases req)
    (simp_all add: conn_state_publish state_subscribe_def state_unsubscribe_def state_disconnect_def conn_update_request
      add_subscribe_request_def [abs_def] add_unsubscribe_request_def [abs_def] conn_in_subscribes add_request_env)

lemma conn_process_packet: "conn (snd (process_packet rt p st)) = conn st"
proof -
  have pub: "conn (snd (in_publishes (process_incoming_packet n p) st)) = conn st" for n
  proof -
    obtain r s w where x: "process_incoming_packet n p (publishes (fst st), snd st) = (r, s, w)" by (rule prod_cases3)
    from process_incoming_frame [OF x] x show ?thesis by (simp add: in_publishes_def conn_def)
  qed
  have rec: "conn (snd (in_receives f st)) = conn st"
    if "env (snd (snd (f (received_publishes (fst st), snd st)))) = env (snd st)" for f
    using that by (auto simp: in_receives_def conn_def split: prod.splits)
  have sub: "conn (snd (in_subscribes f st)) = conn st"
    if "env (snd (snd (f (subscribes (fst st), snd st)))) = env (snd st)" for f
    using that by (auto simp: in_subscribes_def conn_def split: prod.splits)
  have png: "conn (snd (in_ping (\<lambda>s. (Ok (), on_ping_response (rt_ops rt) s)) st)) = conn st"
    by (auto simp: in_ping_def on_ping_response_def read_clock_def rt_ops_def tcp_ops_def conn_def split: prod.splits)
  show ?thesis
    using pub png rec [of "on_publish _ _"] rec [of "on_pubrel _ _"] sub [of "on_suback _ _"] sub [of "\<lambda>s. (Ok (), on_unsuback _ s)"]
    by (cases p) (simp_all add: process_packet_def on_publish_frame on_pubrel_frame on_suback_frame on_unsuback_frame)
qed

section \<open>Sending\<close>

lemma buffers_sent:
  assumes "buffers_inv rt k st" and "kept (rt_sizes rt) st (r, st')" and "tcp_emits cd (env (snd st)) ps (env (snd st'))"
  shows "buffers_inv rt k st'"
  by (rule buffers_kept [OF assms(2,1)]) (simp add: conn_def buffers_in_order_emits [OF _ assms(3)])

lemma buffers_publishes_send:
  assumes "buffers_inv rt k st" and "in_publishes (publishes_send_packets (rt_ops rt) (rt_sizes rt)) st = (r, st')"
  shows "buffers_inv rt k st'"
proof -
  obtain o1 p w where x: "publishes_send_packets (tcp_ops (rt_codec rt) (rt_clock rt)) (rt_sizes rt)
      (publishes (fst st), snd st) = (o1, p, w)" by (rule prod_cases3)
  from assms(1) have "pub_inv (rt_sizes rt) (publishes (fst st))" by (simp add: buffers_inv_def client_inv_def)
  with tcp.publishes_send_general [OF x] obtain l where "tcp_emits (rt_codec rt) (env (snd st)) l (env w)"
    by (auto simp: tcp.emitted_def)
  moreover have "kept (rt_sizes rt) st (r, st')" using kept_publishes_send [of rt st] assms(2) by simp
  ultimately show ?thesis using assms x by (auto simp: in_publishes_def rt_ops_def intro: buffers_sent)
qed

lemma buffers_receives_send:
  assumes "buffers_inv rt k st" and "in_receives (receives_send_packets (rt_ops rt) (rt_sizes rt)) st = (r, st')"
  shows "buffers_inv rt k st'"
proof -
  obtain o1 p w where x: "receives_send_packets (tcp_ops (rt_codec rt) (rt_clock rt)) (rt_sizes rt)
      (received_publishes (fst st), snd st) = (o1, p, w)" by (rule prod_cases3)
  from assms(1) have "length (await_pubrel (received_publishes (fst st))) \<le> QUEUE (rt_sizes rt)"
    by (simp add: buffers_inv_def client_inv_def receives_inv_def)
  from tcp.receives_send_general [OF x this] obtain l where "tcp_emits (rt_codec rt) (env (snd st)) l (env w)"
    by (auto simp: tcp.emitted_def)
  moreover have "kept (rt_sizes rt) st (r, st')" using kept_receives_send [of rt st] assms(2) by simp
  ultimately show ?thesis using assms x by (auto simp: in_receives_def rt_ops_def intro: buffers_sent)
qed

lemma buffers_subs_send:
  assumes "buffers_inv rt k st" and "in_subscribes (subs_send (rt_ops rt) (rt_codec rt) (rt_sizes rt)) st = (r, st')"
  shows "buffers_inv rt k st'"
proof -
  obtain o1 p w where x: "subs_send (tcp_ops (rt_codec rt) (rt_clock rt)) (rt_codec rt) (rt_sizes rt)
      (subscribes (fst st), snd st) = (o1, p, w)" by (rule prod_cases3)
  from assms(1) have "length (await_acks (subscribes (fst st))) \<le> QUEUE (rt_sizes rt)"
    by (simp add: buffers_inv_def client_inv_def subs_inv_def)
  from tcp.subs_send_general [OF x this] obtain l where "tcp_emits (rt_codec rt) (env (snd st)) l (env w)"
    by (auto simp: tcp.emitted_def)
  moreover have "kept (rt_sizes rt) st (r, st')" using kept_subs_send [of rt st] assms(2) by simp
  ultimately show ?thesis using assms x by (auto simp: in_subscribes_def rt_ops_def intro: buffers_sent)
qed

lemma buffers_ping_send:
  assumes "buffers_inv rt k st" and "in_ping (ping_send (rt_ops rt)) st = (r, st')"
  shows "buffers_inv rt k st'"
proof -
  obtain o1 p w where x: "ping_send (tcp_ops (rt_codec rt) (rt_clock rt)) (ping (fst st), snd st) = (o1, p, w)"
    by (rule prod_cases3)
  from ping_send_emits [OF x] obtain l where "tcp_emits (rt_codec rt) (env (snd st)) l (env w)" by blast
  moreover have "kept (rt_sizes rt) st (r, st')" using kept_ping_send [of rt st] assms(2) by simp
  ultimately show ?thesis using assms x by (auto simp: in_ping_def rt_ops_def intro: buffers_sent)
qed

section \<open>A client on a byte stream\<close>

locale streaming_client = byte_stream "rt_net rt" sent incoming
  for rt :: "('n, 'k, 'w) runtime" and sent :: "'n \<Rightarrow> byte list" and incoming :: "'n \<Rightarrow> byte list"
begin

lemma buffers_connect:
  assumes "buffers_inv rt 0 st" and "ensure_connected rt st = (r, st')" and "r \<noteq> Panic"
  shows "buffers_inv rt 0 st'"
proof (cases "get_state (conn st) = Some Connected")
  case True
  with assms show ?thesis by (simp add: ensure_connected_def)
next
  case False
  obtain o1 c p where x: "tcp_connect (rt_codec rt) (rt_net rt) (conn st, pid_static (snd st)) = (o1, c, p)" by (rule prod_cases3)
  from tcp_connect_state [OF x] False have "watch c = Some Connected \<longrightarrow> connection c" by (auto simp: get_state_def)
  moreover have "tidy (conn st) (o1, c)"
    using tidy2_connect [of "(conn st, pid_static (snd st))" "rt_codec rt"] x by (simp add: tidy2_def)
  ultimately show ?thesis
    using assms x False
    by (auto simp: ensure_connected_def buffers_inv_def buffers_in_order_def tidy_def conn_def [of "(_, _)"])
qed

lemma buffers_io:
  assumes "buffers_inv rt 0 st" and "on_connection (run_io (rt_codec rt) (rt_net rt)) st = (r, st')"
  shows "case r of Ok m \<Rightarrow> buffers_inv rt 1 st' | _ \<Rightarrow> buffers_inv rt 0 st'"
proof (cases "watch (conn st) = Some Connected")
  case True
  obtain o1 c where x: "run_io (rt_codec rt) (rt_net rt) (conn st) = (o1, c)" by (rule prod.exhaust)
  then have st': "r = o1" "fst st' = fst st" "conn st' = c" using assms(2) by (auto simp: on_connection_def conn_def)
  from run_io_lends [OF x True] assms(1) show ?thesis
    by (cases o1)
      (auto simp: st' buffers_inv_def buffers_in_order_def lends_def safe_def conserves_def same_setup_def)
next
  case False
  with assms show ?thesis by (auto simp: on_connection_def run_io_def conn_def buffers_inv_def)
qed

lemma buffers_io_nonblocking:
  assumes "buffers_inv rt 0 st" and "on_connection (run_io_nonblocking (rt_codec rt) (rt_net rt)) st = (r, st')"
  shows "case r of Ok (Some m) \<Rightarrow> buffers_inv rt 1 st' | _ \<Rightarrow> buffers_inv rt 0 st'"
proof (cases "watch (conn st) = Some Connected")
  case True
  obtain o1 c where x: "run_io_nonblocking (rt_codec rt) (rt_net rt) (conn st) = (o1, c)" by (rule prod.exhaust)
  then have st': "r = o1" "fst st' = fst st" "conn st' = c" using assms(2) by (auto simp: on_connection_def conn_def)
  from run_io_nonblocking_lends [OF x True] assms(1) show ?thesis
    by (auto simp: st' buffers_inv_def buffers_in_order_def lends_def safe_def conserves_def same_setup_def
        split: outcome.splits option.splits)
next
  case False
  with assms show ?thesis by (auto simp: on_connection_def run_io_nonblocking_def conn_def buffers_inv_def)
qed

lemma buffers_drop:
  assumes "buffers_inv rt 1 st" and "on_connection (drop_packet m) st = (Ok u, st')"
  shows "buffers_inv rt 0 st'"
proof -
  let ?c = "(conn st)\<lparr>recv_buffer := (recv_buffer (conn st))\<lparr>borrows := 0\<rparr>\<rparr>"
  obtain o1 c where x: "drop_packet m (conn st) = (o1, c)" by (rule prod.exhaust)
  then have st': "o1 = Ok u" "fst st' = fst st" "conn st' = c" using assms(2) by (auto simp: on_connection_def conn_def)
  have "tidy_lent ?c (conn st)" "wf_tcp ?c"
    using assms(1) by (simp_all add: tidy_lent_def buffers_inv_def buffers_in_order_def wf_tcp_def send_capacity_def recv_capacity_def)
  from drop_tidy [OF this(1), of m] steady_drop_packet [of "conn st" m] this(2) x assms(1) show ?thesis
    by (auto simp: st' buffers_inv_def buffers_in_order_def tidy_def steady_def send_capacity_def recv_capacity_def)
qed

end

sublocale streaming_client \<subseteq> buffers: client_invariant rt "buffers_inv rt 0" "\<lambda>_. buffers_inv rt 1"
proof (unfold_locales, goal_cases)
  case (1 st req)
  with buffers_frame [OF frame_perform] conn_perform show ?case by blast
next
  case (2 st k)
  then show ?case by (simp add: buffers_inv_def conn_def)
next
  case (3 st q st')
  then have "conn st' = conn st" by (auto simp: poll_request_def conn_def split: prod.splits)
  with buffers_frame [OF frame_poll_request [OF 3(2)] 3(1)] show ?case by simp
next
  case (4 st r st')
  then show ?case by (rule buffers_connect)
next
  case (5 st s st')
  then show ?case by (rule buffers_publishes_send)
next
  case (6 st s st')
  then show ?case by (rule buffers_receives_send)
next
  case (7 st s st')
  then show ?case by (rule buffers_subs_send)
next
  case (8 st s st')
  then show ?case by (rule buffers_ping_send)
next
  case (9 st p st')
  then show ?case by (rule buffers_io)
next
  case (10 st po st')
  then show ?case by (rule buffers_io_nonblocking)
next
  case (11 m st r st')
  then have "conn st' = conn st" using conn_process_packet [of rt "snd m" st] by simp
  moreover have "kept (rt_sizes rt) st (r, st')" using kept_process_packet [of rt st "snd m"] 11(2) by simp
  ultimately show ?case using 11(1) by (auto intro: buffers_kept)
next
  case (12 m st u st')
  then show ?case by (rule buffers_drop)
next
  case (13 st)
  then show ?case
    by (auto simp: set_error_and_sleep_def buffers_inv_def buffers_in_order_def set_error_def set_watch_def conn_def
        wf_tcp_def send_capacity_def recv_capacity_def)
qed

context streaming_client begin

lemma rounds_buffers: "round_start rt st0 st \<Longrightarrow> buffers_inv rt 0 st0 \<Longrightarrow> buffers_inv rt 0 st"
  by (rule buffers.rounds_kept)

lemma others_buffers: "buffers_inv rt 0 st \<Longrightarrow> buffers_inv rt 0 (other_tasks rt st)"
  by (rule buffers.others_kept)

lemma send_components_buffers:
  "buffers_inv rt 0 st \<Longrightarrow> send_components rt st = (r, st') \<Longrightarrow> r \<noteq> Panic \<Longrightarrow> buffers_inv rt 0 st'"
  using buffers.send_components_kept [of st] by (simp add: buffers.holds_after_def)

end

end
