(* ===== verification/Client_Properties.thy ===== *)
theory Client_Properties
  imports Client_Pids Client_Buffers
begin

text \<open>
  The properties of the event loop (\<open>src/src/state/mod.rs\<close>) and of the client calls
  (\<open>src/src/client.rs\<close>).
\<close>

section \<open>Rounds of the event loop\<close>

definition round_inv :: "('n, 'k, 'w) runtime \<Rightarrow> ('n, 'k, 'w) client \<Rightarrow> bool" where
  "round_inv rt st \<longleftrightarrow> client_inv (rt_sizes rt) (fst st)
     \<and> (watch (conn st) = None \<or> watch (conn st) = Some ErrorState \<or> watch (conn st) = Some Connected)"

lemma client_inv_new: "client_inv n (fst (new_state rt config will net k wakers))"
  by (auto simp: new_state_def client_inv_def pub_inv_def receives_inv_def subs_inv_def new_publishes_def
      new_receives_def new_subs_def Let_def split: prod.splits)

lemma watch_new: "watch (conn (new_state rt config will net k wakers)) = None"
  by (auto simp: new_state_def new_ping_def read_clock_def rt_ops_def tcp_ops_def conn_def new_tcp_def Let_def
      split: prod.splits)

lemma round_inv_new: "round_inv rt (new_state rt config will net k wakers)"
  by (simp add: round_inv_def client_inv_new watch_new)

lemma other_tasks_state:
  assumes "client_inv (rt_sizes rt) (fst st)"
  shows "client_inv (rt_sizes rt) (fst (other_tasks rt st)) \<and> watch (conn (other_tasks rt st)) = watch (conn st)
    \<and> (disconnecting (fst st) \<longrightarrow> disconnecting (fst (other_tasks rt st)))"
  using frame_other_tasks [of rt st] assms by (simp add: frame_def kept_def)

lemma round_inv_others: "round_inv rt st \<Longrightarrow> round_inv rt (other_tasks rt st)"
  using other_tasks_state [of rt st] by (auto simp: round_inv_def)

lemma run_round_state:
  assumes "run_round rt st = (r, st')" and "client_inv (rt_sizes rt) (fst st)"
  shows "r \<noteq> Undefined_Behaviour \<and> (r = Ok None \<longrightarrow> round_inv rt st')"
proof -
  obtain r1 st1 where x: "run_once rt (other_tasks rt st) = (r1, st1)" by (rule prod.exhaust)
  have "client_inv (rt_sizes rt) (fst (other_tasks rt st))" using other_tasks_state [OF assms(2)] by simp
  note s = run_once_state [OF x this]
  obtain r2 c2 where d: "tcp_disconnect (rt_codec rt) (rt_net rt) (conn st1) = (r2, c2)" by (rule prod.exhaust)
  note t = tcp_disconnect_state [OF d]
  show ?thesis
  proof (cases r1)
    case (Ok b)
    show ?thesis
    proof (cases b)
      case True
      with Ok x assms(1) s show ?thesis by (auto simp: run_round_def round_inv_def)
    next
      case False
      with Ok x assms(1) d t show ?thesis by (cases r2) (auto simp: run_round_def on_connection_def)
    qed
  next
    case (Err e)
    with x assms(1) s show ?thesis
      by (auto simp: run_round_def round_inv_def set_error_and_sleep_def set_error_def set_watch_def conn_def
          split: if_splits)
  qed (use x assms(1) s in \<open>auto simp: run_round_def\<close>)
qed

lemma round_start_inv: "round_start rt st0 st \<Longrightarrow> round_inv rt st0 \<Longrightarrow> round_inv rt st"
  by (induction rule: round_start.induct) (auto dest: run_round_state simp: round_inv_def)

text \<open>How \<open>run\<close> ends: it goes round forever, or a round leaves it.\<close>

lemma run_exit:
  assumes "run rt st = (r, st')" and "r \<noteq> Diverges"
  obtains st1 q where "round_start rt st st1" "run_round rt st1 = (q, st')" "q \<noteq> Ok None" "r = leave q"
proof -
  let ?Q = "\<lambda>s r s'. r = Diverges \<or> (\<exists>s1 q. round_start rt s s1 \<and> run_round rt s1 = (q, s') \<and> q \<noteq> Ok None \<and> r = leave q)"
  have "?Q st (fst (run_loop (run_round rt) st)) (snd (run_loop (run_round rt) st))"
  proof (rule run_loop_rel [where R = "round_start rt" and Q = ?Q])
    show "round_start rt s s1" if "run_round rt s = (Ok None, s1)" for s s1
      using that by (rule round_start.next_round [OF round_start.first_round])
  next
    show "?Q s r s2" if "round_start rt s s1" and "?Q s1 r s2" for s s1 r s2
      using that by (blast intro: round_start_trans)
  qed (auto intro: round_start.first_round round_start_trans)
  with assms that show ?thesis by (auto simp: run_def)
qed

text \<open>C1: the event loop never executes undefined behaviour: whatever the broker sends, the codec
  and the network do and other tasks request, none of the unchecked pushes of the crate
  runs on a full vector, in any round, from the first one of a new client on.\<close>

theorem run_never_undefined:
  "fst (run rt (new_state rt config will net k wakers)) \<noteq> Undefined_Behaviour"
proof
  let ?s = "new_state rt config will net k wakers"
  assume "fst (run rt ?s) = Undefined_Behaviour"
  then obtain st' where "run rt ?s = (Undefined_Behaviour, st')" by (metis prod.collapse)
  then obtain st1 q where x: "round_start rt ?s st1" "run_round rt st1 = (q, st')" "Undefined_Behaviour = leave q"
    by (rule run_exit) auto
  from round_start_inv [OF x(1) round_inv_new] have "client_inv (rt_sizes rt) (fst st1)" by (simp add: round_inv_def)
  from run_round_state [OF x(2) this] x(3) show False by (cases q rule: leave.cases) auto
qed

text \<open>C5: the connection state is in order in every round: a round begins before the first connect,
  after an error, or connected, so that the assertion in \<open>connect\<close> holds; when the round
  returns without an error, the client is connected, so that the assertions in \<open>run_io\<close> and
  \<open>disconnect\<close> hold; and the queues keep their capacities.\<close>

theorem rounds_keep_connection_state:
  assumes "round_start rt (new_state rt config will net k wakers) st"
    and "run_once rt (other_tasks rt st) = (r, st')"
  shows "watch (conn (other_tasks rt st)) \<in> {None, Some ErrorState, Some Connected}
    \<and> (\<forall>b. r = Ok b \<longrightarrow> watch (conn st') = Some Connected)
    \<and> client_inv (rt_sizes rt) (fst st')"
proof -
  have "round_inv rt (other_tasks rt st)"
    using round_start_inv [OF assms(1) round_inv_new] by (rule round_inv_others)
  with run_once_state [OF assms(2)] show ?thesis by (auto simp: round_inv_def)
qed


section \<open>A client for the witnesses\<close>

text \<open>A client over the test network with buffers of 8 bytes; \<open>bs\<close> is what the broker sends.\<close>

definition sample_rt :: "client_request list \<Rightarrow> (test_network, nat, task list \<times> task list) runtime" where
  "sample_rt rs =
     \<lparr>rt_codec = sample_codec, rt_sizes = sample_sizes, rt_net = sample_net, rt_clock = tick,
      rt_sleep = (\<lambda>d k. k + d), rt_sleep_ready = (\<lambda>d k. d = 0), rt_wakers = single_registry,
      rt_task = 0, rt_others = (\<lambda>k. (rs, k))\<rparr>"

lemma sample_rt_simps:
  "rt_codec (sample_rt rs) = sample_codec" "rt_sizes (sample_rt rs) = sample_sizes" "rt_net (sample_rt rs) = sample_net"
  "rt_clock (sample_rt rs) = tick" "rt_wakers (sample_rt rs) = single_registry"
  by (simp_all add: sample_rt_def)

definition sample_client :: "byte list \<Rightarrow> (test_network, nat, task list \<times> task list) client" where
  "sample_client bs = new_state (sample_rt []) (new_config (Ip (V4 0)) None [] None) None
     \<lparr>bytes_sent = [], bytes_received = bs\<rparr> 0 ([], [])"

lemma sample_connects:
  "case tcp_connect sample_codec sample_net (conn (sample_client [0x20, 2, 0, 0]), new_pid_pool) of
     (r, c, p) \<Rightarrow> r = Ok () \<and> wf_tcp c \<and> connection c \<and> borrows (send_buffer c) = 0
       \<and> watch c = Some Connected \<and> send_capacity c = 8"
  by code_simp

lemmas nothing_to_send = send_components_def in_publishes_def in_receives_def in_subscribes_def in_ping_def
  publishes_send_packets_def send_pending_pubrel.simps send_pending_publishes.simps resend_publishes_def
  resend_pubrel_def resend_await_publish_def receives_send_packets_def send_pubacks.simps send_pubrecs.simps
  send_pubcomps.simps subs_send_def send_requests.simps resend_requests_def ping_send_def read_clock_def
  rt_ops_def tcp_ops_def new_publishes_def new_receives_def new_subs_def

lemma send_nothing:
  fixes st :: "('n, nat, 'w) client"
  assumes "publishes (fst st) = new_publishes" "received_publishes (fst st) = new_receives"
    "subscribes (fst st) = new_subs" "ping (fst st) = PingSuccess 0" "rt_clock rt = tick"
    "snd (env (snd st)) < 100"
  shows "\<exists>st2. send_components rt st = (Ok SentAll, st2) \<and> fst st2 = fst st \<and> conn st2 = conn st"
proof -
  obtain s w where st: "st = (s, w)" by (cases st)
  obtain c k where e: "env w = (c, k)" by (cases "env w")
  from assms st e show ?thesis
    by (auto simp: nothing_to_send tick_def ping_durations conn_def)
qed

interpretation test_client: streaming_client "sample_rt rs" bytes_sent bytes_received for rs
  using sample_stream by (simp add: streaming_client_def sample_rt_simps)

definition asked :: "(test_network, nat, task list \<times> task list) client \<Rightarrow> (test_network, nat, task list \<times> task list) client" where
  "asked st = state_disconnect (sample_rt []) st"

lemma sample_others:
  "other_tasks (sample_rt []) st = st" "other_tasks (sample_rt [Disconnect_Request]) st = asked st"
  by (cases st; simp add: other_tasks_def sample_rt_def conn_def asked_def state_disconnect_def)+

lemma asked_simps:
  "disconnecting (fst (asked st))" "conn (asked st) = conn st" "snd (asked st) = snd st"
  "publishes (fst (asked st)) = publishes (fst st)" "received_publishes (fst (asked st)) = received_publishes (fst st)"
  "subscribes (fst (asked st)) = subscribes (fst st)" "ping (fst (asked st)) = ping (fst st)"
  by (simp_all add: asked_def state_disconnect_def update_request_def notify_disconnect_def disconnecting_def conn_def)

lemma sample_client_simps:
  "publishes (fst (sample_client bs)) = new_publishes" "received_publishes (fst (sample_client bs)) = new_receives"
  "subscribes (fst (sample_client bs)) = new_subs" "ping (fst (sample_client bs)) = PingSuccess 0"
  "snd (env (snd (sample_client bs))) = 1" "pid_static (snd (sample_client bs)) = new_pid_pool"
  "watch (conn (sample_client bs)) = None" "on_requst_added (fst (sample_client bs)) = new_request_state ([], [])"
  by (simp_all add: sample_client_def new_state_def new_ping_def read_clock_def rt_ops_def tcp_ops_def sample_rt_def
      tick_def conn_def new_tcp_def)

lemma awaits_disconnect:
  assumes "disconnecting (fst st)"
  shows "await_event_round rt st = (Ok False, st)"
proof -
  have "poll_request rt st = (Some DisconnectRequest, st)"
    using assms by (simp add: poll_request_def poll_notification_def disconnecting_def)
  then show ?thesis by (simp add: await_event_round_def)
qed

lemma sample_round:
  assumes "rs = [Disconnect_Request]"
  obtains st1 st2 where "ensure_connected (sample_rt rs) (asked (sample_client [0x20, 2, 0, 0])) = (Ok (), st1)"
    "send_components (sample_rt rs) st1 = (Ok SentAll, st2)"
    "disconnecting (fst st2)" "wf_tcp (conn st2)" "connection (conn st2)" "borrows (send_buffer (conn st2)) = 0"
    "watch (conn st2) = Some Connected" "send_capacity (conn st2) = 8"
proof -
  let ?c = "sample_client [0x20, 2, 0, 0]"
  obtain c p where c: "tcp_connect sample_codec sample_net (conn ?c, new_pid_pool) = (Ok (), c, p)"
    "wf_tcp c" "connection c" "borrows (send_buffer c) = 0" "watch c = Some Connected" "send_capacity c = 8"
    using sample_connects by (auto split: prod.splits)
  let ?st1 = "(fst (asked ?c), (snd ?c)\<lparr>pid_static := p, env := (c, 1)\<rparr>)"
  have e: "ensure_connected (sample_rt rs) (asked ?c) = (Ok (), ?st1)"
    using c by (simp add: ensure_connected_def get_state_def asked_simps sample_client_simps sample_rt_def)
  have "\<exists>st2. send_components (sample_rt rs) ?st1 = (Ok SentAll, st2) \<and> fst st2 = fst ?st1 \<and> conn st2 = conn ?st1"
    by (rule send_nothing) (simp_all add: asked_simps sample_client_simps sample_rt_def)
  then obtain st2 where st2: "send_components (sample_rt rs) ?st1 = (Ok SentAll, st2)" "fst st2 = fst (asked ?c)"
    "conn st2 = c" by (auto simp: conn_def)
  from that [OF e st2(1)] st2(2,3) c show ?thesis by (simp add: asked_simps)
qed

lemma sample_run:
  obtains st' where "run (sample_rt [Disconnect_Request]) (sample_client [0x20, 2, 0, 0]) = (Ok (), st')"
proof -
  let ?rt = "sample_rt [Disconnect_Request]"
  obtain st1 st2 where s: "ensure_connected ?rt (asked (sample_client [0x20, 2, 0, 0])) = (Ok (), st1)"
    "send_components ?rt st1 = (Ok SentAll, st2)"
    "disconnecting (fst st2)" "wf_tcp (conn st2)" "connection (conn st2)" "borrows (send_buffer (conn st2)) = 0"
    "watch (conn st2) = Some Connected" "send_capacity (conn st2) = 8"
    by (rule sample_round [OF refl])
  have "encodes_as sample_codec Disconnect [0xE0, 0]" by (rule encodes_as_sample) (simp add: sample_bytes_def)
  with s obtain c' where "tcp_disconnect sample_codec sample_net (conn st2) = (Ok (), c')"
    by (auto intro: disconnect_reliable [OF sample_stream sample_reliable])
  then obtain st' where d: "on_connection (tcp_disconnect (rt_codec ?rt) (rt_net ?rt)) st2 = (Ok (), st')"
    by (simp add: on_connection_def sample_rt_def)
  have "run_once ?rt (asked (sample_client [0x20, 2, 0, 0])) = (Ok False, st2)"
    using s(1,2) awaits_disconnect [OF s(3)] by (simp add: run_once_def)
  with d have "run_round ?rt (sample_client [0x20, 2, 0, 0]) = (Ok (Some ()), st')"
    by (simp add: run_round_def sample_others)
  then have "run ?rt (sample_client [0x20, 2, 0, 0]) = (Ok (), st')"
    by (simp add: run_def run_loop_leave)
  with that show ?thesis .
qed

theorem rounds_keep_connection_state_witness:
  "\<exists>r st'. run_once (sample_rt []) (other_tasks (sample_rt []) (sample_client [])) = (r, st')
    \<and> client_inv sample_sizes (fst st')"
proof -
  obtain r st' where r: "run_once (sample_rt []) (other_tasks (sample_rt []) (sample_client [])) = (r, st')"
    by (rule prod.exhaust)
  from rounds_keep_connection_state [OF round_start.first_round r [unfolded sample_client_def]] r show ?thesis
    by (auto simp: sample_rt_def)
qed

section \<open>The end of the event loop\<close>

lemma round_says_disconnect:
  assumes "await_event_round rt st = (Ok False, st')" 
  shows "disconnecting (fst st')"
proof -
  have poll: "disconnecting (fst t')" if "poll_request rt t = (Some DisconnectRequest, t')" for t t'
    using that by (auto simp: poll_request_def poll_notification_def disconnecting_def
        split: option.splits request_notification.splits)
  have consume: "and_then (consume_packet rt m t) (\<lambda>_ st. (Ok True, st)) \<noteq> (Ok False, t')" for m t t'
    by (auto split: and_then_split)
  show ?thesis
    using assms unfolding await_event_round_def
    by (auto split: prod.splits option.splits if_splits outcome.splits
        dest: poll consume [THEN notE] simp: obind_Ok_iff)
qed


lemma run_once_disconnect:
  assumes "run_once rt st = (Ok False, st')"
  shows "disconnecting (fst st')"
proof -
  from assms obtain st1 res st2 where "send_components rt st1 = (Ok res, st2)"
    and r: "(if res = PartiallySent then
         and_then (on_connection (run_io_nonblocking (rt_codec rt) (rt_net rt)) st2) (\<lambda>packet st.
           case packet of
             Some m \<Rightarrow> and_then (consume_packet rt m st) (\<lambda>_ st. (Ok True, st))
           | None \<Rightarrow> (Ok True, st))
       else await_event_round rt st2) = (Ok False, st')"
    unfolding run_once_def and_then_Ok by blast
  show ?thesis
  proof (cases "res = PartiallySent")
    case True
    with r show ?thesis by (auto simp: and_then_Ok split: option.splits)
  next
    case False
    with r round_says_disconnect [of rt st2 st'] show ?thesis by simp
  qed
qed

text \<open>How a round that returns \<open>Ok\<close> from \<open>run\<close> went.\<close>

lemma round_returns:
  assumes "run_round rt st = (Ok (Some ()), st')"
  obtains st1 where "run_once rt (other_tasks rt st) = (Ok False, st1)"
    "on_connection (tcp_disconnect (rt_codec rt) (rt_net rt)) st1 = (Ok (), st')"
proof -
  obtain r1 st1 where x: "run_once rt (other_tasks rt st) = (r1, st1)" by (rule prod.exhaust)
  with assms have "r1 = Ok False"
    by (cases r1) (auto simp: run_round_def split: bool.splits if_splits)
  with x assms that show ?thesis by (auto simp: run_round_def and_then_Ok)
qed

lemma round_fails:
  assumes "run_round rt st = (Err e, st')"
  shows "\<not> recoverable e \<or> disconnecting (fst st')"
proof -
  obtain r1 st1 where x: "run_once rt (other_tasks rt st) = (r1, st1)" by (rule prod.exhaust)
  obtain r2 c2 where d: "tcp_disconnect (rt_codec rt) (rt_net rt) (conn st1) = (r2, c2)" by (rule prod.exhaust)
  show ?thesis
  proof (cases "r1 = Ok False")
    case True
    with x d assms have "fst st' = fst st1" by (cases r2) (auto simp: run_round_def on_connection_def)
    with run_once_disconnect x True show ?thesis by metis
  next
    case False
    with x assms show ?thesis by (cases r1) (auto simp: run_round_def split: bool.splits if_splits)
  qed
qed

lemma on_connection_state: "on_connection f st = (r, st') \<Longrightarrow> fst st' = fst st \<and> f (conn st) = (r, conn st')"
  by (auto simp: on_connection_def conn_def split: prod.splits)

lemma disconnected_round:
  assumes "client_inv (rt_sizes rt) (fst st)" and "watch (conn st) = Some Disconnected"
  shows "fst (run rt st) = Panic"
proof -
  have w: "watch (conn (other_tasks rt st)) = Some Disconnected" using other_tasks_state [OF assms(1)] assms(2) by simp
  then have "fst (ensure_connected rt (other_tasks rt st)) = Panic"
    by (simp add: ensure_connected_def get_state_def tcp_connect_def)
  then obtain st1 where "ensure_connected rt (other_tasks rt st) = (Panic, st1)" by (metis prod.collapse)
  then have "run_round rt st = (Panic, st1)" by (simp add: run_round_def run_once_def)
  then show ?thesis by (simp add: run_def run_loop_leave)
qed

text \<open>C23: \<open>run\<close> returns \<open>Ok\<close> only after a disconnect was requested and carried out: the DISCONNECT
  exchange succeeded, the connection is closed and the state is Disconnected.  From there
  \<open>run\<close> cannot be called again: the assertion in \<open>connect\<close> panics.\<close>

theorem run_returns_disconnected:
  assumes "run rt (new_state rt config will net k wakers) = (Ok (), st')"
  shows "disconnecting (fst st') \<and> watch (conn st') = Some Disconnected \<and> \<not> connection (conn st')
    \<and> fst (run rt st') = Panic"
proof -
  from assms obtain st1 q where s: "round_start rt (new_state rt config will net k wakers) st1"
    "run_round rt st1 = (q, st')" "Ok () = leave q"
    by (rule run_exit) auto
  from s(3) have "q = Ok (Some ())" by (cases q rule: leave.cases) auto
  with s(2) obtain st2 where o: "run_once rt (other_tasks rt st1) = (Ok False, st2)"
    and d: "on_connection (tcp_disconnect (rt_codec rt) (rt_net rt)) st2 = (Ok (), st')"
    by (auto elim: round_returns)
  from round_start_inv [OF s(1) round_inv_new] have "client_inv (rt_sizes rt) (fst (other_tasks rt st1))"
    using other_tasks_state [of rt st1] by (auto simp: round_inv_def)
  from run_once_state [OF o this] have inv: "client_inv (rt_sizes rt) (fst st')"
    using on_connection_state [OF d] by simp
  from on_connection_state [OF d] run_once_disconnect [OF o] tcp_disconnect_state [of "rt_codec rt" "rt_net rt" "conn st2"]
  have "disconnecting (fst st')" "watch (conn st') = Some Disconnected" "\<not> connection (conn st')" by auto
  with disconnected_round [OF inv] show ?thesis by simp
qed

theorem run_returns_disconnected_witness:
  "\<exists>st'. run (sample_rt [Disconnect_Request]) (sample_client [0x20, 2, 0, 0]) = (Ok (), st')
    \<and> watch (conn st') = Some Disconnected \<and> fst (run (sample_rt [Disconnect_Request]) st') = Panic"
proof -
  obtain st' where r: "run (sample_rt [Disconnect_Request]) (sample_client [0x20, 2, 0, 0]) = (Ok (), st')"
    by (rule sample_run)
  moreover have "sample_client [0x20, 2, 0, 0] = new_state (sample_rt [Disconnect_Request])
      (new_config (Ip (V4 0)) None [] None) None \<lparr>bytes_sent = [], bytes_received = [0x20, 2, 0, 0]\<rparr> 0 ([], [])"
    by (simp add: sample_client_def new_state_def sample_rt_def rt_ops_def)
  ultimately show ?thesis using run_returns_disconnected [of "sample_rt [Disconnect_Request]"] by metis
qed

text \<open>Only errors that are not recoverable stop the event loop: connection, codec and protocol
  errors lead to another attempt to connect, unless a disconnect was requested.\<close>

lemma run_stops_on_fatal_errors:
  assumes "run rt st = (Err e, st')"
  shows "\<not> recoverable e \<or> disconnecting (fst st')"
proof -
  from assms obtain st1 q where s: "run_round rt st1 = (q, st')" "Err e = leave q"
    by (rule run_exit) auto
  from s(2) have "q = Err e" by (cases q rule: leave.cases) auto
  with s(1) round_fails show ?thesis by blast
qed

section \<open>Packet identifiers and buffers\<close>

lemma flight_inv_new: "flight_inv rt (new_state rt config will net k wakers)"
proof -
  let ?st = "new_state rt config will net k wakers"
  have "publishes (fst ?st) = new_publishes" "subscribes (fst ?st) = new_subs" "pid_static (snd ?st) = new_pid_pool"
    by (simp_all add: new_state_def new_ping_def read_clock_def Let_def split: prod.splits)
  then show ?thesis
    by (simp add: flight_inv_def client_inv_new pids_in_flight_def open_pids_def sub_pids_def new_publishes_def new_subs_def)
qed

text \<open>C2: no packet identifier is used for two requests at a time: in every round of the event loop
  of a new client, the identifiers of all publish, subscribe and unsubscribe requests in
  progress are distinct and not zero, and the pool does not issue one of them, whatever the broker
  acknowledged before, how often the client reconnected, and which requests were lost on full queues.\<close>

theorem packet_ids_in_flight_distinct:
  assumes "round_start rt (new_state rt config will net k wakers) st" and "st' = other_tasks rt st"
  shows "(\<forall>i. count (pids_in_flight (fst st')) i \<le> 1) \<and> 0 \<notin># pids_in_flight (fst st')
    \<and> (\<forall>i p. next_pid (pid_static (snd st')) = (Ok i, p) \<longrightarrow> i \<noteq> 0 \<and> i \<notin># pids_in_flight (fst st'))"
proof -
  have "flight_inv rt st'"
    unfolding assms(2) by (rule flight.others_kept) (rule flight.rounds_kept [OF assms(1) flight_inv_new])
  then have l: "lent (pids_in_flight (fst st')) (pid_static (snd st'))" by (simp add: flight_inv_def)
  then have "0 \<notin># pids_in_flight (fst st')"
    by (auto simp: lent_def pids.owned_def pids_issued_def)
  with l lent_next [OF l] show ?thesis by (auto simp: lent_def)
qed

definition two_requests :: "client_request list" where
  "two_requests = [Publish_Request ''t'' [1] AtLeastOnce False (UniqueID 0), Subscribe_Request [''s''] AtMostOnce (UniqueID 1)]"

lemma two_requests_pids:
  "pids_in_flight (fst (other_tasks (sample_rt two_requests) (sample_client []))) = {#1, 2#}"
  by (simp add: other_tasks_def sample_rt_def two_requests_def state_publish_def take_qospid_def world_next_pid_def
      sample_client_simps new_pid_pool_def next_pid_def pool_next_pid_def pid_take_def pid_try_from_def
      in_publishes_def publishes_publish_eq new_publishes_def sample_sizes_def fits_def publish.defs
      update_request_def state_subscribe_def in_subscribes_def add_subscribe_request_def add_request_def vec_is_full_def
      request_topics_def string_try_from_def vec_push_def new_subs_def pids_in_flight_def open_pids_def sub_pids_def)

theorem packet_ids_in_flight_distinct_witness:
  "pids_in_flight (fst (other_tasks (sample_rt two_requests) (sample_client []))) = {#1, 2#}
    \<and> count {#1, 2 :: pid#} 1 \<le> 1"
proof -
  have "round_start (sample_rt two_requests) (new_state (sample_rt two_requests) (new_config (Ip (V4 0)) None [] None) None
      \<lparr>bytes_sent = [], bytes_received = []\<rparr> 0 ([], [])) (sample_client [])"
    unfolding sample_client_def new_state_def by (simp add: sample_rt_def rt_ops_def round_start.first_round)
  from packet_ids_in_flight_distinct [OF this refl] show ?thesis unfolding two_requests_pids by blast
qed

lemma buffers_inv_new: "buffers_inv rt 0 (new_state rt config will net k wakers)"
proof -
  have "conn (new_state rt config will net k wakers) = new_tcp (BUFFER (rt_sizes rt)) net will config"
    by (auto simp: new_state_def new_ping_def read_clock_def rt_ops_def tcp_ops_def conn_def Let_def split: prod.splits)
  then show ?thesis
    by (simp add: buffers_inv_def client_inv_new buffers_in_order_def new_tcp_def wf_tcp_def wf_buffer_def new_cell_def
        new_buffer_def send_capacity_def recv_capacity_def capacity_def)
qed

text \<open>C6: over a network that is an ordered byte stream, every round of the event loop of a new
  client finds the buffers of its connection well-formed, of the capacity they were made with, and
  not borrowed, so that the borrows of the round cannot panic; and a client in the state Connected
  has an open connection.\<close>

theorem rounds_find_buffers_free:
  assumes "byte_stream (rt_net rt) sent incoming" and "round_start rt (new_state rt config will net k wakers) st"
  shows "wf_tcp (conn st) \<and> idle (conn st) \<and> send_capacity (conn st) = BUFFER (rt_sizes rt)
    \<and> recv_capacity (conn st) = BUFFER (rt_sizes rt) \<and> (watch (conn st) = Some Connected \<longrightarrow> connection (conn st))"
proof -
  from assms(1) have s: "streaming_client rt sent incoming" by (simp add: streaming_client_def)
  from streaming_client.rounds_buffers [OF s assms(2) buffers_inv_new] show ?thesis
    by (simp add: buffers_inv_def buffers_in_order_def idle_def)
qed

theorem rounds_find_buffers_free_witness:
  "wf_tcp (conn (sample_client [])) \<and> idle (conn (sample_client [])) \<and> send_capacity (conn (sample_client [])) = 8"
  using rounds_find_buffers_free [of "sample_rt []" bytes_sent bytes_received,
      OF _ round_start.first_round [of "sample_rt []" "sample_client []", unfolded sample_client_def]]
  by (simp add: sample_rt_simps sample_stream sample_client_def sample_sizes_def)

section \<open>Disconnecting\<close>

text \<open>How the round looks that sees a request to disconnect.\<close>

lemma disconnecting_round:
  assumes "client_inv (rt_sizes rt) (fst st)" and "disconnecting (fst (other_tasks rt st))"
    and "ensure_connected rt (other_tasks rt st) = (Ok (), st1)" and "send_components rt st1 = (Ok SentAll, st2)"
  shows "run_round rt st =
      and_then (on_connection (tcp_disconnect (rt_codec rt) (rt_net rt)) st2) (\<lambda>_ st. (Ok (Some ()), st))
    \<and> watch (conn st2) = Some Connected"
proof -
  have d: "disconnecting (fst st1)" "client_inv (rt_sizes rt) (fst st1)" "watch (conn st1) = Some Connected"
    using other_tasks_state [OF assms(1)] ensure_connected_state [OF assms(3)] assms(2) by auto
  with kept_send_components [of rt st1] assms(4) have "disconnecting (fst st2)" "watch (conn st2) = Some Connected"
    by (simp_all add: kept_def)
  moreover from this(1) awaits_disconnect assms(3,4) have "run_once rt (other_tasks rt st) = (Ok False, st2)"
    by (simp add: run_once_def)
  ultimately show ?thesis by (simp add: run_round_def)
qed

text \<open>C14: a request to disconnect ends the event loop of a client on a network that works: as soon as
  a round has a connection and room for the packets that are due, \<open>run\<close> returns \<open>Ok\<close>; everything
  buffered and then the DISCONNECT packet, as the last one, has been written to the network, and the
  connection is closed.\<close>

theorem disconnect_request_ends_loop:
  assumes "byte_stream (rt_net rt) sent incoming" and "reliable (rt_net rt)"
    and "encodes_as (rt_codec rt) Disconnect bs" and "length bs \<le> BUFFER (rt_sizes rt)"
    and "round_start rt (new_state rt config will net k wakers) st" and "disconnecting (fst (other_tasks rt st))"
    and "ensure_connected rt (other_tasks rt st) = (Ok (), st1)" and "send_components rt st1 = (Ok SentAll, st2)"
  shows "\<exists>st'. run rt st = (Ok (), st') \<and> watch (conn st') = Some Disconnected \<and> \<not> connection (conn st')
    \<and> sent (network (conn st')) = sent (network (conn st2)) @ send_queue (conn st2) @ bs"
proof -
  from assms(1) have s: "streaming_client rt sent incoming" by (simp add: streaming_client_def)
  from streaming_client.rounds_buffers [OF s assms(5) buffers_inv_new] have b: "buffers_inv rt 0 st" .
  from b have "client_inv (rt_sizes rt) (fst st)" by (simp add: buffers_inv_def)
  note r = disconnecting_round [OF this assms(6-8)]
  have b1: "buffers_inv rt 0 st1"
    by (rule streaming_client.buffers_connect [OF s streaming_client.others_buffers [OF s b] assms(7)]) simp
  have "buffers_inv rt 0 st2"
    by (rule streaming_client.send_components_buffers [OF s b1 assms(8)]) simp
  then have "wf_tcp (conn st2)" "connection (conn st2)" "borrows (send_buffer (conn st2)) = 0"
    "length bs \<le> send_capacity (conn st2)" using r assms(4) by (simp_all add: buffers_inv_def buffers_in_order_def)
  with disconnect_reliable [OF assms(1,2) _ _ _ _ assms(3)] r obtain c where
    c: "tcp_disconnect (rt_codec rt) (rt_net rt) (conn st2) = (Ok (), c)"
    "sent (network c) = sent (network (conn st2)) @ send_queue (conn st2) @ bs" by blast
  let ?st' = "(fst st2, (snd st2)\<lparr>env := (c, snd (env (snd st2)))\<rparr>)"
  have "run_round rt st = (Ok (Some ()), ?st')" using r c(1) by (simp add: on_connection_def)
  then have "run rt st = (Ok (), ?st')" by (simp add: run_def run_loop_leave)
  with c tcp_disconnect_state [OF c(1)] show ?thesis by (intro exI [of _ ?st']) (simp add: conn_def)
qed

theorem disconnect_request_ends_loop_witness:
  "\<exists>st'. run (sample_rt [Disconnect_Request]) (sample_client [0x20, 2, 0, 0]) = (Ok (), st')
    \<and> watch (conn st') = Some Disconnected \<and> (\<exists>bs. bytes_sent (network (conn st')) = bs @ [0xE0, 0])"
proof -
  let ?rt = "sample_rt [Disconnect_Request]" and ?c = "sample_client [0x20, 2, 0, 0]"
  obtain st1 st2 where s: "ensure_connected ?rt (other_tasks ?rt ?c) = (Ok (), st1)" "send_components ?rt st1 = (Ok SentAll, st2)"
    using sample_round [OF refl] by (metis sample_others(2))
  have e: "encodes_as (rt_codec ?rt) Disconnect [0xE0, 0]"
    by (simp add: sample_rt_simps) (rule encodes_as_sample, simp add: sample_bytes_def)
  have c: "?c = new_state ?rt (new_config (Ip (V4 0)) None [] None) None \<lparr>bytes_sent = [], bytes_received = [0x20, 2, 0, 0]\<rparr> 0 ([], [])"
    by (simp add: sample_client_def new_state_def sample_rt_def rt_ops_def)
  have r: "round_start ?rt (new_state ?rt (new_config (Ip (V4 0)) None [] None) None
      \<lparr>bytes_sent = [], bytes_received = [0x20, 2, 0, 0]\<rparr> 0 ([], [])) ?c"
    unfolding c by (rule round_start.first_round)
  have "\<exists>st'. run ?rt ?c = (Ok (), st') \<and> watch (conn st') = Some Disconnected \<and> \<not> connection (conn st')
    \<and> bytes_sent (network (conn st')) = bytes_sent (network (conn st2)) @ send_queue (conn st2) @ [0xE0, 0]"
    by (rule disconnect_request_ends_loop [OF _ _ e _ r _ s, where incoming = bytes_received])
      (simp_all add: sample_rt_simps sample_stream sample_reliable sample_others asked_simps sample_sizes_def)
  then show ?thesis by (metis append_assoc)
qed

section \<open>Client calls\<close>

lemma await_event_Ok:
  "await_event f events = Ok u \<Longrightarrow> \<exists>pre event post. events = pre @ event # post \<and> f event = Some u \<and> (\<forall>e \<in> set pre. f e = None)"
proof (induction events)
  case (Cons e es)
  show ?case
  proof (cases "f e")
    case None
    with Cons obtain pre event post where "es = pre @ event # post" "f event = Some u" "\<forall>e \<in> set pre. f e = None"
      by auto
    with None show ?thesis by (intro exI [of _ "e # pre"] exI [of _ event] exI [of _ post]) simp
  next
    case (Some v)
    with Cons.prems show ?thesis by (intro exI [of _ "[]"] exI [of _ e] exI [of _ es]) simp
  qed
qed simp

text \<open>How a client call that returned went.\<close>

lemma client_call_Ok:
  assumes "client_call request result meanwhile st = (Ok (), st')"
  obtains uid st1 st2 st3 v where "new_unique_id st = (Ok uid, st1)" "subscribe_events st1 = (Ok (), st2)"
    "request uid st2 = (Ok (), st3)"
    "await_event (result uid) (drop (length (event_log (snd st2))) (event_log (snd (meanwhile st3)))) = Ok (Inr v)"
    "free_unique_id uid (drop_subscriber (meanwhile st3)) = (Ok (), st')"
proof -
  obtain r0 st1 where n: "new_unique_id st = (r0, st1)" by (rule prod.exhaust)
  with assms obtain uid where uid: "r0 = Ok uid" by (cases r0) (simp_all add: client_call_def)
  obtain r0' st2 where e: "subscribe_events st1 = (r0', st2)" by (rule prod.exhaust)
  with assms n uid have "r0' = Ok ()" by (cases r0') (simp_all add: client_call_def)
  with n e uid have 1: "new_unique_id st = (Ok uid, st1)" "subscribe_events st1 = (Ok (), st2)"
    by (simp_all only:)
  from assms have r: "call_and_wait request result meanwhile uid st2 = (Ok (), st')"
    unfolding client_call_def 1 and_then.simps .
  obtain r1 st3 where x: "request uid st2 = (r1, st3)" by (rule prod.exhaust)
  from r x have "r1 = Ok ()" by (cases r1) (auto simp: call_and_wait_def)
  with x have q: "request uid st2 = (Ok (), st3)" by simp
  let ?evs = "drop (length (event_log (snd st2))) (event_log (snd (meanwhile st3)))"
  have r2: "and_then (await_event (result uid) ?evs, meanwhile st3) (\<lambda>r st.
      and_then (free_unique_id uid (drop_subscriber st)) (\<lambda>_ st. (case r of Inr _ \<Rightarrow> Ok () | Inl e \<Rightarrow> Err e, st))) = (Ok (), st')"
    using r q by (simp add: call_and_wait_def Let_def)
  then obtain u where u: "await_event (result uid) ?evs = Ok u" by (cases "await_event (result uid) ?evs") simp_all
  obtain r3 st4 where f: "free_unique_id uid (drop_subscriber (meanwhile st3)) = (r3, st4)" by (rule prod.exhaust)
  with r2 u have "r3 = Ok ()" "st4 = st'" by (cases r3; simp)+
  moreover have "\<exists>v. u = Inr v" using r2 u f calculation by (cases u) simp_all
  ultimately show ?thesis using that [OF 1 q] u f by auto
qed

lemma new_unique_id_state:
  "new_unique_id st = (r, st') \<Longrightarrow> snd st' = snd st \<and> (\<exists>p. uid_next (uid_static (fst st)) = (r, p))"
  by (auto simp: new_unique_id_def split: prod.splits)

lemma subscribe_events_state: "subscribe_events st = (Ok (), st') \<Longrightarrow> snd st' = snd st"
  by (auto simp: subscribe_events_def split: if_splits)

lemma free_unique_id_state:
  "free_unique_id uid st = (Ok (), st') \<Longrightarrow> uid \<in> set (uids_free (uid_static (fst st')))"
  by (auto simp: free_unique_id_def dest: uid_free_Ok split: prod.splits)

lemma drop_split:
  "drop n xs = pre @ x # post \<Longrightarrow> \<exists>pre'. xs = pre' @ x # post \<and> n \<le> length pre'"
proof -
  assume d: "drop n xs = pre @ x # post"
  then have "n < length xs" by (cases "n < length xs") auto
  then show ?thesis using d append_take_drop_id [of n xs]
    by (intro exI [of _ "take n xs @ pre"]) simp
qed

text \<open>C15: \<open>MqttClient::publish\<close> returns \<open>Ok\<close> only when its own message is done: the request was
  accepted under a new unique id, and the completion of exactly this id was published after the
  call began, and not earlier; the id is then free for another call.\<close>

theorem publish_returns_when_done:
  assumes "client_publish rt topic bytes q retained meanwhile st = (Ok (), st')"
  shows "\<exists>uid p st2 st3 pre post. uid_next (uid_static (fst st)) = (Ok uid, p) \<and> snd st2 = snd st
    \<and> state_publish rt topic bytes q retained uid st2 = (Ok (), st3)
    \<and> event_log (snd (meanwhile st3)) = pre @ PublishDone uid # post \<and> length (event_log (snd st)) \<le> length pre
    \<and> uid \<in> set (uids_free (uid_static (fst st')))"
proof -
  let ?f = "\<lambda>uid event. case event of PublishDone u \<Rightarrow> if u = uid then Some (Inr () :: mqtt_error + unit) else None | _ \<Rightarrow> None"
  from assms obtain uid st1 st2 st3 v where c: "new_unique_id st = (Ok uid, st1)" "subscribe_events st1 = (Ok (), st2)"
    "state_publish rt topic bytes q retained uid st2 = (Ok (), st3)"
    "await_event (?f uid) (drop (length (event_log (snd st2))) (event_log (snd (meanwhile st3)))) = Ok (Inr v)"
    "free_unique_id uid (drop_subscriber (meanwhile st3)) = (Ok (), st')"
    unfolding client_publish_def by (rule client_call_Ok)
  from await_event_Ok [OF c(4)] obtain l ev post where
    "drop (length (event_log (snd st2))) (event_log (snd (meanwhile st3))) = l @ ev # post" "?f uid ev = Some (Inr v)"
    by blast
  then have "drop (length (event_log (snd st2))) (event_log (snd (meanwhile st3))) = l @ PublishDone uid # post"
    by (auto split: mqtt_event.splits if_splits)
  from drop_split [OF this] new_unique_id_state [OF c(1)] subscribe_events_state [OF c(2)] c(3)
    free_unique_id_state [OF c(5)] show ?thesis by metis
qed

definition connected_client :: "(test_network, nat, task list \<times> task list) client" where
  "connected_client = (fst (sample_client []), sample_world (sample_tcp [] [], 0))"

lemma sample_publish_accepted:
  "\<exists>st3. state_publish (sample_rt []) ''t'' [1] AtMostOnce False (UniqueID 0) st2 = (Ok (), st3)
    \<and> event_log (snd (snd (send_components (sample_rt []) st3))) = [PublishDone (UniqueID 0)]
    \<and> uid_static (fst (snd (send_components (sample_rt []) st3))) = uid_static (fst st2)"
  if st2: "st2 = ((fst connected_client)\<lparr>uid_static := p, event_subscribers := k\<rparr>, snd connected_client)"
proof -
  let ?m = "\<lparr>dup = False, qospid = QP_AtMostOnce, retain = False, topic_name = ''t'', payload = [1 :: byte]\<rparr>"
  let ?o = "publish.extend ?m \<lparr>op_unique_id = UniqueID 0\<rparr>"
  have "fits sample_sizes ?m" by (simp add: fits_def sample_sizes_def)
  then have p: "publishes_publish sample_sizes ?m (UniqueID 0) new_publishes = (Ok (), new_publishes\<lparr>send_publish := [?o]\<rparr>)"
    using publishes_publish_eq [of new_publishes sample_sizes ?m "UniqueID 0"] by (simp add: new_publishes_def sample_sizes_def)
  have b: "borrow ?o = Publish ?m" "op_unique_id ?o = UniqueID 0" "qospid ?o = QP_AtMostOnce"
    by (simp_all add: borrow_def publish.defs)
  obtain c where c: "trait_try_write_packet sample_codec (Publish ?m) (sample_tcp [] []) = (Ok True, c)"
    using trait_write_fresh [of "Publish ?m" "[0x30, 1, 1]" "[]"] by (auto simp: sample_bytes_def)
  let ?w = "sample_world (sample_tcp [] [], 0 :: nat)"
  have s: "publishes_send_packets (rt_ops (sample_rt [])) sample_sizes (new_publishes\<lparr>send_publish := [?o]\<rparr>, ?w)
    = (Ok SentAll, new_publishes, ?w\<lparr>env := (c, 3), event_log := [PublishDone (UniqueID 0)]\<rparr>)"
    using b c
    by (simp add: publishes_send_packets_def send_pending_pubrel.simps send_pending_publishes.simps [of _ _ 0]
      resend_publishes_def resend_pubrel_def resend_await_publish_def has_space_def file_published_def publish_event_def
      try_write_def read_clock_def rt_ops_def sample_rt_simps tcp_ops_def tick_def new_publishes_def sample_world_def)
  let ?v = "\<lambda>k. \<lparr>pid_static = new_pid_pool, event_log = [PublishDone (UniqueID 0)], received_log = [], env = (c, k :: nat)\<rparr>"
  have rest: "receives_send_packets (rt_ops (sample_rt [])) sample_sizes (new_receives, ?v 3) = (Ok SentAll, new_receives, ?v 3)"
    "subs_send (rt_ops (sample_rt [])) sample_codec sample_sizes (new_subs, ?v 3) = (Ok SentAll, new_subs, ?v 4)"
    "ping_send (rt_ops (sample_rt [])) (PingSuccess 0, ?v 4) = (Ok SentAll, PingSuccess 0, ?v 5)"
    by (simp_all add: receives_send_packets_def send_pubacks.simps send_pubrecs.simps send_pubcomps.simps new_receives_def
        subs_send_def send_requests.simps resend_requests_def ping_send_def read_clock_def rt_ops_def
        sample_rt_simps tcp_ops_def tick_def new_subs_def ping_durations)
  let ?st3 = "((fst st2)\<lparr>publishes := new_publishes\<lparr>send_publish := [?o]\<rparr>,
    on_requst_added := notify_new_request single_registry (on_requst_added (fst st2))\<rparr>, snd st2)"
  have "state_publish (sample_rt []) ''t'' [1] AtMostOnce False (UniqueID 0) st2 = (Ok (), ?st3)"
    using p by (simp add: st2 connected_client_def state_publish_def take_qospid_def in_publishes_def sample_rt_simps
        sample_client_simps update_request_def)
  moreover have "\<exists>w'. send_components (sample_rt []) ?st3 = (Ok SentAll, (fst ?st3)\<lparr>publishes := new_publishes\<rparr>, w')
      \<and> event_log w' = [PublishDone (UniqueID 0)]"
    using s rest
    by (simp add: send_components_def in_publishes_def in_receives_def in_subscribes_def in_ping_def st2 connected_client_def
        sample_rt_simps sample_client_simps sample_world_def)
  ultimately show ?thesis by (auto simp: st2)
qed

theorem publish_returns_when_done_witness:
  "\<exists>st'. client_publish (sample_rt []) ''t'' [1] AtMostOnce False (\<lambda>st. snd (send_components (sample_rt []) st)) connected_client
      = (Ok (), st') \<and> UniqueID 0 \<in> set (uids_free (uid_static (fst st')))"
proof -
  let ?m = "\<lambda>st. snd (send_components (sample_rt []) st)"
  let ?st2 = "((fst connected_client)\<lparr>uid_static := \<lparr>next_unused = 1, uid_pool = []\<rparr>, event_subscribers := 1\<rparr>, snd connected_client)"
  have u: "uid_static (fst connected_client) = new_unique_id_pool" "event_subscribers (fst connected_client) = 0"
    "event_log (snd connected_client) = []"
    by (simp_all add: connected_client_def sample_client_def new_state_def new_ping_def sample_world_def split: prod.splits)
  obtain st3 where st3: "state_publish (sample_rt []) ''t'' [1] AtMostOnce False (UniqueID 0) ?st2 = (Ok (), st3)"
    "event_log (snd (?m st3)) = [PublishDone (UniqueID 0)]" "uid_static (fst (?m st3)) = uid_static (fst ?st2)"
    using sample_publish_accepted [of ?st2 1 "\<lparr>next_unused = 1, uid_pool = []\<rparr>"] by auto
  have n: "new_unique_id connected_client = (Ok (UniqueID 0), (fst connected_client)\<lparr>uid_static := \<lparr>next_unused = 1, uid_pool = []\<rparr>\<rparr>,
      snd connected_client)" "uid_next (uid_static (fst connected_client)) = (Ok (UniqueID 0), \<lparr>next_unused = 1, uid_pool = []\<rparr>)"
    using u by (simp_all add: new_unique_id_def uid_next_def uid_take_def new_unique_id_pool_def)
  obtain st' where r: "client_publish (sample_rt []) ''t'' [1] AtMostOnce False ?m connected_client = (Ok (), st')"
    using n st3 u
    by (simp add: client_publish_def client_call_def subscribe_events_def MAX_EVENT_SUBSCRIBERS_def call_and_wait_def
        free_unique_id_def drop_subscriber_def UNIQUE_ID_POOL_SIZE_def vec_push_def Let_def)
  from publish_returns_when_done [OF r] r n(2) show ?thesis by auto
qed

text \<open>A client call that cannot make its request leaks its unique id: when all 16 subscriber
  slots of the event channel are taken, the call returns an error after it took the id, and the
  id is not handed back.\<close>

lemma failed_call_leaks_unique_id:
  assumes "uid_next (uid_static (fst st)) = (Ok uid, p)" and "event_subscribers (fst st) = 16"
  shows "client_publish rt topic bytes q retained meanwhile st = (Err (PubsubError 0), (fst st)\<lparr>uid_static := p\<rparr>, snd st)"
  using assms
  by (simp add: client_publish_def client_call_def new_unique_id_def subscribe_events_def MAX_EVENT_SUBSCRIBERS_def)

end
