(* ===== verification/Tcp_Reading.thy ===== *)
theory Tcp_Reading
  imports Tcp_Properties
begin

text \<open>
  Reading packets (\<open>read_packet\<close> of \<open>src/src/state/connection/mod.rs\<close>): the packets that the broker
  wrote one after the other into the stream are read back one by one, however the network cuts the
  stream into pieces.  \<open>run_io\<close>, on the other hand, waits for the network first.
\<close>

section \<open>What codec and network have to provide\<close>

text \<open>\<open>decodes_as cd p bs\<close>: the decoder recognises \<open>bs\<close> at the front of its input as the packet \<open>p\<close>
  and asks for more bytes as long as it has only a part of them.\<close>

definition decodes_as :: "codec \<Rightarrow> packet \<Rightarrow> byte list \<Rightarrow> bool" where
  "decodes_as cd p bs \<longleftrightarrow>
     (\<forall>rest. decode_slice_with_len cd (bs @ rest) = Inr (Some (length bs, p)))
     \<and> (\<forall>k < length bs. decode_slice_with_len cd (take k bs) = Inr None)"

text \<open>Bytes that have arrived can be read.\<close>

definition delivers :: "'n network_ops \<Rightarrow> ('n \<Rightarrow> byte list) \<Rightarrow> bool" where
  "delivers net incoming \<longleftrightarrow> (\<forall>len n. 0 < len \<longrightarrow> incoming n \<noteq> [] \<longrightarrow>
     (\<exists>bs n'. bs \<noteq> [] \<and> nw_read net len n = (Some (Inr bs), n')))"

definition read_ready :: "'n tcp \<Rightarrow> bool" where
  "read_ready c \<longleftrightarrow> wf_tcp c \<and> connection c \<and> borrows (recv_buffer c) = 0"

text \<open>Reading \<open>n\<close> packets and dropping each.\<close>

primrec read_packets :: "codec \<Rightarrow> 'n network_ops \<Rightarrow> nat \<Rightarrow> 'n tcp \<Rightarrow> packet list outcome \<times> 'n tcp" where
  "read_packets cd net 0 c = (Ok [], c)"
| "read_packets cd net (Suc n) c =
     and_then (read_packet cd net c) (\<lambda>m c.
     and_then (drop_packet m c) (\<lambda>_ c.
     and_then (read_packets cd net n c) (\<lambda>ps c. (Ok (snd m # ps), c))))"

lemma room_pos: "wf_buffer b \<Longrightarrow> length (contents b) < capacity b \<Longrightarrow> 0 < room b"
  by (auto simp: room_def wf_buffer_def length_contents capacity_def)

lemma decodes_prefix:
  assumes "decodes_as cd p bs" and "q @ inc = bs @ rest" and "length q < length bs"
  shows "decode_slice_with_len cd q = Inr None \<and> inc \<noteq> []"
proof -
  have "q = take (length q) bs" using arg_cong [OF assms(2), of "take (length q)"] assms(3) by simp
  moreover have "decode_slice_with_len cd (take (length q) bs) = Inr None"
    using assms(1,3) by (simp add: decodes_as_def)
  moreover have "inc \<noteq> []" using arg_cong [OF assms(2), of length] assms(3) by auto
  ultimately show ?thesis by simp
qed

lemma decodes_whole:
  assumes "decodes_as cd p bs" and "q @ inc = bs @ rest" and "length bs \<le> length q"
  shows "decode_slice_with_len cd q = Inr (Some (length bs, p)) \<and> (\<exists>q2. q = bs @ q2 \<and> q2 @ inc = rest)"
proof -
  from assms(2,3) obtain q2 where "q = bs @ q2" "q2 @ inc = rest" by (auto simp: append_eq_append_conv2)
  with assms(1) show ?thesis by (auto simp: decodes_as_def)
qed

context byte_stream begin

lemma read_progress:
  assumes "delivers net incoming" and "wf_tcp c" and "borrows (recv_buffer c) = 0"
    and "length (recv_queue c) < recv_capacity c" and "incoming (network c) \<noteq> []"
  shows "\<exists>k c'. with_recv_buffer (read_writeable net) c = (Ok k, c') \<and> length (recv_queue c) < length (recv_queue c')"
proof -
  let ?b = "cell_buffer (recv_buffer c)"
  from assms(2) have wf: "wf_buffer ?b" by (simp add: wf_tcp_def)
  then obtain sl b1 where b1: "writeable_data ?b = Ok (sl, b1)" "length sl = room ?b" by (auto elim: writeable_data_wf)
  have "0 < length sl" using room_pos [OF wf] assms(4) b1(2) by (simp add: recv_queue_def recv_capacity_def)
  with assms(1,5) obtain bs n' where rd: "bs \<noteq> []" "nw_read net (length sl) (network c) = (Some (Inr bs), n')"
    unfolding delivers_def by blast
  with received [OF rd(2)] prepared_store(1) [OF wf b1(1), of bs] obtain b2 where
    "store bs b1 = Ok b2" "contents b2 = contents ?b @ bs" by auto
  with b1 rd assms(3) show ?thesis
    by (simp add: with_recv_buffer_def cell_borrow_def bufref_drop_def read_writeable_def on_recv_def
        unit_step_def network_result_def recv_queue_def)
qed

lemma read_packet_next:
  assumes "delivers net incoming" and "decodes_as cd p bs" and "length bs \<le> recv_capacity c" and "read_ready c"
    and "recv_queue c @ incoming (network c) = bs @ rest"
  shows "fst (read_packet cd net c) = Ok (length bs, p)"
proof -
  let ?body = "\<lambda>c. and_then (try_read_packet cd c) (\<lambda>r c. case r of Some packet \<Rightarrow> (Ok (Some packet), c)
    | None \<Rightarrow> and_then (with_recv_buffer (read_writeable net) c) (\<lambda>_ c. (Ok None, c)))"
  let ?I = "\<lambda>s. wf_tcp s \<and> borrows (recv_buffer s) = 0 \<and> recv_capacity s = recv_capacity c
    \<and> recv_queue s @ incoming (network s) = bs @ rest"
  have round: "(if length bs \<le> length (recv_queue s) then fst (?body s) = Ok (Some (length bs, p))
      else \<exists>s'. ?body s = (Ok None, s') \<and> ?I s' \<and> length (recv_queue s) < length (recv_queue s'))" if I: "?I s" for s
  proof (cases "length bs \<le> length (recv_queue s)")
    case True
    with decodes_whole [OF assms(2), of "recv_queue s" "incoming (network s)" rest] I
    have "decode_slice_with_len cd (recv_queue s) = Inr (Some (length bs, p))" by blast
    with True I try_read_packet_wf [of s cd] show ?thesis by (simp add: wf_tcp_def)
  next
    case False
    with decodes_prefix [OF assms(2), of "recv_queue s" "incoming (network s)" rest] I
    have d: "decode_slice_with_len cd (recv_queue s) = Inr None" "incoming (network s) \<noteq> []" by auto
    have t: "try_read_packet cd s = (Ok None, s)"
      using d False assms(3) I try_read_packet_wf [of s cd] by (auto simp: wf_tcp_def)
    from read_progress [OF assms(1), of s] I False assms(3) d obtain k s' where
      w: "with_recv_buffer (read_writeable net) s = (Ok k, s')" "length (recv_queue s) < length (recv_queue s')" by auto
    have "safe False True s (with_recv_buffer (read_writeable net) s)" by (rule safe_with_recv [OF safe_read_writeable])
    with w I have "?I s'" by (simp add: safe_def conserves_def)
    with False t w show ?thesis by simp
  qed
  have "fst (run_loop ?body c) = Ok (length bs, p)"
  proof (rule run_loop_terminates [where I = ?I and m = "\<lambda>s. length bs - length (recv_queue s)"
        and Q = "\<lambda>r _. r = Ok (length bs, p)"])
    show "?I c" using assms(4,5) by (simp add: read_ready_def)
  next
    fix s s' assume I: "?I s" and b: "?body s = (Ok None, s')"
    then show "?I s' \<and> length bs - length (recv_queue s') < length bs - length (recv_queue s)"
      using round [OF I] by (auto split: if_splits)
  next
    fix s r s' assume I: "?I s" and b: "?body s = (r, s')" and "r \<noteq> Ok None"
    then show "leave r = Ok (length bs, p)" using round [OF I] by (auto split: if_splits)
  qed
  with assms(4) show ?thesis by (simp add: read_packet_def require_connection_def read_ready_def)
qed

text \<open>The packet read and dropped: the stream goes on behind it.\<close>

lemma read_and_drop:
  assumes "delivers net incoming" and "decodes_as cd p bs" and "length bs \<le> recv_capacity c" and "read_ready c"
    and "recv_queue c @ incoming (network c) = bs @ rest"
  obtains c1 c2 where "read_packet cd net c = (Ok (length bs, p), c1)" "drop_packet (length bs, p) c1 = (Ok (), c2)"
    "recv_queue c2 @ incoming (network c2) = rest" "read_ready c2" "recv_capacity c2 = recv_capacity c"
proof -
  obtain c1 where r: "read_packet cd net c = (Ok (length bs, p), c1)"
    using read_packet_next [OF assms] by (metis prod.collapse)
  from assms(4) have "wf_tcp c" by (simp add: read_ready_def)
  with read_packet_lends [OF r] have l: "conserves 1 c c1" "decode_slice_with_len cd (recv_queue c1) = Inr (Some (length bs, p))"
    by (simp_all add: lends_def)
  have q: "recv_queue c1 @ incoming (network c1) = bs @ rest" using l(1) assms(5) by (simp add: conserves_def)
  have "length bs \<le> length (recv_queue c1)"
  proof (rule ccontr)
    assume "\<not> length bs \<le> length (recv_queue c1)"
    with decodes_prefix [OF assms(2) q] l(2) show False by simp
  qed
  with decodes_whole [OF assms(2) q] obtain q2 where q2: "recv_queue c1 = bs @ q2" "q2 @ incoming (network c1) = rest" by blast
  let ?b = "cell_buffer (recv_buffer c1)"
  have wf: "wf_buffer ?b" using l(1) by (simp add: conserves_def wf_tcp_def)
  have "length bs \<le> length (contents ?b)" using q2(1) by (simp add: recv_queue_def)
  from sb.discard [OF wf this] obtain b where b: "consume (length bs) ?b = Ok b" "wf_buffer b"
    "contents b = drop (length bs) (contents ?b)" "capacity b = capacity ?b" by auto
  let ?c2 = "c1\<lparr>recv_buffer := \<lparr>cell_buffer = b, borrows = 0\<rparr>\<rparr>"
  have d: "drop_packet (length bs, p) c1 = (Ok (), ?c2)"
    using b(1) l(1) assms(4) by (cases "recv_buffer c1")
      (auto simp: drop_packet_def mapped_drop_def consume_def bufref_drop_def conserves_def read_ready_def)
  show ?thesis
  proof (rule that [OF r d])
    show "recv_queue ?c2 @ incoming (network ?c2) = rest" using b(3) q2 by (simp add: recv_queue_def)
    show "read_ready ?c2" using b(2) l(1) assms(4) by (simp add: read_ready_def conserves_def wf_tcp_def same_setup_def)
    show "recv_capacity ?c2 = recv_capacity c" using b(4) l(1) by (simp add: recv_capacity_def conserves_def)
  qed
qed

lemma read_packets_all:
  assumes "delivers net incoming" and "list_all2 (\<lambda>p bs. decodes_as cd p bs \<and> length bs \<le> N) ps bss"
    and "recv_capacity c = N" and "read_ready c" and "recv_queue c @ incoming (network c) = concat bss @ rest"
  shows "\<exists>c'. read_packets cd net (length ps) c = (Ok ps, c') \<and> recv_queue c' @ incoming (network c') = rest"
  using assms(2-5)
proof (induction ps bss arbitrary: c rule: list_all2_induct)
  case Nil
  then show ?case by simp
next
  case (Cons p ps bs bss)
  have d: "decodes_as cd p bs" "length bs \<le> recv_capacity c" using Cons.hyps(1) Cons.prems(1) by auto
  have q: "recv_queue c @ incoming (network c) = bs @ (concat bss @ rest)" using Cons.prems(3) by simp
  obtain c1 c2 where r: "read_packet cd net c = (Ok (length bs, p), c1)"
    "drop_packet (length bs, p) c1 = (Ok (), c2)" "recv_queue c2 @ incoming (network c2) = concat bss @ rest"
    "read_ready c2" "recv_capacity c2 = recv_capacity c"
    by (rule read_and_drop [OF assms(1) d Cons.prems(2) q])
  from Cons.IH [of c2] Cons.prems(1) r show ?case by auto
qed

end

text \<open>C10: the packets that the broker sends are read in order: when the bytes received and still to come
  are the encodings of the packets \<open>ps\<close>, each of which fits the receive buffer, then reading as many
  packets ends and gives exactly \<open>ps\<close>, whatever pieces the network delivers the stream in, and the
  bytes behind them are still there.\<close>

theorem packets_read_in_order:
  assumes "byte_stream net sent incoming" and "delivers net incoming"
    and "list_all2 (\<lambda>p bs. decodes_as cd p bs \<and> length bs \<le> recv_capacity c) ps bss" and "read_ready c"
    and "recv_queue c @ incoming (network c) = concat bss @ rest"
  shows "\<exists>c'. read_packets cd net (length ps) c = (Ok ps, c') \<and> recv_queue c' @ incoming (network c') = rest"
  using byte_stream.read_packets_all [OF assms(1-3) refl assms(4,5)] .

lemma sample_delivers: "delivers sample_net bytes_received"
  by (auto simp: delivers_def sample_net_def test_net_def test_read_def)

lemma sample_decodes: "decodes_as sample_codec Pingresp [0xD0, 0]" "decodes_as sample_codec (Connack False Accepted) [0x20, 2, 0, 0]"
  by (simp_all add: decodes_as_def sample_codec_def sample_decode_def All_less_Suc)

theorem packets_read_in_order_witness:
  "\<exists>c'. read_packets sample_codec sample_net 3 (sample_tcp [] [0xD0, 0, 0x20, 2, 0, 0, 0xD0, 0, 0x99])
      = (Ok [Pingresp, Connack False Accepted, Pingresp], c') \<and> recv_queue c' @ bytes_received (network c') = [0x99]"
proof -
  let ?c = "sample_tcp [] [0xD0, 0, 0x20, 2, 0, 0, 0xD0, 0, 0x99]"
  have c: "read_ready ?c" "recv_capacity ?c = 4" "recv_queue ?c = []"
    "bytes_received (network ?c) = [0xD0, 0, 0x20, 2, 0, 0, 0xD0, 0, 0x99]"
    by (simp_all add: read_ready_def sample_tcp_simps recv_capacity_def recv_queue_def sample_tcp_def new_cell_def new_buffer_def
        capacity_def contents_def wf_tcp_def wf_buffer_def)
  have "\<exists>c'. read_packets sample_codec sample_net (length [Pingresp, Connack False Accepted, Pingresp]) ?c
      = (Ok [Pingresp, Connack False Accepted, Pingresp], c') \<and> recv_queue c' @ bytes_received (network c') = [0x99]"
    by (rule packets_read_in_order [OF sample_stream sample_delivers, where bss = "[[0xD0, 0], [0x20, 2, 0, 0], [0xD0, 0]]"])
      (simp_all add: c sample_decodes)
  then show ?thesis by (simp add: numeral_3_eq_3)
qed

section \<open>Packets that are already in the buffer\<close>

text \<open>C39: \<open>run_io\<close> does not look at the receive buffer before it has read from the network: with a whole
  packet already in the buffer, for instance the second of two that arrived together, and nothing
  to send, it waits as long as the network is silent, and the packet is not handled.\<close>

theorem run_io_leaves_buffered_packet:
  assumes "wf_tcp c" and "connection c" and "idle c" and "watch c = Some Connected" and "send_queue c = []"
    and "decodes_as cd p bs" and "recv_queue c = bs @ rest"
    and "\<forall>len. nw_read net len (network c) = (None, network c)"
  shows "fst (run_io cd net c) = Pending \<and> recv_queue (snd (run_io cd net c)) = recv_queue c
    \<and> fst (read_packet cd net c) = Ok (length bs, p)"
proof -
  from assms(1) have wf: "wf_buffer (cell_buffer (send_buffer c))" "wf_buffer (cell_buffer (recv_buffer c))"
    by (simp_all add: wf_tcp_def)
  have s: "\<not> has_remaining_len (cell_buffer (send_buffer c))"
    using assms(5) wf(1) by (simp add: has_remaining_len_wf send_queue_def)
  obtain b where b: "flip (cell_buffer (recv_buffer c)) = Ok b" "wf_buffer b" "contents b = contents (cell_buffer (recv_buffer c))"
    using wf(2) by (auto elim: flip_wf)
  obtain sl b1 where b1: "writeable_data b = Ok (sl, b1)" "contents b1 = contents b"
    using b(2) by (auto elim: writeable_data_wf)
  let ?body = "\<lambda>c. if has_remaining_len (cell_buffer (send_buffer c)) then
      and_then (write_readable net c) (\<lambda>_ c. and_then (network_result (nw_flush net) c) (\<lambda>_ c.
      and_then (try_read_writeable net c) (\<lambda>n c. if 0 < n then (Ok (Some True), c) else (Ok None, c))))
    else (Ok (Some False), c)"
  have loop: "run_loop ?body d = (Ok False, d)" if "cell_buffer (send_buffer d) = cell_buffer (send_buffer c)" for d
    using run_loop_leave [of ?body d "Ok (Some False)" d] s that by simp
  obtain c1 where c1: "send_receive net c = (Pending, c1)" "recv_queue c1 = recv_queue c"
    using assms(2,3,8) b b1 loop
    by (auto simp: send_receive_def with_send_buffer_def with_recv_buffer_def cell_borrow_def bufref_drop_def idle_def
        on_recv_def unit_step_def require_connection_def read_writeable_def network_result_def recv_queue_def)
  have "run_io cd net c = (Pending, c1)"
    using assms(4) c1(1) run_loop_leave [of "\<lambda>c. and_then (send_receive net c) (\<lambda>_ c. try_read_packet cd c)" c Pending c1]
    by (simp add: run_io_def)
  moreover have "decode_slice_with_len cd (recv_queue c) = Inr (Some (length bs, p))"
    using assms(6,7) by (simp add: decodes_as_def)
  then have t: "try_read_packet cd c = (Ok (Some (length bs, p)), c\<lparr>recv_buffer := (recv_buffer c)\<lparr>borrows := 1\<rparr>\<rparr>)"
    using try_read_packet_wf [OF wf(2)] assms(3) by (simp add: idle_def)
  then have "fst (read_packet cd net c) = Ok (length bs, p)"
    using assms(2) by (simp add: read_packet_def require_connection_def run_loop_leave [where r = "Ok (Some (length bs, p))"])
  ultimately show ?thesis using c1(2) by simp
qed

definition buffered_tcp :: "test_network tcp" where
  "buffered_tcp = (sample_tcp [] [])
     \<lparr>recv_buffer := \<lparr>cell_buffer = \<lparr>data = [0xD0, 0, 0xD0, 0], read_position = 2, write_position = 4\<rparr>, borrows = 0\<rparr>\<rparr>"

theorem run_io_leaves_buffered_packet_witness:
  "fst (run_io sample_codec sample_net buffered_tcp) = Pending
    \<and> fst (read_packet sample_codec sample_net buffered_tcp) = Ok (2, Pingresp)"
proof -
  have c: "wf_tcp buffered_tcp" "connection buffered_tcp" "idle buffered_tcp" "watch buffered_tcp = Some Connected"
    "send_queue buffered_tcp = []" "recv_queue buffered_tcp = [0xD0, 0] @ []" "bytes_received (network buffered_tcp) = []"
    by (simp_all add: buffered_tcp_def sample_tcp_def wf_tcp_def wf_buffer_def idle_def send_queue_def recv_queue_def contents_def
        new_cell_def new_buffer_def)
  from run_io_leaves_buffered_packet [OF c(1-5) sample_decodes(1) c(6), of sample_net] show ?thesis
    by (simp add: sample_net_def test_net_def test_read_def c(7))
qed

end
