(* ===== verification/Tcp_Connecting.thy ===== *)
theory Tcp_Connecting
  imports Tcp_Orderly Tcp_Properties
begin

text \<open>
  What connecting (\<open>connect\<close> and \<open>subscribe_auto_subscribes\<close> of
  \<open>src/src/state/connection/mod.rs\<close>) puts on the wire: the CONNECT packet, and then one SUBSCRIBE
  packet for each group of at most five of the configured topics, in their order.
\<close>

section \<open>Groups of topics\<close>

lemma concat_chunks5 [simp]: "concat (chunks5 xs) = xs"
  by (induction xs rule: chunks5.induct) (auto simp: append_take_drop_id)

lemma chunks5_length: "c \<in> set (chunks5 xs) \<Longrightarrow> c \<noteq> [] \<and> length c \<le> 5"
  by (induction xs rule: chunks5.induct) auto

definition topic_of :: "auto_subscribe \<Rightarrow> subscribe_topic" where
  "topic_of a = (as_topic a, as_qos a)"

definition subscribes_to :: "auto_subscribe list \<Rightarrow> packet \<Rightarrow> bool" where
  "subscribes_to chunk p \<longleftrightarrow> (\<exists>pid. p = Subscribe pid (map topic_of chunk))"

lemma collect_topics:
  "collect_into cap (auto_subscribe_topic ts) as acc = Ok topics \<Longrightarrow> topics = acc @ map topic_of as"
proof (induction as arbitrary: acc)
  case (Cons a as)
  have f: "t = topic_of a" if "auto_subscribe_topic ts a = Ok t" for t
    using that by (auto simp: auto_subscribe_topic_def string_try_from_def topic_of_def split: if_splits)
  from Cons.prems f have "collect_into cap (auto_subscribe_topic ts) as (acc @ [topic_of a]) = Ok topics"
    by (auto simp: obind_Ok_iff split: if_splits)
  from Cons.IH [OF this] show ?case by simp
qed simp

section \<open>The send buffer\<close>

text \<open>Reading leaves the send buffer alone.\<close>

named_theorems unsent_intros \<open>operations that leave the send buffer alone\<close>

definition unsent_kept :: "'n tcp \<Rightarrow> 'a outcome \<times> 'n tcp \<Rightarrow> bool" where
  "unsent_kept c x \<longleftrightarrow> send_buffer (snd x) = send_buffer c"

lemma unsent_return [unsent_intros]: "unsent_kept c (r, c)"
  by (simp add: unsent_kept_def)

lemma unsent_and_then [unsent_intros]:
  assumes "unsent_kept c x" and "\<And>v c1. unsent_kept c1 (f v c1)"
  shows "unsent_kept c (and_then x f)"
  using assms by (cases "(x, f)" rule: and_then.cases) (auto simp: unsent_kept_def)

lemma unsent_run_loop [unsent_intros]:
  assumes "\<And>c. unsent_kept c (body c)"
  shows "unsent_kept c (run_loop body c)"
proof -
  have "send_buffer (snd (run_loop body c)) = send_buffer c"
    by (rule run_loop_rel [where R = "\<lambda>c c'. send_buffer c' = send_buffer c" and Q = "\<lambda>c r c'. send_buffer c' = send_buffer c"])
      (use assms in \<open>auto simp: unsent_kept_def dest: arg_cong [of _ _ snd]\<close>, metis snd_conv, metis snd_conv)
  then show ?thesis by (simp add: unsent_kept_def)
qed

lemma unsent_on_recv [unsent_intros]: "unsent_kept c (on_recv f c)"
  by (auto simp: on_recv_def unsent_kept_def split: and_then_split)

lemma unsent_network [unsent_intros]: "unsent_kept c (network_result f c)"
  by (auto simp: network_result_def unsent_kept_def split: prod.splits option.splits sum.splits)

lemma unsent_with_recv [unsent_intros]:
  assumes "\<And>c. unsent_kept c (f c)"
  shows "unsent_kept c (with_recv_buffer f c)"
proof (cases "cell_borrow (recv_buffer c)")
  case (Ok cell)
  obtain r c1 where f: "f (c\<lparr>recv_buffer := cell\<rparr>) = (r, c1)" by (rule prod.exhaust)
  with assms [of "c\<lparr>recv_buffer := cell\<rparr>"] Ok show ?thesis
    by (cases "bufref_drop (recv_buffer c1)") (simp_all add: with_recv_buffer_def unsent_kept_def)
qed (simp_all add: with_recv_buffer_def unsent_kept_def)

lemma unsent_try_read_packet [unsent_intros]: "unsent_kept c (try_read_packet cd c)"
  by (auto simp: try_read_packet_def unsent_kept_def Let_def split: and_then_split prod.splits sum.splits option.splits)

lemma unsent_option [unsent_intros]:
  "(\<And>v. unsent_kept c (f v)) \<Longrightarrow> unsent_kept c g \<Longrightarrow> unsent_kept c (case x of Some v \<Rightarrow> f v | None \<Rightarrow> g)"
  by (cases x) simp_all

lemma unsent_require [unsent_intros]: "unsent_kept c (require_connection c)"
  by (simp add: require_connection_def unsent_kept_def)

lemma read_packet_send_queue: "read_packet cd net c = (r, c') \<Longrightarrow> send_queue c' = send_queue c"
proof -
  have "unsent_kept c (read_packet cd net c)"
    unfolding read_packet_def read_writeable_def by (intro unsent_intros)
  then show "read_packet cd net c = (r, c') \<Longrightarrow> send_queue c' = send_queue c" by (simp add: unsent_kept_def send_queue_def)
qed

lemma drop_packet_send_queue: "drop_packet m c = (r, c') \<Longrightarrow> send_queue c' = send_queue c"
  by (cases "mapped_drop (fst m) (recv_buffer c)") (auto simp: drop_packet_def send_queue_def)

text \<open>Writing into the send buffer leaves the network alone.\<close>

lemma on_send_network: "network (snd (on_send f c)) = network c"
  by (auto simp: on_send_def split: and_then_split)

lemma write_network:
  fixes c :: "'n tcp"
  assumes "inherent_try_write_packet cd p c = (r, c')"
  shows "network c' = network c"
proof -
  let ?same = "\<lambda>(c :: 'n tcp) (c' :: 'n tcp). network c' = network c"
  have with_send: "?same c (snd (with_send_buffer f c))" if "\<And>c. ?same c (snd (f c))"
    for f :: "'n tcp \<Rightarrow> bool outcome \<times> 'n tcp" and c :: "'n tcp"
  proof (cases "cell_borrow (send_buffer c)")
    case (Ok cell)
    obtain r c1 where f: "f (c\<lparr>send_buffer := cell\<rparr>) = (r, c1)" by (rule prod.exhaust)
    with that [of "c\<lparr>send_buffer := cell\<rparr>"] Ok show ?thesis
      by (cases "bufref_drop (send_buffer c1)") (simp_all add: with_send_buffer_def)
  qed (simp_all add: with_send_buffer_def)
  have "?same c (snd (and_then (on_send (unit_step flip) c) (\<lambda>_ c. and_then (on_send writeable_data c) (\<lambda>buf c.
      case encode_slice cd p (length buf) of
        Inr bytes \<Rightarrow> and_then (on_send (unit_step (store bytes)) c) (\<lambda>_ c. (Ok True, c))
      | Inl WriteZero \<Rightarrow> if is_max_capacity (cell_buffer (send_buffer c)) then (Err BufferTooSmall, c) else (Ok False, c)
      | Inl err \<Rightarrow> (Err (CodecError err), c)))))" for c :: "'n tcp"
  proof (rule and_then_state [where I = "?same c"], rule on_send_network, rule and_then_state [where I = "?same c"])
    fix s :: "'n tcp" and v assume "?same c s"
    then show "?same c (snd (on_send writeable_data s))" by (simp add: on_send_network)
  next
    fix s s1 :: "'n tcp" and v buf assume s: "?same c s1"
    show "?same c (snd (case encode_slice cd p (length buf) of
        Inr bytes \<Rightarrow> and_then (on_send (unit_step (store bytes)) s1) (\<lambda>_ c. (Ok True, c))
      | Inl WriteZero \<Rightarrow> if is_max_capacity (cell_buffer (send_buffer s1)) then (Err BufferTooSmall, s1) else (Ok False, s1)
      | Inl err \<Rightarrow> (Err (CodecError err), s1)))"
    proof (cases "encode_slice cd p (length buf)")
      case (Inr bytes)
      show ?thesis unfolding Inr sum.case
        by (rule and_then_state [where I = "?same c"]) (simp_all add: on_send_network s)
    qed (use s in \<open>auto split: codec_error.split\<close>)
  qed
  from with_send [OF this, of c] assms show ?thesis unfolding inherent_try_write_packet_def by simp
qed

section \<open>Bytes written\<close>

definition writes_whole :: "'n network_ops \<Rightarrow> bool" where
  \<comment> \<open>A write takes all bytes it is offered.\<close>
  "writes_whole net \<longleftrightarrow> (\<forall>bs n k n'. nw_write net bs n = (Some (Inr k), n') \<longrightarrow> k = length bs)"

context byte_stream begin

definition wrote :: "codec \<Rightarrow> 'n tcp \<Rightarrow> packet list \<Rightarrow> 'n tcp \<Rightarrow> bool" where
  \<comment> \<open>between \<open>c\<close> and \<open>c'\<close> exactly the packets \<open>ps\<close> were put behind the bytes sent and to be sent\<close>
  "wrote cd c ps c' \<longleftrightarrow> wf_tcp c' \<and> tcp_config c' = tcp_config c \<and> tcp_last_will c' = tcp_last_will c
     \<and> (\<exists>bs. encodes cd ps bs \<and> sent (network c') @ send_queue c' = sent (network c) @ send_queue c @ bs)"

lemma wrote_trans: "wrote cd c ps c1 \<Longrightarrow> wrote cd c1 qs c2 \<Longrightarrow> wrote cd c (ps @ qs) c2"
  unfolding wrote_def by (elim conjE exE, intro conjI) (auto intro: encodes_append)

lemma wrote_refl: "wf_tcp c \<Longrightarrow> wrote cd c [] c"
  by (auto simp: wrote_def intro: encodes_Nil)

lemma wrote_nothing: "wrote cd c [] c' \<Longrightarrow> sent (network c') @ send_queue c' = sent (network c) @ send_queue c"
  by (auto simp: wrote_def elim: encodes.cases)

lemma wrote_wf: "wrote cd c ps c' \<Longrightarrow> wf_tcp c'"
  by (simp add: wrote_def)

lemma conserves_wrote: "conserves k c c' \<Longrightarrow> wrote cd c [] c'"
  by (auto simp: conserves_def wrote_def same_setup_def intro: encodes_Nil)

lemma safe_wrote: "safe S R c (r, c') \<Longrightarrow> wf_tcp c \<Longrightarrow> wrote cd c [] c'"
  by (auto simp: safe_def intro: conserves_wrote)

lemma set_watch_wrote: "wrote cd (set_watch v c) ps c' = wrote cd c ps c'" "wrote cd c ps (set_watch v c') = wrote cd c ps c'"
  by (simp_all add: wrote_def set_watch_def wf_tcp_def send_queue_def)

lemma write_into:
  assumes "borrows (send_buffer c) = 0" and "wf_tcp c"
  shows "\<exists>n b1. wf_buffer b1 \<and> contents b1 = send_queue c \<and> inherent_try_write_packet cd p c =
    (case encode_slice cd p n of
      Inr bytes \<Rightarrow> (case store bytes b1 of
        Ok b2 \<Rightarrow> (Ok True, c\<lparr>send_buffer := \<lparr>cell_buffer = b2, borrows = 0\<rparr>\<rparr>)
      | r \<Rightarrow> (obind r (\<lambda>_. Ok True), c\<lparr>send_buffer := \<lparr>cell_buffer = b1, borrows = 0\<rparr>\<rparr>))
    | Inl WriteZero \<Rightarrow> (if is_max_capacity b1 then Err BufferTooSmall else Ok False,
        c\<lparr>send_buffer := \<lparr>cell_buffer = b1, borrows = 0\<rparr>\<rparr>)
    | Inl err \<Rightarrow> (Err (CodecError err), c\<lparr>send_buffer := \<lparr>cell_buffer = b1, borrows = 0\<rparr>\<rparr>))
    \<and> (\<forall>bs. length bs \<le> n \<longrightarrow> (\<exists>b2. store bs b1 = Ok b2 \<and> wf_buffer b2 \<and> contents b2 = send_queue c @ bs))
    \<and> (\<forall>bs. n < length bs \<longrightarrow> store bs b1 = Panic)"
proof -
  obtain b where b: "send_buffer c = \<lparr>cell_buffer = b, borrows = 0\<rparr>" using assms(1) by (cases "send_buffer c") auto
  with assms(2) have "wf_buffer b" by (simp add: wf_tcp_def)
  then obtain b0 where b0: "flip b = Ok b0" "wf_buffer b0" "contents b0 = contents b" by (auto elim: flip_wf)
  from b0(2) obtain sl b1 where b1: "writeable_data b0 = Ok (sl, b1)" "wf_buffer b1" "contents b1 = contents b0"
    by (auto elim: writeable_data_wf)
  have q: "send_queue c = contents b" by (simp add: send_queue_def b)
  have s1: "\<forall>bs. length bs \<le> length sl \<longrightarrow> (\<exists>b2. store bs b1 = Ok b2 \<and> wf_buffer b2 \<and> contents b2 = send_queue c @ bs)"
    using prepared_store(1) [OF b0(2) b1(1)] q b0(3) by auto
  have s2: "\<forall>bs. length sl < length bs \<longrightarrow> store bs b1 = Panic"
    using prepared_store(2) [OF b0(2) b1(1)] by simp
  have eq: "inherent_try_write_packet cd p c =
    (case encode_slice cd p (length sl) of
      Inr bytes \<Rightarrow> (case store bytes b1 of
        Ok b2 \<Rightarrow> (Ok True, c\<lparr>send_buffer := \<lparr>cell_buffer = b2, borrows = 0\<rparr>\<rparr>)
      | r \<Rightarrow> (obind r (\<lambda>_. Ok True), c\<lparr>send_buffer := \<lparr>cell_buffer = b1, borrows = 0\<rparr>\<rparr>))
    | Inl WriteZero \<Rightarrow> (if is_max_capacity b1 then Err BufferTooSmall else Ok False,
        c\<lparr>send_buffer := \<lparr>cell_buffer = b1, borrows = 0\<rparr>\<rparr>)
    | Inl err \<Rightarrow> (Err (CodecError err), c\<lparr>send_buffer := \<lparr>cell_buffer = b1, borrows = 0\<rparr>\<rparr>))"
    by (simp add: inherent_try_write_packet_def with_send_buffer_def cell_borrow_def bufref_drop_def b b0(1) b1(1)
        on_send_def unit_step_def split: sum.split codec_error.split outcome.split)
  show ?thesis
    by (rule exI [of _ "length sl"], rule exI [of _ b1]) (use s1 s2 eq b1 b0(3) q in simp)
qed

lemma write_wrote:
  assumes "inherent_try_write_packet cd p c = (Ok b, c')" and "wf_tcp c"
  shows "wrote cd c (if b then [p] else []) c'"
proof (cases "borrows (send_buffer c) = 0")
  case False
  with assms(1) show ?thesis by (simp add: inherent_try_write_packet_def with_send_buffer_def cell_borrow_def)
next
  case True
  obtain n b1 where b1: "wf_buffer b1" "contents b1 = send_queue c"
    and eq: "inherent_try_write_packet cd p c =
    (case encode_slice cd p n of
      Inr bytes \<Rightarrow> (case store bytes b1 of
        Ok b2 \<Rightarrow> (Ok True, c\<lparr>send_buffer := \<lparr>cell_buffer = b2, borrows = 0\<rparr>\<rparr>)
      | r \<Rightarrow> (obind r (\<lambda>_. Ok True), c\<lparr>send_buffer := \<lparr>cell_buffer = b1, borrows = 0\<rparr>\<rparr>))
    | Inl WriteZero \<Rightarrow> (if is_max_capacity b1 then Err BufferTooSmall else Ok False,
        c\<lparr>send_buffer := \<lparr>cell_buffer = b1, borrows = 0\<rparr>\<rparr>)
    | Inl err \<Rightarrow> (Err (CodecError err), c\<lparr>send_buffer := \<lparr>cell_buffer = b1, borrows = 0\<rparr>\<rparr>))"
    and s: "\<forall>bs. length bs \<le> n \<longrightarrow> (\<exists>b2. store bs b1 = Ok b2 \<and> wf_buffer b2 \<and> contents b2 = send_queue c @ bs)"
      "\<forall>bs. n < length bs \<longrightarrow> store bs b1 = Panic"
    using write_into [OF True assms(2), of cd p] by (elim exE conjE)
  have q: "send_queue (c\<lparr>send_buffer := \<lparr>cell_buffer = b', borrows = 0\<rparr>\<rparr>) = contents b'" for b'
    by (simp add: send_queue_def)
  show ?thesis
  proof (cases "encode_slice cd p n")
    case (Inl e)
    with assms(1) have "\<not> b \<and> c' = c\<lparr>send_buffer := \<lparr>cell_buffer = b1, borrows = 0\<rparr>\<rparr>"
      unfolding eq by (cases e) (auto split: if_splits)
    with b1 assms(2) q [of b1] encodes_Nil show ?thesis by (auto simp: wrote_def wf_tcp_def)
  next
    case (Inr bs)
    show ?thesis
    proof (cases "length bs \<le> n")
      case True
      with s(1) obtain b2 where b2: "store bs b1 = Ok b2" "wf_buffer b2" "contents b2 = send_queue c @ bs" by blast
      with assms(1) Inr have "b \<and> c' = c\<lparr>send_buffer := \<lparr>cell_buffer = b2, borrows = 0\<rparr>\<rparr>" unfolding eq by simp
      with b2(2,3) assms(2) q [of b2] encodes_one [OF Inr] show ?thesis by (auto simp: wrote_def wf_tcp_def)
    next
      case False
      with s(2) Inr assms(1) show ?thesis unfolding eq by simp
    qed
  qed
qed

lemma write_async_wrote:
  assumes "write_packet_async cd net p c = (Ok u, c')" and "wf_tcp c"
  shows "wrote cd c [p] c'"
proof -
  let ?body = "\<lambda>c. and_then (inherent_try_write_packet cd p c) (\<lambda>sent c.
    if sent then (Ok (Some ()), c) else and_then (tcp_send net c) (\<lambda>_ c. (Ok None, c)))"
  from assms(1) have "loop_result ?body c = Some (Ok u, c')"
    by (auto simp: write_packet_async_def run_loop_def split: option.splits)
  then have "Ok u = Ok () \<longrightarrow> wrote cd c [p] c'"
  proof (rule loop_result_partial [where I = "wrote cd c []" and Q = "\<lambda>r s'. r = Ok () \<longrightarrow> wrote cd c [p] s'"])
    show "wrote cd c [] c" using assms(2) by (rule wrote_refl)
  next
    fix s s' assume w: "wrote cd c [] s" and b: "?body s = (Ok None, s')"
    then obtain s1 u where x: "inherent_try_write_packet cd p s = (Ok False, s1)" "tcp_send net s1 = (Ok u, s')"
      by (auto simp: and_then_Ok split: if_splits)
    from write_wrote [OF x(1) wrote_wf [OF w]] have "wrote cd s [] s1" by simp
    with w wrote_trans [of cd c "[]" s "[]" s1] have 1: "wrote cd c [] s1" by simp
    from safe_wrote [of True False s1 "Ok u" s' cd] safe_tcp_send [of False s1] x(2) wrote_wf [OF 1]
    have "wrote cd s1 [] s'" by simp
    with 1 wrote_trans [of cd c "[]" s1 "[]" s'] show "wrote cd c [] s'" by simp
  next
    fix s r s' assume w: "wrote cd c [] s" and b: "?body s = (r, s')" and "r \<noteq> Ok None"
    show "leave r = Ok () \<longrightarrow> wrote cd c [p] s'"
    proof
      assume "leave r = Ok ()"
      then have "r = Ok (Some ())" by (cases r rule: leave.cases) auto
      with b have "inherent_try_write_packet cd p s = (Ok True, s')" by (auto simp: and_then_Ok split: if_splits)
      from write_wrote [OF this wrote_wf [OF w]] w wrote_trans [of cd c "[]" s "[p]" s'] show "wrote cd c [p] s'" by simp
    qed
  qed
  then show ?thesis by simp
qed

lemma read_wrote:
  assumes "read_packet cd net c = (Ok m, c')" and "wf_tcp c"
  shows "wrote cd c [] c'"
  using read_packet_lends [OF assms(1)] assms(2) by (auto simp: lends_def intro: conserves_wrote)

lemma drop_wrote:
  assumes "drop_packet m c = (Ok u, c')" and "wf_tcp c"
  shows "wrote cd c [] c'"
  using assms
  by (auto simp: drop_packet_def mapped_drop_def add_bytes_read_def bufref_drop_def wrote_def wf_tcp_def wf_buffer_def
      send_queue_def and_then_Ok obind_Ok_iff intro: encodes_Nil split: if_splits)

section \<open>Bytes sent\<close>

text \<open>\<open>send_all\<close> empties the send buffer.  \<open>send\<close> writes once: some bytes of a packet go out, and all
  of them when the network takes what it is offered.\<close>

lemma send_all_empties:
  assumes "send_all net c = (Ok u, c')" and "wf_tcp c"
  shows "send_queue c' = []"
proof -
  have "connection c" using assms(1) by (auto simp: send_all_def require_connection_def split: if_splits)
  moreover have "borrows (send_buffer c) = 0"
    using assms(1) by (auto simp: send_all_def send_all_intern_def with_send_buffer_def cell_borrow_def and_then_Ok require_connection_def
        split: if_splits)
  ultimately show ?thesis using send_all_exact [OF byte_stream_axioms assms(2) _ _ assms(1)] by (cases u) simp
qed

lemma send_progress:
  assumes "tcp_send net c = (Ok u, c')" and "wf_tcp c" and "send_queue c \<noteq> []"
  shows "length (send_queue c') < length (send_queue c) \<and> (writes_whole net \<longrightarrow> send_queue c' = [])"
proof -
  let ?c = "c\<lparr>send_buffer := (send_buffer c)\<lparr>borrows := 1\<rparr>\<rparr>"
  have wf: "wf_buffer (cell_buffer (send_buffer c))" using assms(2) by (simp add: wf_tcp_def)
  have b: "borrows (send_buffer c) = 0"
    using assms(1) by (auto simp: tcp_send_def with_send_buffer_def cell_borrow_def and_then_Ok split: if_splits)
  have q: "has_remaining_len (cell_buffer (send_buffer c))" using assms(3) wf by (simp add: send_queue_def has_remaining_len_wf)
  from assms(1) b q obtain k c1 c2 where x: "write_readable net ?c = (Ok k, c1)" "network_result (nw_flush net) c1 = (Ok (), c2)"
    "send_queue c' = send_queue c2"
    by (auto simp: tcp_send_def with_send_buffer_def cell_borrow_def bufref_drop_def and_then_Ok require_connection_def send_queue_def
        split: if_splits prod.splits)
  have c: "wf_tcp ?c" "send_queue ?c = send_queue c" using assms(2) by (simp_all add: wf_tcp_def send_queue_def)
  have "length (send_queue c1) < length (send_queue c)"
    using write_readable_progress [OF byte_stream_axioms c(1) _ x(1)] c(2) assms(3) by simp
  moreover have "send_queue c1 = []" if "writes_whole net"
  proof -
    let ?q = "contents (cell_buffer (send_buffer c))"
    obtain y n where y: "nw_write net ?q (network c) = (y, n)" by (rule prod.exhaust)
    with x(1) wf obtain k' where k: "y = Some (Inr k')"
      by (auto simp: write_readable_def on_send_def look_def reaable_data_wf network_result_def split: option.splits sum.splits)
    with that y have "k' = length ?q" by (auto simp: writes_whole_def)
    moreover from sb.discard [OF wf, of k'] calculation obtain b' where "consume k' (cell_buffer (send_buffer c)) = Ok b'"
      "contents b' = []" by auto
    ultimately show ?thesis using x(1) y k wf
      by (auto simp: write_readable_def on_send_def look_def unit_step_def reaable_data_wf network_result_def send_queue_def)
  qed
  ultimately show ?thesis using flush_outcome [OF x(2)] x(3) by simp
qed

section \<open>The steps of connecting\<close>

lemma subscribe_chunk_wrote:
  assumes "subscribe_chunk cd net chunk (c, q) = (Ok (), c', q')" and "wf_tcp c"
  shows "(\<exists>p. subscribes_to chunk p \<and> wrote cd c [p] c') \<and> send_queue c' = []"
proof -
  obtain r q1 where p: "next_pid q = (r, q1)" by (rule prod.exhaust)
  with assms(1) obtain pid where r: "r = Ok pid" by (cases r) (simp_all add: subscribe_chunk_def take_pid_def)
  with p assms(1) obtain topics where t: "collect_into (topics_size cd) (auto_subscribe_topic (topic_path_size cd)) chunk [] = Ok topics"
    by (cases "collect_into (topics_size cd) (auto_subscribe_topic (topic_path_size cd)) chunk []")
      (simp_all add: subscribe_chunk_def take_pid_def)
  obtain r1 c1 where x1: "write_packet_async cd net (Subscribe pid topics) c = (r1, c1)" by (rule prod.exhaust)
  obtain r2 c2 where x2: "send_all net c1 = (r2, c2)" by (rule prod.exhaust)
  obtain r3 c3 where x3: "read_packet cd net c2 = (r3, c3)" by (rule prod.exhaust)
  have r1: "r1 = Ok ()" using assms(1) p r t x1 by (cases r1) (simp_all add: subscribe_chunk_def take_pid_def on_tcp_def)
  have r2: "r2 = Ok ()" using assms(1) p r t x1 r1 x2
    by (cases r2) (simp_all add: subscribe_chunk_def take_pid_def on_tcp_def)
  obtain m where r3: "r3 = Ok m" using assms(1) p r t x1 r1 x2 r2 x3
    by (cases r3) (simp_all add: subscribe_chunk_def take_pid_def on_tcp_def)
  obtain r4 c4 where x4: "drop_packet m c3 = (r4, c4)" by (rule prod.exhaust)
  have "r4 = Ok () \<and> c4 = c'" using assms(1) p r t x1 r1 x2 r2 x3 r3 x4
    by (cases r4) (simp_all add: subscribe_chunk_def take_pid_def on_tcp_def Let_def)
  with x1 x2 x3 x4 r1 r2 r3 t have x: "next_pid q = (Ok pid, q1)"
    "collect_into (topics_size cd) (auto_subscribe_topic (topic_path_size cd)) chunk [] = Ok topics"
    "write_packet_async cd net (Subscribe pid topics) c = (Ok (), c1)" "send_all net c1 = (Ok (), c2)"
    "read_packet cd net c2 = (Ok m, c3)" "drop_packet m c3 = (Ok (), c')"
    using p r by simp_all
  from write_async_wrote [OF x(3) assms(2)] have 1: "wrote cd c [Subscribe pid topics] c1" .
  from safe_wrote [of True False c1 "Ok ()" c2 cd] safe_send_all [of False c1] x(4) wrote_wf [OF 1]
  have 2: "wrote cd c1 [] c2" by simp
  from read_wrote [OF x(5) wrote_wf [OF 2]] have 3: "wrote cd c2 [] c3" .
  from drop_wrote [OF x(6) wrote_wf [OF 3]] have 4: "wrote cd c3 [] c'" .
  have "send_queue c' = []"
    using send_all_empties [OF x(4) wrote_wf [OF 1]] read_packet_send_queue [OF x(5)] drop_packet_send_queue [OF x(6)] by simp
  with wrote_trans [OF wrote_trans [OF wrote_trans [OF 1 2] 3] 4] collect_topics [OF x(2)]
  show ?thesis by (auto simp: subscribes_to_def)
qed

lemma subscribe_chunks_wrote:
  assumes "subscribe_chunks cd net cs (c, q) = (Ok (), c', q')" and "wf_tcp c"
  shows "\<exists>ps. list_all2 subscribes_to cs ps \<and> wrote cd c ps c' \<and> send_queue c' = (if cs = [] then send_queue c else [])"
  using assms
proof (induction cs arbitrary: c q)
  case Nil
  then show ?case by (auto intro: wrote_refl)
next
  case (Cons chunk cs)
  from Cons.prems(1) obtain c1 q1 where x: "subscribe_chunk cd net chunk (c, q) = (Ok (), c1, q1)"
    "subscribe_chunks cd net cs (c1, q1) = (Ok (), c', q')" by (auto simp: and_then_Ok)
  from subscribe_chunk_wrote [OF x(1) Cons.prems(2)] obtain p where
    p: "subscribes_to chunk p" "wrote cd c [p] c1" "send_queue c1 = []" by blast
  from Cons.IH [OF x(2) wrote_wf [OF p(2)]] obtain ps where "list_all2 subscribes_to cs ps" "wrote cd c1 ps c'"
    "send_queue c' = []" using p(3) by auto
  with p wrote_trans [OF p(2)] show ?case by (intro exI [of _ "p # ps"]) fastforce
qed

lemma send_connect_wrote:
  assumes "send_connect cd net c = (Ok code, c')" and "wf_tcp c"
  shows "wrote cd c [connect_packet_of c] c' \<and> (send_queue c' \<noteq> [] \<longrightarrow>
    length (sent (network c)) < length (sent (network c')) \<and> \<not> writes_whole net)"
proof -
  from assms(1) obtain c1 c2 m c3 where x: "inherent_try_write_packet cd (connect_packet_of c) c = (Ok True, c1)"
    "tcp_send net c1 = (Ok (), c2)" "read_packet cd net (set_watch ConnectSent c2) = (Ok m, c3)" "drop_packet m c3 = (Ok (), c')"
    by (auto simp: send_connect_def and_then_Ok Let_def split: if_splits)
  from write_wrote [OF x(1) assms(2)] have 1: "wrote cd c [connect_packet_of c] c1" by simp
  from safe_wrote [of True False c1 "Ok ()" c2 cd] safe_tcp_send [of False c1] x(2) wrote_wf [OF 1]
  have 2: "wrote cd c1 [] c2" by simp
  have "wf_tcp (set_watch ConnectSent c2)" using wrote_wf [OF 2] by (simp add: set_watch_def wf_tcp_def)
  from read_wrote [OF x(3) this] have 3: "wrote cd c2 [] c3" by (simp add: set_watch_wrote)
  from drop_wrote [OF x(4) wrote_wf [OF 3]] have 4: "wrote cd c3 [] c'" .
  have q: "send_queue c' = send_queue c2"
    using read_packet_send_queue [OF x(3)] drop_packet_send_queue [OF x(4)] by (simp add: set_watch_def send_queue_def)
  have "length (send_queue c2) < length (send_queue c1) \<and> \<not> writes_whole net" if "send_queue c2 \<noteq> []"
  proof (cases "send_queue c1 = []")
    case True
    with wrote_wf [OF 1] x(2) have "send_queue c2 = []"
      by (auto simp: tcp_send_def with_send_buffer_def cell_borrow_def bufref_drop_def send_queue_def has_remaining_len_wf wf_tcp_def
          split: if_splits)
    with that show ?thesis by simp
  next
    case False
    with send_progress [OF x(2) wrote_wf [OF 1]] that show ?thesis by blast
  qed
  moreover have "length (sent (network c')) + length (send_queue c') = length (sent (network c)) + length (send_queue c1)"
    using arg_cong [OF wrote_nothing [of cd c1 c'], of length] wrote_trans [OF wrote_trans [OF 2 3] 4]
      write_network [OF x(1)] by simp
  ultimately have "length (sent (network c)) < length (sent (network c')) \<and> \<not> writes_whole net" if "send_queue c' \<noteq> []"
    using that q by force
  with wrote_trans [OF wrote_trans [OF wrote_trans [OF 1 2] 3] 4] show ?thesis by simp
qed

lemma reset_emptied:
  assumes "reset_buffers c = (Ok u, c')" and "wf_tcp c"
  shows "wf_tcp c' \<and> send_queue c' = [] \<and> network c' = network c \<and> tcp_config c' = tcp_config c
    \<and> tcp_last_will c' = tcp_last_will c"
  using assms
  by (cases "borrows (recv_buffer c) = 0"; cases "borrows (send_buffer c) = 0")
    (auto simp: reset_buffers_def with_send_buffer_def with_recv_buffer_def cell_borrow_def bufref_drop_def on_send_def
      on_recv_def unit_step_def wf_tcp_def wf_buffer_def buffer_reset_def send_queue_def contents_def)

lemma open_silent:
  assumes "open_connection net c = (Ok u, c')" and "wf_tcp c"
    and "\<And>a n r n'. nw_connect net a n = (r, n') \<Longrightarrow> sent n' = sent n"
  shows "wrote cd c [] c' \<and> sent (network c') = sent (network c)"
proof -
  let ?port = "case config_port (tcp_config c) of Some p \<Rightarrow> p | None \<Rightarrow> MQTT_DEFAULT_PORT"
  from assms(1) obtain ip where ip: "resolve (nw_resolve net) (config_host (tcp_config c)) = Ok ip"
    by (cases "resolve (nw_resolve net) (config_host (tcp_config c))") (simp_all add: open_connection_def)
  obtain r n where n: "nw_connect net (ip, ?port) (network c) = (r, n)" by (rule prod.exhaust)
  from assms(3) [OF n] assms(1,2) ip n show ?thesis
    by (auto simp: open_connection_def network_result_def wrote_def wf_tcp_def send_queue_def intro: encodes_Nil
        split: option.splits sum.splits)
qed

lemma connect_wrote:
  assumes "tcp_connect cd net (c, q) = (Ok (), c', q')" and "wf_tcp c"
    and silent: "\<And>a n r n'. nw_connect net a n = (r, n') \<Longrightarrow> sent n' = sent n"
  shows "\<exists>subs bs. list_all2 subscribes_to (chunks5 (config_auto_subscribes (tcp_config c))) subs
    \<and> encodes cd (connect_packet_of c # subs) bs \<and> sent (network c') @ send_queue c' = sent (network c) @ bs
    \<and> (send_queue c' \<noteq> [] \<longrightarrow> config_auto_subscribes (tcp_config c) = []
        \<and> length (sent (network c)) < length (sent (network c')) \<and> \<not> writes_whole net)"
proof -
  obtain r1 c1 where x1: "reset_buffers c = (r1, c1)" by (rule prod.exhaust)
  obtain r2 c2 where x2: "open_connection net c1 = (r2, c2)" by (rule prod.exhaust)
  obtain r3 c3 where x3: "send_connect cd net c2 = (r3, c3)" by (rule prod.exhaust)
  from assms(1) x1 have r1: "r1 = Ok ()" by (cases r1) (simp_all add: tcp_connect_def on_tcp_def split: if_splits)
  from assms(1) x1 r1 x2 have r2: "r2 = Ok ()"
    by (cases r2) (simp_all add: tcp_connect_def on_tcp_def split: if_splits)
  from assms(1) x1 r1 x2 r2 x3 obtain code where r3: "r3 = Ok code"
    by (cases r3) (simp_all add: tcp_connect_def on_tcp_def split: if_splits)
  with assms(1) x1 r1 x2 r2 x3 have pc: "process_connack cd net code (c3, q) = (Ok (), c', q')"
    by (simp add: tcp_connect_def on_tcp_def split: if_splits)
  obtain r4 c4 q4 where x4: "subscribe_auto_subscribes cd net (c3, q) = (r4, c4, q4)" by (rule prod_cases3)
  with pc have r4: "r4 = Ok ()" "c' = set_watch Connected c4"
    by (cases code; cases r4; simp add: process_connack_def)+
  note e = reset_emptied [OF x1 [unfolded r1] assms(2)]
  then have "wf_tcp c1" by simp
  from open_silent [OF x2 [unfolded r2] this silent] have 1: "wrote cd c1 [] c2" "sent (network c2) = sent (network c)"
    using e by simp_all
  from send_connect_wrote [OF x3 [unfolded r3] wrote_wf [OF 1(1)]] have 2: "wrote cd c2 [connect_packet_of c2] c3"
    and part: "send_queue c3 \<noteq> [] \<longrightarrow> length (sent (network c2)) < length (sent (network c3)) \<and> \<not> writes_whole net" by blast+
  have cfg: "tcp_config c3 = tcp_config c" "connect_packet_of c2 = connect_packet_of c"
    using e 1(1) 2 by (simp_all add: wrote_def connect_packet_of_def)
  have subs: "subscribe_chunks cd net (chunks5 (config_auto_subscribes (tcp_config c))) (c3, q) = (Ok (), c4, q4)"
    using x4 r4 cfg by (simp add: subscribe_auto_subscribes_def)
  from subscribe_chunks_wrote [OF subs wrote_wf [OF 2]] obtain subs where
    s: "list_all2 subscribes_to (chunks5 (config_auto_subscribes (tcp_config c))) subs" "wrote cd c3 subs c4"
    "send_queue c4 = (if chunks5 (config_auto_subscribes (tcp_config c)) = [] then send_queue c3 else [])" by blast
  from wrote_trans [OF wrote_trans [OF 1(1) 2] s(2)] have "wrote cd c1 (connect_packet_of c # subs) c'"
    using r4 cfg by (simp add: set_watch_wrote)
  with e obtain bs where "encodes cd (connect_packet_of c # subs) bs" "sent (network c') @ send_queue c' = sent (network c) @ bs"
    by (auto simp: wrote_def)
  moreover have "config_auto_subscribes (tcp_config c) = [] \<and> length (sent (network c)) < length (sent (network c'))
      \<and> \<not> writes_whole net" if "send_queue c' \<noteq> []"
  proof -
    from that r4(2) s(3) have q: "chunks5 (config_auto_subscribes (tcp_config c)) = []" "send_queue c3 \<noteq> []"
      by (auto simp: set_watch_def send_queue_def split: if_splits)
    then have "c4 = c3" using subs by simp
    moreover have "config_auto_subscribes (tcp_config c) = []" using q(1) concat_chunks5 by (metis concat.simps(1))
    ultimately show ?thesis using 1(2) part q(2) r4(2) by (simp add: set_watch_def)
  qed
  ultimately show ?thesis using s(1) by blast
qed

end

text \<open>C9: a successful \<open>connect\<close> sends, after what was sent before, exactly the CONNECT packet of the client
  followed by one SUBSCRIBE packet for each group of at most five configured topics, in the
  configured order and none left out; what was left in the send buffer from an earlier connection is
  dropped.  When it returns, all these bytes were written to the network, with one exception: a
  client without topics on a network that takes only a part of what it is offered has written some bytes of
  CONNECT, since \<open>send\<close> writes once, and the rest is still in the send buffer.\<close>

theorem connect_subscribes_all:
  assumes "byte_stream net sent incoming" and silent: "\<forall>a n r n'. nw_connect net a n = (r, n') \<longrightarrow> sent n' = sent n"
    and "wf_tcp c" and "tcp_connect cd net (c, q) = (Ok (), c', q')"
  shows "\<exists>chunks subs bs. concat chunks = config_auto_subscribes (tcp_config c)
    \<and> (\<forall>g\<in>set chunks. g \<noteq> [] \<and> length g \<le> 5) \<and> list_all2 subscribes_to chunks subs
    \<and> encodes cd (connect_packet_of c # subs) bs \<and> sent (network c') @ send_queue c' = sent (network c) @ bs
    \<and> (config_auto_subscribes (tcp_config c) \<noteq> [] \<or> writes_whole net \<longrightarrow> sent (network c') = sent (network c) @ bs)
    \<and> (bs \<noteq> [] \<longrightarrow> length (sent (network c)) < length (sent (network c')))"
proof -
  obtain subs bs where
    "list_all2 subscribes_to (chunks5 (config_auto_subscribes (tcp_config c))) subs"
    "encodes cd (connect_packet_of c # subs) bs" "sent (network c') @ send_queue c' = sent (network c) @ bs"
    and part: "send_queue c' \<noteq> [] \<longrightarrow> config_auto_subscribes (tcp_config c) = []
      \<and> length (sent (network c)) < length (sent (network c')) \<and> \<not> writes_whole net"
    using byte_stream.connect_wrote [OF assms(1,4,3)] silent by blast
  moreover from this(3) part have "config_auto_subscribes (tcp_config c) \<noteq> [] \<or> writes_whole net \<longrightarrow> sent (network c') = sent (network c) @ bs"
    "bs \<noteq> [] \<longrightarrow> length (sent (network c)) < length (sent (network c'))"
    by (auto dest: arg_cong [of _ _ length])
  ultimately show ?thesis using chunks5_length
    by (intro exI [of _ "chunks5 (config_auto_subscribes (tcp_config c))"] exI [of _ subs] exI [of _ bs]) auto
qed

text \<open>A client with two automatic subscriptions, and a broker that accepts both.\<close>

definition sample_connecting :: "test_network tcp" where
  "sample_connecting =
     \<lparr>watch = None, network = \<lparr>bytes_sent = [], bytes_received = [0x20, 2, 0, 0, 0x90, 2, 0, 1]\<rparr>, connection = False,
      send_buffer = new_cell 4, recv_buffer = new_cell 4, tcp_last_will = None,
      tcp_config = (new_config (Ip (V4 0)) None [] None)
        \<lparr>config_auto_subscribes := [\<lparr>as_topic = ''a'', as_qos = AtMostOnce\<rparr>, \<lparr>as_topic = ''b'', as_qos = AtLeastOnce\<rparr>]\<rparr>\<rparr>"

lemma sample_subscribes:
  "wf_tcp sample_connecting"
  "case tcp_connect sample_codec sample_net (sample_connecting, new_pid_pool) of
     (r, c, p) \<Rightarrow> r = Ok () \<and> bytes_sent (network c) = [0x10, 0, 0x82, 2, 0, 1] \<and> send_queue c = []"
  by code_simp+

theorem connect_subscribes_all_witness:
  "\<exists>c p chunks subs. tcp_connect sample_codec sample_net (sample_connecting, new_pid_pool) = (Ok (), c, p)
    \<and> concat chunks = config_auto_subscribes (tcp_config sample_connecting) \<and> list_all2 subscribes_to chunks subs
    \<and> encodes sample_codec (connect_packet_of sample_connecting # subs) (bytes_sent (network c))
    \<and> bytes_sent (network c) = [0x10, 0, 0x82, 2, 0, 1]"
proof -
  obtain c p where c: "tcp_connect sample_codec sample_net (sample_connecting, new_pid_pool) = (Ok (), c, p)"
    "bytes_sent (network c) = [0x10, 0, 0x82, 2, 0, 1]"
    using sample_subscribes(2) by (auto split: prod.splits)
  have silent: "\<forall>a n r n'. nw_connect sample_net a n = (r, n') \<longrightarrow> bytes_sent n' = bytes_sent n"
    by (simp add: sample_net_def test_net_def test_connect_def)
  have s: "bytes_sent (network sample_connecting) = []" "config_auto_subscribes (tcp_config sample_connecting) \<noteq> []"
    by (simp_all add: sample_connecting_def)
  from connect_subscribes_all [OF sample_stream silent sample_subscribes(1) c(1)] obtain chunks subs where
    "concat chunks = config_auto_subscribes (tcp_config sample_connecting)" "list_all2 subscribes_to chunks subs"
    "encodes sample_codec (connect_packet_of sample_connecting # subs) (bytes_sent (network c))"
    unfolding s(1) using s(2) by auto
  with c show ?thesis by blast
qed

end
