(* ===== verification/Test_Support.thy ===== *)
theory Test_Support
  imports Test_Doubles
begin

text \<open>
  The means of the crate's unit tests: \<open>src/src/testutils.rs\<close>, which polls a future once, and the
  assertions on a component that writes to a \<open>DummyConnectionState\<close>.  A test is a list of steps
  over a state; it passes when none of them panics, fails, waits or loops.
\<close>

section \<open>Polling\<close>

text \<open>An operation of the model is a future polled once: \<open>Pending\<close> is \<open>Poll::Pending\<close>, and the wakers
  of these tests do nothing.\<close>

definition poll_once :: "('t \<Rightarrow> 'a outcome \<times> 't) \<Rightarrow> 't \<Rightarrow> 'a outcome \<times> 't" where
  "poll_once f t = f t"

definition assert_ready :: "('t \<Rightarrow> 'a outcome \<times> 't) \<Rightarrow> 't \<Rightarrow> 'a outcome \<times> 't" where
  "assert_ready f t = (case poll_once f t of (Pending, t') \<Rightarrow> (Panic, t') | r \<Rightarrow> r)"

definition assert_pending :: "('t \<Rightarrow> 'a outcome \<times> 't) \<Rightarrow> 't \<Rightarrow> unit outcome \<times> 't" where
  "assert_pending f t =
     (case poll_once f t of
        (Pending, t') \<Rightarrow> (Ok (), t')
      | (Undefined_Behaviour, t') \<Rightarrow> (Undefined_Behaviour, t')
      | (Diverges, t') \<Rightarrow> (Diverges, t')
      | (_, t') \<Rightarrow> (Panic, t'))"

definition unwrap_ready :: "('t \<Rightarrow> 'a outcome \<times> 't) \<Rightarrow> 't \<Rightarrow> 'a outcome \<times> 't" where
  \<comment> \<open>\<open>assert_ready(future).unwrap()\<close>\<close>
  "unwrap_ready f t = (case assert_ready f t of (Err e, t') \<Rightarrow> (Panic, t') | r \<Rightarrow> r)"

lemma polls_Ok [simp]:
  "f t = (Ok v, t') \<Longrightarrow> assert_ready f t = (Ok v, t')" "f t = (Ok v, t') \<Longrightarrow> unwrap_ready f t = (Ok v, t')"
  "f t = (Pending, t') \<Longrightarrow> assert_pending f t = (Ok (), t')"
  by (simp_all add: poll_once_def assert_ready_def unwrap_ready_def assert_pending_def)

section \<open>Steps\<close>

definition assert_that :: "('t \<Rightarrow> bool) \<Rightarrow> 't \<Rightarrow> unit outcome \<times> 't" where
  "assert_that P t = (if P t then (Ok (), t) else (Panic, t))"

definition assert_eq :: "'a \<Rightarrow> ('t \<Rightarrow> 'a outcome \<times> 't) \<Rightarrow> 't \<Rightarrow> unit outcome \<times> 't" where
  "assert_eq expected f t = and_then (f t) (\<lambda>v t. (if v = expected then Ok () else Panic, t))"

fun run_steps :: "('t \<Rightarrow> unit outcome \<times> 't) list \<Rightarrow> 't \<Rightarrow> unit outcome \<times> 't" where
  "run_steps [] t = (Ok (), t)"
| "run_steps (step # steps) t = and_then (step t) (\<lambda>_ t. run_steps steps t)"

definition passes :: "('t \<Rightarrow> unit outcome \<times> 't) list \<Rightarrow> 't \<Rightarrow> bool" where
  "passes steps t \<longleftrightarrow> fst (run_steps steps t) = Ok ()"

lemma passes_Nil [simp]: "passes [] t"
  by (simp add: passes_def)

lemma passes_Cons: "step t = (Ok (), t') \<Longrightarrow> passes (step # steps) t \<longleftrightarrow> passes steps t'"
  by (simp add: passes_def)

section \<open>Tests of a component\<close>

text \<open>The component under test, what surrounds it, and how many messages the subscriber of the test
  took from its channel.\<close>

record ('s, 'k) component_test =
  subject :: 's
  surroundings :: "(dummy_connection \<times> 'k) world"
  messages_taken :: nat

definition new_component_test :: "'s \<Rightarrow> pid_pool \<Rightarrow> 'k \<Rightarrow> ('s, 'k) component_test" where
  "new_component_test s p k =
     \<lparr>subject = s,
      surroundings = \<lparr>pid_static = p, event_log = [], received_log = [], env = (new_dummy, k)\<rparr>,
      messages_taken = 0\<rparr>"

definition on_subject :: "('s \<times> (dummy_connection \<times> 'k) world \<Rightarrow> 'a outcome \<times> 's \<times> (dummy_connection \<times> 'k) world)
    \<Rightarrow> ('s, 'k) component_test \<Rightarrow> 'a outcome \<times> ('s, 'k) component_test" where
  "on_subject f t =
     (case f (subject t, surroundings t) of (r, s, w) \<Rightarrow> (r, t\<lparr>subject := s, surroundings := w\<rparr>))"

definition try_next_event :: "('s, 'k) component_test \<Rightarrow> mqtt_event option outcome \<times> ('s, 'k) component_test" where
  \<comment> \<open>\<open>try_next_message_pure\<close> of a subscriber to the events\<close>
  "try_next_event t =
     (let i = messages_taken t in
      if i < length (event_log (surroundings t))
      then (Ok (Some (event_log (surroundings t) ! i)), t\<lparr>messages_taken := i + 1\<rparr>)
      else (Ok None, t))"

definition try_next_received :: "('s, 'k) component_test \<Rightarrow> received_publish option outcome \<times> ('s, 'k) component_test" where
  "try_next_received t =
     (let i = messages_taken t in
      if i < length (received_log (surroundings t))
      then (Ok (Some (received_log (surroundings t) ! i)), t\<lparr>messages_taken := i + 1\<rparr>)
      else (Ok None, t))"

definition written_packet :: "codec \<Rightarrow> ('s, 'k) component_test \<Rightarrow> packet outcome \<times> ('s, 'k) component_test" where
  \<comment> \<open>The packet that \<open>assert_packet_written\<close> gives to its closure\<close>
  "written_packet cd t =
     (case dummy_assert_packet_written cd (fst (env (surroundings t))) of
        (r, d) \<Rightarrow> (r, t\<lparr>surroundings := (surroundings t)\<lparr>env := (d, snd (env (surroundings t)))\<rparr>\<rparr>))"

section \<open>The dummy connection under a codec that carries a packet\<close>

text \<open>What a test relies on in the codec: the packet fits 1024 bytes and is read back.\<close>

definition carries :: "codec \<Rightarrow> packet \<Rightarrow> bool" where
  "carries cd p \<longleftrightarrow> (\<exists>bs. encode_slice cd p 1024 = Inr bs \<and> decode_slice cd bs = Inr (Some p))"

definition wire :: "codec \<Rightarrow> packet \<Rightarrow> byte list" where
  "wire cd p = (case encode_slice cd p 1024 of Inr bs \<Rightarrow> bs | Inl _ \<Rightarrow> [])"

named_theorems test_eval \<open>evaluation of the steps of a test\<close>

lemmas [test_eval] = assert_that_def assert_eq_def on_subject_def try_next_event_def try_next_received_def

lemma written_packet_eval [test_eval]:
  assumes "carries cd p" and "packet_written (fst (env (surroundings t))) = Some (wire cd p)"
  shows "written_packet cd t = (Ok p, t\<lparr>surroundings := (surroundings t)\<lparr>env :=
    ((fst (env (surroundings t)))\<lparr>packet_written := None\<rparr>, snd (env (surroundings t)))\<rparr>\<rparr>)"
  using assms by (auto simp: written_packet_def dummy_assert_packet_written_def carries_def wire_def)

lemma try_write_free [test_eval]:
  assumes "carries cd p" and "packet_written (fst (env w)) = None"
  shows "try_write (dummy_ops cd clock) p (s, w) =
    (Ok True, s, w\<lparr>env := ((fst (env w))\<lparr>packet_written := Some (wire cd p)\<rparr>, snd (env w))\<rparr>)"
  using assms by (cases "env w") (auto simp: try_write_def dummy_ops_def dummy_try_write_packet_def carries_def wire_def)

lemma try_write_occupied [test_eval]:
  assumes "packet_written (fst (env w)) = Some bs"
  shows "try_write (dummy_ops cd clock) p (s, w) = (Ok False, s, w)"
  using assms by (cases "env w") (auto simp: try_write_def dummy_ops_def dummy_try_write_packet_def)

lemma read_clock_dummy [test_eval]:
  "read_clock (dummy_ops cd clock) (s, w) =
    (fst (clock (snd (env w))), s, w\<lparr>env := (fst (env w), snd (clock (snd (env w))))\<rparr>)"
  by (cases "env w") (simp add: read_clock_def dummy_ops_def split: prod.split)

lemma new_component_test_simps [test_eval]:
  "subject (new_component_test s p k) = s" "messages_taken (new_component_test s p k) = 0"
  "surroundings (new_component_test s p k) =
    \<lparr>pid_static = p, event_log = [], received_log = [], env = (\<lparr>next_packet = None, packet_written = None\<rparr>, k)\<rparr>"
  by (simp_all add: new_component_test_def new_dummy_def)

text \<open>A codec that carries the packets of a list, as the number of their place in it.\<close>

definition table_codec :: "packet list \<Rightarrow> codec" where
  "table_codec ps =
     \<lparr>encode_slice = (\<lambda>p n. case position (\<lambda>q. q = p) ps of
        Some i \<Rightarrow> if 0 < n then Inr [of_nat i] else Inl WriteZero
      | None \<Rightarrow> Inl (OtherCodecError 0)),
      decode_slice = (\<lambda>bs. case bs of
        [b] \<Rightarrow> if unat b < length ps then Inr (Some (ps ! unat b)) else Inl (OtherCodecError 1)
      | _ \<Rightarrow> Inl (OtherCodecError 1)),
      decode_slice_with_len = (\<lambda>bs. case bs of
        b # _ \<Rightarrow> if unat b < length ps then Inr (Some (1, ps ! unat b)) else Inl (OtherCodecError 1)
      | [] \<Rightarrow> Inr None),
      topic_path_size = 256, topics_size = 5\<rparr>"

lemma position_eq_Some: "p \<in> set ps \<Longrightarrow> \<exists>i<length ps. position (\<lambda>q. q = p) ps = Some i \<and> ps ! i = p"
  by (induction ps) force+

lemma table_codec_carries: "p \<in> set ps \<Longrightarrow> length ps \<le> 256 \<Longrightarrow> carries (table_codec ps) p"
  using position_eq_Some [of p ps] by (auto simp: carries_def table_codec_def unat_of_nat)

end
