(* ===== verification/Receive_Tests.thy ===== *)
theory Receive_Tests
  imports Test_Support Receive_Properties
begin

text \<open>
  The unit tests of \<open>src/src/state/receives2.rs\<close>, each as the list of its steps, and the theorem that
  they pass: for every codec that carries the acknowledgements of the tests and every clock.
\<close>

section \<open>Steps\<close>

definition receive_sizes :: sizes where
  "receive_sizes = \<lparr>QUEUE = 4, BUFFER = 1024, TOPIC = 128\<rparr>"

definition test_publish :: "qospid \<Rightarrow> publish" where
  "test_publish q =
     \<lparr>dup = False, qospid = q, retain = False, topic_name = ''test/topic'', payload = string_bytes ''test-payload''\<rparr>"

type_synonym 'k receives_test = "(receives_inner, 'k) component_test"

definition publish_comes :: "publish \<Rightarrow> 'k receives_test \<Rightarrow> unit outcome \<times> 'k receives_test" where
  "publish_comes p = unwrap_ready (on_subject (on_publish receive_sizes p))"

definition pubrel_comes :: "pid \<Rightarrow> 'k receives_test \<Rightarrow> unit outcome \<times> 'k receives_test" where
  "pubrel_comes pid = unwrap_ready (on_subject (on_pubrel receive_sizes pid))"

definition publish_delivered :: "publish \<Rightarrow> 'k receives_test \<Rightarrow> unit outcome \<times> 'k receives_test" where
  \<comment> \<open>The next message taken from the subscription has the fields of the publish.\<close>
  "publish_delivered p t =
     and_then (try_next_received t) (\<lambda>m t.
     and_then (unwrap_option m, t) (\<lambda>m.
       assert_that (\<lambda>_. rp_dup m = dup p \<and> rp_qospid m = qospid p \<and> rp_payload m = payload p
         \<and> rp_retain m = retain p \<and> rp_topic_name m = topic_name p)))"

definition nothing_delivered :: "'k receives_test \<Rightarrow> unit outcome \<times> 'k receives_test" where
  "nothing_delivered = assert_eq None try_next_received"

definition something_delivered :: "'k receives_test \<Rightarrow> unit outcome \<times> 'k receives_test" where
  "something_delivered t = and_then (try_next_received t) (\<lambda>m. assert_that (\<lambda>_. m \<noteq> None))"

definition acks_sent :: "codec \<Rightarrow> ('k \<Rightarrow> instant \<times> 'k) \<Rightarrow> 'k receives_test \<Rightarrow> unit outcome \<times> 'k receives_test" where
  "acks_sent cd clock =
     assert_eq SentAll (unwrap_ready (on_subject (receives_send_packets (dummy_ops cd clock) receive_sizes)))"

definition inner_holds :: "(receives_inner \<Rightarrow> bool) \<Rightarrow> 'k receives_test \<Rightarrow> unit outcome \<times> 'k receives_test" where
  "inner_holds P = assert_that (\<lambda>t. P (subject t))"

definition all_empty :: "receives_inner \<Rightarrow> bool" where
  "all_empty s \<longleftrightarrow> await_pubrel s = [] \<and> send_puback s = [] \<and> send_pubcomp s = [] \<and> send_pubrec s = []"

section \<open>The tests\<close>

definition test_qos_0_receive :: "'k receives_test \<Rightarrow> bool" where
  "test_qos_0_receive = passes
     [publish_comes (test_publish QP_AtMostOnce),
      publish_delivered (test_publish QP_AtMostOnce),
      inner_holds all_empty]"

definition test_qos_1_receive :: "codec \<Rightarrow> ('k \<Rightarrow> instant \<times> 'k) \<Rightarrow> 'k receives_test \<Rightarrow> bool" where
  "test_qos_1_receive cd clock =
     (let pid = 8; publish = test_publish (QP_AtLeastOnce pid) in passes
     [publish_comes publish,
      inner_holds (\<lambda>s. length (send_puback s) = 1),
      publish_delivered publish,
      acks_sent cd clock,
      assert_eq (Puback pid) (written_packet cd),
      inner_holds all_empty])"

definition test_qos_2_receive :: "codec \<Rightarrow> ('k \<Rightarrow> instant \<times> 'k) \<Rightarrow> 'k receives_test \<Rightarrow> bool" where
  "test_qos_2_receive cd clock =
     (let pid = 8; publish = test_publish (QP_ExactlyOnce pid) in passes
     [publish_comes publish,
      inner_holds (\<lambda>s. length (send_pubrec s) = 1),
      publish_delivered publish,
      acks_sent cd clock,
      assert_eq (Pubrec pid) (written_packet cd),
      inner_holds (\<lambda>s. length (await_pubrel s) = 1),
      pubrel_comes pid,
      inner_holds (\<lambda>s. length (send_pubcomp s) = 1),
      acks_sent cd clock,
      assert_eq (Pubcomp pid) (written_packet cd),
      inner_holds all_empty])"

definition test_no_dup_in_qos_2 :: "'k receives_test \<Rightarrow> bool" where
  "test_no_dup_in_qos_2 =
     (let pid = 8; publish = test_publish (QP_ExactlyOnce pid) in passes
     [publish_comes publish,
      inner_holds (\<lambda>s. length (send_pubrec s) = 1),
      publish_delivered publish,
      publish_comes (publish\<lparr>dup := True\<rparr>),
      nothing_delivered])"

definition test_send_pubrec_publish :: "codec \<Rightarrow> ('k \<Rightarrow> instant \<times> 'k) \<Rightarrow> 'k receives_test \<Rightarrow> bool" where
  "test_send_pubrec_publish cd clock =
     (let pid = 8; publish = test_publish (QP_ExactlyOnce pid) in passes
     [publish_comes publish,
      something_delivered,
      acks_sent cd clock,
      assert_eq (Pubrec pid) (written_packet cd),
      publish_comes publish,
      nothing_delivered,
      acks_sent cd clock,
      assert_eq (Pubrec pid) (written_packet cd)])"

definition test_send_pubcomp_to_pubrel :: "codec \<Rightarrow> ('k \<Rightarrow> instant \<times> 'k) \<Rightarrow> 'k receives_test \<Rightarrow> bool" where
  "test_send_pubcomp_to_pubrel cd clock =
     (let pid = 8 in passes
     [pubrel_comes pid,
      nothing_delivered,
      acks_sent cd clock,
      assert_eq (Pubcomp pid) (written_packet cd),
      pubrel_comes pid,
      nothing_delivered,
      acks_sent cd clock,
      assert_eq (Pubcomp pid) (written_packet cd)])"

section \<open>The tests pass\<close>

lemmas rx_test_eval = test_eval passes_def publish_comes_def pubrel_comes_def publish_delivered_def
  nothing_delivered_def something_delivered_def acks_sent_def inner_holds_def all_empty_def receive_sizes_def
  test_publish_def string_bytes_def on_publish_def deliver_def received_try_from_def string_try_from_def
  vec_try_from_def on_qos_2_publish_def on_pubrel_def is_dup_def receives_send_packets_def send_pubacks.simps
  send_pubrecs.simps send_pubcomps.simps new_receives_def vec_push_def vec_is_full_def vec_remove_def
  unwrap_ready_def assert_ready_def poll_once_def Let_def

lemma receive_tests:
  fixes clock :: "'k \<Rightarrow> instant \<times> 'k"
  defines "new p k \<equiv> new_component_test new_receives p k :: 'k receives_test"
  shows "test_qos_0_receive (new p k)" "test_no_dup_in_qos_2 (new p k)"
    and "carries cd (Puback 8) \<Longrightarrow> test_qos_1_receive cd clock (new p k)"
    and "carries cd (Pubrec 8) \<Longrightarrow> carries cd (Pubcomp 8) \<Longrightarrow> test_qos_2_receive cd clock (new p k)"
    and "carries cd (Pubrec 8) \<Longrightarrow> test_send_pubrec_publish cd clock (new p k)"
    and "carries cd (Pubcomp 8) \<Longrightarrow> test_send_pubcomp_to_pubrel cd clock (new p k)"
  unfolding new_def test_qos_0_receive_def test_no_dup_in_qos_2_def test_qos_1_receive_def test_qos_2_receive_def
    test_send_pubrec_publish_def test_send_pubcomp_to_pubrel_def
  by (simp_all add: rx_test_eval)

end
