(* ===== verification/Publish_Tests.thy ===== *)
theory Publish_Tests
  imports Test_Support Publish_Properties
begin

text \<open>
  The unit tests of \<open>src/src/state/publish2.rs\<close> and the theorem that they pass: for every codec that
  carries the packets of the tests, every state of the identifier pool with room, and every clock
  that does not run past the retransmission time.
\<close>

section \<open>Steps\<close>

definition publish_sizes :: sizes where
  "publish_sizes = \<lparr>QUEUE = 4, BUFFER = 1024, TOPIC = 128\<rparr>"

definition message_to_send :: "qospid \<Rightarrow> publish" where
  "message_to_send q =
     \<lparr>dup = False, qospid = q, retain = False, topic_name = ''a/test/tpic'', payload = string_bytes ''a test payload''\<rparr>"

type_synonym 'k publishes_test = "(publishes_inner, 'k) component_test"

definition add_to_queue :: "publish \<Rightarrow> unique_id \<Rightarrow> 'k publishes_test \<Rightarrow> unit outcome \<times> 'k publishes_test" where
  "add_to_queue p uid =
     unwrap_ready (on_subject (\<lambda>(s, w). case publishes_publish publish_sizes p uid s of (r, s') \<Rightarrow> (r, s', w)))"

definition packets_sent :: "codec \<Rightarrow> ('k \<Rightarrow> instant \<times> 'k) \<Rightarrow> 'k publishes_test \<Rightarrow> unit outcome \<times> 'k publishes_test" where
  "packets_sent cd clock =
     assert_eq SentAll (unwrap_ready (on_subject (publishes_send_packets (dummy_ops cd clock) publish_sizes)))"

definition packet_comes :: "packet \<Rightarrow> 'k publishes_test \<Rightarrow> unit outcome \<times> 'k publishes_test" where
  "packet_comes p = unwrap_ready (on_subject (process_incoming_packet publish_sizes p))"

definition queue_holds :: "(publishes_inner \<Rightarrow> bool) \<Rightarrow> 'k publishes_test \<Rightarrow> unit outcome \<times> 'k publishes_test" where
  "queue_holds P = assert_that (\<lambda>t. P (subject t))"

definition nothing_open :: "publishes_inner \<Rightarrow> bool" where
  "nothing_open s \<longleftrightarrow> await_pubacks s = [] \<and> await_pubcomps s = [] \<and> await_pubrecs s = [] \<and> send_publish s = []"

text \<open>The crate's tests record every identifier handed back; here it is looked up in the pool, in which
  there is room for it.\<close>

definition is_freed :: "pid \<Rightarrow> 'k publishes_test \<Rightarrow> bool" where
  "is_freed pid t \<longleftrightarrow> pid \<in> set (pool (pid_static (surroundings t)))"

definition with_next_pid :: "(pid \<Rightarrow> ('k publishes_test \<Rightarrow> unit outcome \<times> 'k publishes_test) list) \<Rightarrow> 'k publishes_test \<Rightarrow> bool" where
  \<comment> \<open>\<open>let pid = next_pid();\<close>\<close>
  "with_next_pid steps t =
     (case world_next_pid (surroundings t) of
        (Ok pid, w) \<Rightarrow> passes (steps pid) (t\<lparr>surroundings := w\<rparr>)
      | _ \<Rightarrow> False)"

section \<open>The tests\<close>

definition test_qos_0_publish :: "codec \<Rightarrow> ('k \<Rightarrow> instant \<times> 'k) \<Rightarrow> 'k publishes_test \<Rightarrow> bool" where
  "test_qos_0_publish cd clock =
     (let publish = message_to_send QP_AtMostOnce; uid = UniqueID 45 in passes
     [add_to_queue publish uid,
      packets_sent cd clock,
      assert_eq (Publish publish) (written_packet cd),
      assert_eq (Some (PublishDone uid)) try_next_event,
      queue_holds nothing_open])"

definition test_qos_1_publish :: "codec \<Rightarrow> ('k \<Rightarrow> instant \<times> 'k) \<Rightarrow> 'k publishes_test \<Rightarrow> bool" where
  "test_qos_1_publish cd clock = with_next_pid (\<lambda>pid.
     (let publish = message_to_send (QP_AtLeastOnce pid); uid = UniqueID 45 in
     [add_to_queue publish uid,
      packets_sent cd clock,
      assert_eq (Publish publish) (written_packet cd),
      assert_eq None try_next_event,
      queue_holds (\<lambda>s. length (await_pubacks s) = 1),
      assert_that (\<lambda>t. \<not> is_freed pid t),
      packet_comes (Puback pid),
      assert_that (is_freed pid),
      assert_eq (Some (PublishDone uid)) try_next_event,
      queue_holds nothing_open]))"

definition test_qos_2_publish :: "codec \<Rightarrow> ('k \<Rightarrow> instant \<times> 'k) \<Rightarrow> 'k publishes_test \<Rightarrow> bool" where
  "test_qos_2_publish cd clock = with_next_pid (\<lambda>pid.
     (let publish = message_to_send (QP_ExactlyOnce pid); uid = UniqueID 45 in
     [add_to_queue publish uid,
      packets_sent cd clock,
      assert_eq (Publish publish) (written_packet cd),
      queue_holds (\<lambda>s. length (await_pubrecs s) = 1),
      packet_comes (Pubrec pid),
      queue_holds (\<lambda>s. length (send_pubrels s) = 1),
      packets_sent cd clock,
      assert_eq (Pubrel pid) (written_packet cd),
      queue_holds (\<lambda>s. length (await_pubcomps s) = 1),
      assert_eq None try_next_event,
      assert_that (\<lambda>t. \<not> is_freed pid t),
      packet_comes (Pubcomp pid),
      assert_that (is_freed pid),
      assert_eq (Some (PublishDone uid)) try_next_event,
      queue_holds nothing_open]))"

section \<open>The tests pass\<close>

lemmas tx_test_eval = test_eval passes_def add_to_queue_def packets_sent_def packet_comes_def queue_holds_def
  nothing_open_def is_freed_def publish_sizes_def message_to_send_def string_bytes_def publishes_publish_def
  add_publish_def new_from_publish_def string_try_from_def vec_try_from_def publishes_send_packets_def
  send_pending_pubrel.simps send_pending_publishes.simps resend_publishes_def resend_pubrel_def resend_await_publish_def
  file_published_def file_pubrel_def await_puback_from_def await_pubrec_from_def await_pubcomp_from_def has_space_def
  vec_push_unchecked_def process_incoming_packet_def process_puback_def process_pubrec_def process_pubcomp_def
  send_pubrel_from_def free_pid_issued PID_POOL_SIZE_def borrow_def publish.defs new_publishes_def vec_push_def
  vec_is_full_def vec_remove_def unwrap_ready_def assert_ready_def poll_once_def Let_def

lemma publish_test_0:
  assumes quick: "\<And>k t. \<not> RESEND_DURATION < fst (clock k) - t" and "carries cd (Publish (message_to_send QP_AtMostOnce))"
  shows "test_qos_0_publish cd clock (new_component_test new_publishes p k)"
  using assms(2) unfolding test_qos_0_publish_def by (simp add: tx_test_eval quick)

lemma publish_test_1:
  assumes quick: "\<And>k t. \<not> RESEND_DURATION < fst (clock k) - t"
    and "carries cd (Publish (message_to_send (QP_AtLeastOnce pid)))"
    and "next_pid p = (Ok pid, p')" and "pid \<notin> set (pool p')" and "length (pool p') < 16"
  shows "test_qos_1_publish cd clock (new_component_test new_publishes p k)"
  using assms(2-) unfolding test_qos_1_publish_def with_next_pid_def world_next_pid_def by (simp add: tx_test_eval quick)

lemma publish_test_2:
  assumes quick: "\<And>k t. \<not> RESEND_DURATION < fst (clock k) - t"
    and "carries cd (Publish (message_to_send (QP_ExactlyOnce pid)))" and "carries cd (Pubrel pid)"
    and "next_pid p = (Ok pid, p')" and "pid \<notin> set (pool p')" and "length (pool p') < 16"
  shows "test_qos_2_publish cd clock (new_component_test new_publishes p k)"
  using assms(2-) unfolding test_qos_2_publish_def with_next_pid_def world_next_pid_def by (simp add: tx_test_eval quick)

end
