(* ===== verification/Subscription_Tests.thy ===== *)
theory Subscription_Tests
  imports Test_Support Subscription_Properties
begin

text \<open>
  The unit tests of \<open>src/src/state/sub2.rs\<close> and the theorem that they pass: for every codec that
  carries the packets of the tests, every state of the identifier pool, and every clock that does
  not run past the retransmission time.
\<close>

section \<open>Steps\<close>

definition subs_sizes :: sizes where
  "subs_sizes = \<lparr>QUEUE = 4, BUFFER = 1024, TOPIC = 128\<rparr>"

type_synonym 'k subs_test = "(subs_inner, 'k) component_test"

definition subscribe_requested :: "string list \<Rightarrow> unique_id \<Rightarrow> 'k subs_test \<Rightarrow> unit outcome \<times> 'k subs_test" where
  "subscribe_requested topics uid = assert_ready (on_subject (add_subscribe_request subs_sizes topics AtMostOnce uid))"

definition unsubscribe_requested :: "string list \<Rightarrow> unique_id \<Rightarrow> 'k subs_test \<Rightarrow> unit outcome \<times> 'k subs_test" where
  "unsubscribe_requested topics uid = assert_ready (on_subject (add_unsubscribe_request subs_sizes topics uid))"

definition requests_sent :: "codec \<Rightarrow> ('k \<Rightarrow> instant \<times> 'k) \<Rightarrow> send_result \<Rightarrow> 'k subs_test \<Rightarrow> unit outcome \<times> 'k subs_test" where
  "requests_sent cd clock r = assert_eq r (unwrap_ready (on_subject (subs_send (dummy_ops cd clock) cd subs_sizes)))"

definition subscribe_answered :: "codec \<Rightarrow> 'k subs_test \<Rightarrow> unit outcome \<times> 'k subs_test" where
  \<comment> \<open>The SUBSCRIBE packet was written, and its SUBACK arrives.\<close>
  "subscribe_answered cd t =
     and_then (written_packet cd t) (\<lambda>p t.
       case p of
         Subscribe pid _ \<Rightarrow> unwrap_ready (on_subject (on_suback pid [Success AtMostOnce])) t
       | _ \<Rightarrow> (Panic, t))"

definition unsubscribe_answered :: "codec \<Rightarrow> 'k subs_test \<Rightarrow> unit outcome \<times> 'k subs_test" where
  "unsubscribe_answered cd t =
     and_then (written_packet cd t) (\<lambda>p t.
       case p of
         Unsubscribe pid _ \<Rightarrow> assert_ready (on_subject (\<lambda>st. (Ok (), on_unsuback pid st))) t
       | _ \<Rightarrow> (Panic, t))"

section \<open>The tests\<close>

definition test_subscribe :: "codec \<Rightarrow> ('k \<Rightarrow> instant \<times> 'k) \<Rightarrow> 'k subs_test \<Rightarrow> bool" where
  "test_subscribe cd clock = passes
     [subscribe_requested [''test/topic''] (UniqueID 6),
      requests_sent cd clock SentAll,
      subscribe_answered cd,
      assert_eq (Some (SubscribeDone (UniqueID 6) (Inr AtMostOnce))) try_next_event]"

definition parallel_round :: "codec \<Rightarrow> ('k \<Rightarrow> instant \<times> 'k) \<Rightarrow> nat \<Rightarrow> ('k subs_test \<Rightarrow> unit outcome \<times> 'k subs_test) list" where
  \<comment> \<open>The body of the loop over \<open>i\<close>\<close>
  "parallel_round cd clock i =
     [requests_sent cd clock (if i + 1 < 2 then PartiallySent else SentAll),
      subscribe_answered cd,
      assert_eq (Some (SubscribeDone (UniqueID (of_nat i)) (Inr AtMostOnce))) try_next_event]"

definition test_parallel_subscribe :: "codec \<Rightarrow> ('k \<Rightarrow> instant \<times> 'k) \<Rightarrow> 'k subs_test \<Rightarrow> bool" where
  "test_parallel_subscribe cd clock = passes
     ([subscribe_requested [''test/topic/0''] (UniqueID 0),
       subscribe_requested [''test/topic/1''] (UniqueID 1)]
      @ concat (map (parallel_round cd clock) [0..<2]))"

definition test_unsubscribe :: "codec \<Rightarrow> ('k \<Rightarrow> instant \<times> 'k) \<Rightarrow> 'k subs_test \<Rightarrow> bool" where
  "test_unsubscribe cd clock = passes
     [unsubscribe_requested [''test/topic''] (UniqueID 6),
      requests_sent cd clock SentAll,
      unsubscribe_answered cd,
      assert_eq (Some (UnsubscribeDone (UniqueID 6))) try_next_event]"

section \<open>The tests pass\<close>

text \<open>The codec takes the topics of the tests, and carries the packets.\<close>

definition takes_topics :: "codec \<Rightarrow> bool" where
  "takes_topics cd \<longleftrightarrow> 12 \<le> topic_path_size cd \<and> 1 \<le> topics_size cd"

lemmas sub_test_eval = test_eval passes_def subscribe_requested_def unsubscribe_requested_def requests_sent_def
  subscribe_answered_def unsubscribe_answered_def subs_sizes_def add_subscribe_request_def
  add_unsubscribe_request_def add_request_def request_topics_def world_next_pid_def subs_send_def send_requests.simps
  create_packet_def create_subscribe_topic_def create_unsubscribe_topic_def file_request_def new_await_ack_def
  resend_requests_def on_suback_def on_unsuback_def string_try_from_def new_subs_def vec_push_def
  vec_is_full_def vec_remove_def unwrap_ready_def assert_ready_def poll_once_def Let_def

lemma subscribe_test:
  assumes quick: "\<And>k t. \<not> SUB_RESEND_DURATION < fst (clock k) - t" and "takes_topics cd"
    and "next_pid p = (Ok pid, p')" and "carries cd (Subscribe pid [(''test/topic'', AtMostOnce)])"
  shows "test_subscribe cd clock (new_component_test new_subs p k)"
  using assms(2-) unfolding test_subscribe_def takes_topics_def by (simp add: sub_test_eval quick)

lemma unsubscribe_test:
  assumes quick: "\<And>k t. \<not> SUB_RESEND_DURATION < fst (clock k) - t" and "takes_topics cd"
    and "next_pid p = (Ok pid, p')" and "carries cd (Unsubscribe pid [''test/topic''])"
  shows "test_unsubscribe cd clock (new_component_test new_subs p k)"
  using assms(2-) unfolding test_unsubscribe_def takes_topics_def by (simp add: sub_test_eval quick)

lemma parallel_subscribe_test:
  assumes quick: "\<And>k t. \<not> SUB_RESEND_DURATION < fst (clock k) - t" and "takes_topics cd"
    and "next_pid p = (Ok pid1, p1)" and "next_pid p1 = (Ok pid2, p2)"
    and "carries cd (Subscribe pid1 [(''test/topic/0'', AtMostOnce)])"
    and "carries cd (Subscribe pid2 [(''test/topic/1'', AtMostOnce)])"
  shows "test_parallel_subscribe cd clock (new_component_test new_subs p k)"
  using assms(2-) unfolding test_parallel_subscribe_def parallel_round_def takes_topics_def
  by (simp add: sub_test_eval quick upt_rec)

end
