(* ===== verification/Test_Time.thy ===== *)
theory Test_Time
  imports Session_World Notifications
begin

text \<open>
  \<open>test_time\<close> of \<open>src/src/time.rs\<close>: the clock the crate's tests run against.  It follows the clock of
  the runtime or stands at an instant that the test moves, and a \<open>sleep\<close> waits on it.  The clock and
  the timers of the runtime (\<open>std\<close> with tokio, or embassy) are a parameter.  Instants are unbounded, as
  in the rest of the model; each operation is one step, since it holds the \<open>RefCell\<close> throughout.
\<close>

section \<open>The clock\<close>

record ('k, 'f) timer_ops =
  tm_now :: "'k \<Rightarrow> instant \<times> 'k"
  tm_sleep :: "duration \<Rightarrow> 'k \<Rightarrow> 'f \<times> 'k"
  tm_poll :: "task \<Rightarrow> 'f \<Rightarrow> 'k \<Rightarrow> bool \<times> 'f \<times> 'k"

datatype time_source = Static instant | Default_Source

record ('k, 'w) test_time =
  source :: time_source
  time_wakers :: 'w
  runtime_clock :: 'k

definition new_test_time :: "'w \<Rightarrow> 'k \<Rightarrow> ('k, 'w) test_time" where
  "new_test_time r k = \<lparr>source = Default_Source, time_wakers = r, runtime_clock = k\<rparr>"

definition test_now :: "('k, 'f) timer_ops \<Rightarrow> ('k, 'w) test_time \<Rightarrow> instant \<times> ('k, 'w) test_time" where
  "test_now tm s =
     (case source s of
        Static instant \<Rightarrow> (instant, s)
      | Default_Source \<Rightarrow> (case tm_now tm (runtime_clock s) of (t, k) \<Rightarrow> (t, s\<lparr>runtime_clock := k\<rparr>)))"

definition set_time :: "'w waker_ops \<Rightarrow> instant \<Rightarrow> ('k, 'w) test_time \<Rightarrow> ('k, 'w) test_time" where
  "set_time wops new_now s =
     (let s1 = s\<lparr>source := Static new_now\<rparr> in s1\<lparr>time_wakers := wr_wake wops (time_wakers s1)\<rparr>)"

definition set_static_now :: "'w waker_ops \<Rightarrow> ('k, 'f) timer_ops \<Rightarrow> ('k, 'w) test_time \<Rightarrow> ('k, 'w) test_time" where
  "set_static_now wops tm s =
     (case tm_now tm (runtime_clock s) of
        (now, k) \<Rightarrow> (let s1 = s\<lparr>runtime_clock := k, source := Static now\<rparr>
                     in s1\<lparr>time_wakers := wr_wake wops (time_wakers s1)\<rparr>))"

definition set_default :: "('k, 'w) test_time \<Rightarrow> ('k, 'w) test_time" where
  "set_default s = s\<lparr>source := Default_Source\<rparr>"

definition advance_time :: "'w waker_ops \<Rightarrow> duration \<Rightarrow> ('k, 'w) test_time \<Rightarrow> unit outcome \<times> ('k, 'w) test_time" where
  "advance_time wops d s =
     (case source s of
        Static instant \<Rightarrow>
          (let s1 = s\<lparr>source := Static (instant + d)\<rparr>
           in (Ok (), s1\<lparr>time_wakers := wr_wake wops (time_wakers s1)\<rparr>))
      | Default_Source \<Rightarrow> (Panic, s))"

section \<open>Sleeping\<close>

record 'f test_sleep =
  wait_until :: instant
  wait_future :: 'f

definition new_sleep :: "('k, 'f) timer_ops \<Rightarrow> duration \<Rightarrow> ('k, 'w) test_time \<Rightarrow> 'f test_sleep \<times> ('k, 'w) test_time" where
  \<comment> \<open>\<open>TestTimeFuture::new\<close>\<close>
  "new_sleep tm d s =
     (case test_now tm s of
        (now, s1) \<Rightarrow>
          (case tm_sleep tm d (runtime_clock s1) of
             (f, k) \<Rightarrow> (\<lparr>wait_until = now + d, wait_future = f\<rparr>, s1\<lparr>runtime_clock := k\<rparr>)))"

definition poll_sleep :: "'w waker_ops \<Rightarrow> ('k, 'f) timer_ops \<Rightarrow> task \<Rightarrow> 'f test_sleep \<Rightarrow> ('k, 'w) test_time
    \<Rightarrow> bool \<times> 'f test_sleep \<times> ('k, 'w) test_time" where
  \<comment> \<open>\<open>True\<close> is \<open>Poll::Ready\<close>.\<close>
  "poll_sleep wops tm t this s =
     (case source s of
        Static now \<Rightarrow>
          if now \<ge> wait_until this then (True, this, s)
          else (False, this, s\<lparr>time_wakers := wr_register wops t (time_wakers s)\<rparr>)
      | Default_Source \<Rightarrow>
          (case tm_poll tm t (wait_future this) (runtime_clock s) of
             (r, f, k) \<Rightarrow> (r, this\<lparr>wait_future := f\<rparr>, s\<lparr>runtime_clock := k\<rparr>)))"

text \<open>What a test does while tasks sleep: it moves the clock, and tasks create and poll sleeps.\<close>

datatype 'f clock_action = Advance duration | Sleep_For duration | Poll_Sleep task "'f test_sleep"

fun clock_step :: "'w waker_ops \<Rightarrow> ('k, 'f) timer_ops \<Rightarrow> 'f clock_action \<Rightarrow> ('k, 'w) test_time
    \<Rightarrow> unit outcome \<times> ('k, 'w) test_time" where
  "clock_step wops tm (Advance d) s = advance_time wops d s"
| "clock_step wops tm (Sleep_For d) s = (Ok (), snd (new_sleep tm d s))"
| "clock_step wops tm (Poll_Sleep t f) s = (Ok (), snd (snd (poll_sleep wops tm t f s)))"

fun clock_run :: "'w waker_ops \<Rightarrow> ('k, 'f) timer_ops \<Rightarrow> 'f clock_action list \<Rightarrow> ('k, 'w) test_time
    \<Rightarrow> unit outcome \<times> ('k, 'w) test_time" where
  "clock_run wops tm [] s = (Ok (), s)"
| "clock_run wops tm (a # as) s = and_then (clock_step wops tm a s) (\<lambda>_ s. clock_run wops tm as s)"

fun advanced :: "'f clock_action list \<Rightarrow> nat" where
  "advanced [] = 0"
| "advanced (Advance d # as) = d + advanced as"
| "advanced (_ # as) = advanced as"

section \<open>Properties\<close>

context waker_registry begin

definition awaited :: "task \<Rightarrow> ('k, 'w) test_time \<Rightarrow> bool" where
  "awaited t s \<longleftrightarrow> t \<in> held (time_wakers s) \<union> woken (time_wakers s)"

text \<open>From an instant at which the clock stands, a run moves it by the sum of its advances and never
  panics; a task that was registered stays so until it is woken.\<close>

lemma clock_step_static:
  assumes "source s = Static t0"
  obtains s' where "clock_step wops tm a s = (Ok (), s')" "source s' = Static (t0 + advanced [a])"
    "\<And>t. awaited t s \<Longrightarrow> awaited t s'"
proof (cases a)
  case (Advance d)
  show ?thesis
    by (rule that [of "s\<lparr>source := Static (t0 + d), time_wakers := wr_wake wops (time_wakers s)\<rparr>"])
      (use assms Advance wake_held [of "time_wakers s"] in \<open>auto simp: advance_time_def awaited_def Let_def\<close>)
next
  case (Sleep_For d)
  obtain f k where k: "tm_sleep tm d (runtime_clock s) = (f, k)" by (rule prod.exhaust)
  show ?thesis
    by (rule that [of "s\<lparr>runtime_clock := k\<rparr>"])
      (use assms Sleep_For k in \<open>auto simp: new_sleep_def test_now_def awaited_def\<close>)
next
  case (Poll_Sleep u f)
  show ?thesis
    by (rule that [of "snd (snd (poll_sleep wops tm u f s))"])
      (use assms Poll_Sleep register_keeps [of "time_wakers s" u] in \<open>auto simp: poll_sleep_def awaited_def\<close>)
qed

lemma clock_run_static:
  assumes "source s = Static t0"
  shows "\<exists>s'. clock_run wops tm as s = (Ok (), s') \<and> source s' = Static (t0 + advanced as)
    \<and> (\<forall>t. awaited t s \<longrightarrow> awaited t s')"
  using assms
proof (induction as arbitrary: s t0)
  case Nil
  then show ?case by simp
next
  case (Cons a as)
  obtain s1 where s1: "clock_step wops tm a s = (Ok (), s1)" "source s1 = Static (t0 + advanced [a])"
    "\<And>t. awaited t s \<Longrightarrow> awaited t s1" using clock_step_static [OF Cons.prems, of tm a] by metis
  from Cons.IH [OF s1(2)] obtain s' where "clock_run wops tm as s1 = (Ok (), s')"
    "source s' = Static (t0 + advanced [a] + advanced as)" "\<forall>t. awaited t s1 \<longrightarrow> awaited t s'" by blast
  moreover have "advanced (a # as) = advanced [a] + advanced as" by (cases a) simp_all
  ultimately show ?case using s1 by (simp add: add.assoc)
qed

lemma advance_static:
  assumes "source s = Static t0" and "awaited t s"
  shows "\<exists>s'. advance_time wops d s = (Ok (), s') \<and> source s' = Static (t0 + d) \<and> t \<in> woken (time_wakers s')"
  using assms wake_held [of "time_wakers s"] by (auto simp: advance_time_def awaited_def Let_def)

end

text \<open>No wake-up of a sleeping task is lost under the test clock: while the clock stands at an
  instant, a task that polled its sleep too early is woken by every later advance of the clock,
  whatever other tasks did in between, and its next poll is ready exactly when the clock was
  advanced by the duration of the sleep in all.\<close>

lemma sleeping_task_wakes_when_due:
  assumes "waker_registry wops held woken" and "source s = Static t0" and "new_sleep tm w s = (f, s0)"
    and "poll_sleep wops tm t f s0 = (False, f1, s1)"
  shows "\<exists>s2 s3. clock_run wops tm as s1 = (Ok (), s2) \<and> advance_time wops d s2 = (Ok (), s3)
    \<and> t \<in> woken (time_wakers s3) \<and> (fst (poll_sleep wops tm t f1 s3) \<longleftrightarrow> w \<le> advanced as + d)"
proof -
  obtain fk k where k: "tm_sleep tm w (runtime_clock s) = (fk, k)" by (rule prod.exhaust)
  with assms(2,3) have f: "wait_until f = t0 + w" "source s0 = Static t0" by (auto simp: new_sleep_def test_now_def)
  with assms(4) have p: "f1 = f" "source s1 = Static t0" "time_wakers s1 = wr_register wops t (time_wakers s0)"
    by (auto simp: poll_sleep_def split: if_splits)
  then have "waker_registry.awaited held woken t s1"
    using waker_registry.register_held [OF assms(1)] by (simp add: waker_registry.awaited_def [OF assms(1)])
  with waker_registry.clock_run_static [OF assms(1) p(2), of tm as] obtain s2 where
    s2: "clock_run wops tm as s1 = (Ok (), s2)" "source s2 = Static (t0 + advanced as)"
    "waker_registry.awaited held woken t s2" by blast
  from waker_registry.advance_static [OF assms(1) s2(2,3), of d] obtain s3 where
    s3: "advance_time wops d s2 = (Ok (), s3)" "source s3 = Static (t0 + advanced as + d)" "t \<in> woken (time_wakers s3)"
    by blast
  have "fst (poll_sleep wops tm t f1 s3) \<longleftrightarrow> w \<le> advanced as + d"
    using f(1) p(1) s3(2) by (auto simp: poll_sleep_def)
  with s2 s3 show ?thesis by blast
qed

definition sample_timers :: "(nat, unit) timer_ops" where
  "sample_timers = \<lparr>tm_now = (\<lambda>k. (k, k + 1)), tm_sleep = (\<lambda>d k. ((), k)), tm_poll = (\<lambda>t f k. (True, (), k))\<rparr>"

lemma sample_sleeping_task:
  "\<exists>s2 s3. clock_run (multi_registry 64) sample_timers [Advance 12, Sleep_For 5]
      (set_time (multi_registry 64) 100 (new_test_time ([], []) 0)\<lparr>time_wakers := ([7], [])\<rparr>) = (Ok (), s2)
    \<and> advance_time (multi_registry 64) 8 s2 = (Ok (), s3) \<and> 7 \<in> set (snd (time_wakers s3))
    \<and> fst (poll_sleep (multi_registry 64) sample_timers 7 \<lparr>wait_until = 120, wait_future = ()\<rparr> s3)"
proof -
  let ?s = "set_time (multi_registry 64) 100 (new_test_time ([], []) 0)"
  have s: "source ?s = Static 100" "new_sleep sample_timers 20 ?s = (\<lparr>wait_until = 120, wait_future = ()\<rparr>, ?s)"
    "poll_sleep (multi_registry 64) sample_timers 7 \<lparr>wait_until = 120, wait_future = ()\<rparr> ?s
      = (False, \<lparr>wait_until = 120, wait_future = ()\<rparr>, ?s\<lparr>time_wakers := ([7], [])\<rparr>)"
    by (simp_all add: set_time_def new_test_time_def Let_def new_sleep_def test_now_def sample_timers_def poll_sleep_def
        multi_registry_def)
  show ?thesis
    using sleeping_task_wakes_when_due [OF multi.waker_registry_axioms s, of "[Advance 12, Sleep_For 5]" 8] by simp
qed

end
