(* ===== verification/Module_Tests.thy ===== *)
theory Module_Tests
  imports Test_Support Test_Time
begin

text \<open>
  The unit tests of \<open>src/src/buffer.rs\<close>, \<open>src/src/state/pid.rs\<close>, \<open>src/src/state/request.rs\<close>,
  \<open>src/src/testutils.rs\<close> and \<open>src/src/time.rs\<close>, and the theorems that they pass.
\<close>

section \<open>Byte buffer\<close>

definition test_write_to_end :: "unit outcome" where
  "test_write_to_end =
     obind (obind (push [1, 2, 3, 4] (new_buffer 4)) unwrap_sum) (\<lambda>buffer.
     obind (reaable_data buffer) (\<lambda>bs. if bs \<noteq> [1, 2, 3, 4] then Panic else
     obind (writeable_data buffer) (\<lambda>(writeable, _). if length writeable \<noteq> 0 then Panic else Ok ())))"

definition parse_string :: "buffer_cell \<Rightarrow> (nat \<times> string) outcome \<times> buffer_cell" where
  \<comment> \<open>\<open>buf.borrow().map(...)\<close>, on bytes that are ASCII\<close>
  "parse_string c =
     and_then (cell_borrow c, c) (\<lambda>c' _.
       (bufref_map (\<lambda>bytes. (length bytes, map (\<lambda>b. char_of (unat b)) bytes)) c', c'))"

definition test_buffer_cell_string_parsing :: "unit outcome" where
  "test_buffer_cell_string_parsing =
     obind (cell_borrow (new_cell 32)) (\<lambda>c.
     obind (obind (push (map of_char ''ich bin ein string'') (cell_buffer c)) unwrap_sum) (\<lambda>b.
     obind (bufref_drop (c\<lparr>cell_buffer := b\<rparr>)) (\<lambda>c.
       case parse_string c of
         (Ok (n, s), c) \<Rightarrow>
           if s \<noteq> ''ich bin ein string'' then Panic
           else
             obind (mapped_drop n c) (\<lambda>c.
             obind (cell_borrow c) (\<lambda>c.
             obind (reaable_data (cell_buffer c)) (\<lambda>bs. if bs = [] then Ok () else Panic)))
       | _ \<Rightarrow> Panic)))"

definition test_buffer_write_all :: "unit outcome" where
  "test_buffer_write_all =
     obind (writeable_data (new_buffer 4)) (\<lambda>(writeable, buffer).
     obind (unwrap_sum (commit_bytes_written (length writeable) buffer)) (\<lambda>_. Ok ()))"

lemma buffer_tests:
  "test_write_to_end = Ok ()" "test_buffer_cell_string_parsing = Ok ()" "test_buffer_write_all = Ok ()"
  by code_simp+

section \<open>Packet identifiers\<close>

text \<open>\<open>test_concurrent_access\<close> starts 50 threads that take 100 identifiers each from the static pool.
  A schedule is the list of the threads in the order in which their calls get the lock; \<open>test_next_pid\<close> is
  the case of one thread.  The identifiers taken are listed with the thread that took them.\<close>

definition take_in_thread :: "nat \<Rightarrow> (nat \<times> pid) list \<times> pid_pool \<Rightarrow> unit outcome \<times> (nat \<times> pid) list \<times> pid_pool" where
  "take_in_thread thread st =
     (case next_pid (snd st) of
        (r, p) \<Rightarrow>
          and_then (r, fst st, p) (\<lambda>pid (taken, p).
            let pids = map snd (filter (\<lambda>x. fst x = thread) taken) in
            if pid \<in> set pids then (Panic, taken, p) else (Ok (), taken @ [(thread, pid)], p)))"

definition test_concurrent_access :: "nat list \<Rightarrow> unit outcome" where
  \<comment> \<open>In the end no identifier was taken twice.\<close>
  "test_concurrent_access schedule =
     fst (and_then (run_steps (map take_in_thread schedule) ([], new_pid_pool)) (\<lambda>_ st.
       let pids = map snd (fst st) in
       (if list_all (\<lambda>pid. length (filter (\<lambda>el. el = pid) pids) = 1) pids then Ok () else Panic, st)))"

definition test_next_pid :: "unit outcome" where
  "test_next_pid = fst (run_steps (map take_in_thread (replicate 1000 0)) ([], new_pid_pool))"

definition test_pid_reuse :: "unit outcome" where
  "test_pid_reuse =
     fst (and_then (pool_next_pid new_pid_pool) (\<lambda>pid1 pool.
          and_then (pool_next_pid pool) (\<lambda>pid2 pool.
            if pid1 = pid2 then (Panic, pool)
            else
              and_then (pool_next_pid (pool_free_pid 16 pid1 pool)) (\<lambda>pid3 pool.
                (if pid1 = pid3 then Ok () else Panic, pool)))))"

lemma pid_reuse_test: "test_pid_reuse = Ok ()"
  by code_simp

definition issued :: "nat \<Rightarrow> pid_pool" where
  "issued n = \<lparr>pool = [], next_new_pid = of_nat (Suc n)\<rparr>"

lemma unat_u16: "n \<le> 65535 \<Longrightarrow> unat (of_nat n :: u16) = n"
  by (simp add: unat_of_nat take_bit_nat_eq_self_iff)

lemma next_pid_issued:
  assumes "n < 65534"
  shows "next_pid (issued n) = (Ok (of_nat (Suc n)), issued (Suc n))"
proof -
  have u: "unat (of_nat (Suc n) :: u16) = Suc n" using assms by (intro unat_u16) simp
  have "unat (0xFFFF :: u16) = 65535" by simp
  with u assms have "(of_nat (Suc n) :: u16) \<noteq> 0xFFFF" by (metis Suc_less_eq less_irrefl numeral_eq_Suc pred_numeral_simps(2,3))
  moreover from u have "(of_nat (Suc n) :: u16) \<noteq> 0" by (metis Zero_not_Suc unat_0)
  ultimately show ?thesis
    by (simp add: next_pid_def pool_next_pid_def pid_take_def pid_try_from_def issued_def Let_def add.commute)
qed

lemma take_in_threads:
  assumes "n + length schedule \<le> 65534" and "map snd taken = map of_nat [1..<Suc n]"
  shows "\<exists>taken'. run_steps (map take_in_thread schedule) (taken, issued n) = (Ok (), taken', issued (n + length schedule))
    \<and> map snd taken' = map of_nat [1..<Suc (n + length schedule)]"
  using assms
proof (induction schedule arbitrary: n taken)
  case (Cons thread schedule)
  have "(of_nat (Suc n) :: u16) \<noteq> of_nat m" if "m < Suc n" for m
  proof
    assume "(of_nat (Suc n) :: u16) = of_nat m"
    then have "unat (of_nat (Suc n) :: u16) = unat (of_nat m :: u16)" by (rule arg_cong)
    with that Cons.prems(1) unat_u16 [of "Suc n"] unat_u16 [of m] show False by simp
  qed
  then have "(of_nat (Suc n) :: u16) \<notin> of_nat ` {1..<Suc n}" by (metis imageE atLeastLessThan_iff)
  moreover have "snd ` set taken = of_nat ` {1..<Suc n}"
    using arg_cong [OF Cons.prems(2), of set] by (simp only: set_map set_upt)
  ultimately have new: "(of_nat (Suc n) :: u16) \<notin> snd ` set taken" by simp
  have "take_in_thread thread (taken, issued n) = (Ok (), taken @ [(thread, of_nat (Suc n))], issued (Suc n))"
    using Cons.prems(1) new by (auto simp: take_in_thread_def next_pid_issued image_iff)
  moreover have "map snd (taken @ [(thread, of_nat (Suc n))]) = map of_nat [1..<Suc (Suc n)]"
    using Cons.prems(2) by simp
  ultimately show ?case
    using Cons.IH [of "Suc n" "taken @ [(thread, of_nat (Suc n))]"] Cons.prems(1) by simp
qed simp

lemma once_distinct: "distinct xs \<Longrightarrow> x \<in> set xs \<Longrightarrow> length (filter (\<lambda>y. y = x) xs) = 1"
proof (induction xs)
  case (Cons y ys)
  then show ?case by (cases "y = x") (auto simp: filter_empty_conv)
qed simp

lemma concurrent_access_test:
  assumes "length schedule \<le> 65534"
  shows "test_concurrent_access schedule = Ok ()"
proof -
  have new: "new_pid_pool = issued 0" by (simp add: new_pid_pool_def issued_def)
  from take_in_threads [of 0 schedule "[]"] assms obtain taken where
    t: "run_steps (map take_in_thread schedule) ([], new_pid_pool) = (Ok (), taken, issued (length schedule))"
    "map snd taken = map of_nat [1..<Suc (length schedule)]" unfolding new by auto
  have "inj_on (of_nat :: nat \<Rightarrow> u16) {1..<Suc (length schedule)}"
    by (rule inj_on_inverseI [where g = unat]) (use assms unat_u16 in auto)
  then have "distinct (map snd taken)" unfolding t(2) by (simp add: distinct_map del: upt_Suc)
  then have "length (filter (\<lambda>el. el = pid) (map snd taken)) = 1" if "pid \<in> set (map snd taken)" for pid
    using that by (rule once_distinct)
  then show ?thesis by (simp add: test_concurrent_access_def t(1) list_all_iff Let_def)
qed

lemma next_pid_test: "test_next_pid = Ok ()"
  using take_in_threads [of 0 "replicate 1000 0" "[]"]
  by (auto simp: test_next_pid_def new_pid_pool_def issued_def simp del: map_replicate)

section \<open>Request notifications\<close>

definition next_notification :: "'w waker_ops \<Rightarrow> task \<Rightarrow> 'w request_state
    \<Rightarrow> request_notification outcome \<times> 'w request_state" where
  \<comment> \<open>\<open>NotificationFuture::poll\<close>\<close>
  "next_notification wops t s =
     (case poll_notification wops t s of
        (Some n, s') \<Rightarrow> (Ok n, s')
      | (None, s') \<Rightarrow> (Pending, s'))"

definition notified :: "'w waker_ops \<Rightarrow> request_notification \<Rightarrow> 'w request_state \<Rightarrow> unit outcome \<times> 'w request_state" where
  "notified wops n s = (Ok (), notify wops n s)"

definition test_notify :: "'w waker_ops \<Rightarrow> task \<Rightarrow> 'w request_state \<Rightarrow> bool" where
  "test_notify wops t = passes
     [assert_pending (next_notification wops t),
      notified wops NewRequest,
      assert_eq NewRequest (assert_ready (next_notification wops t)),
      assert_pending (next_notification wops t)]"

definition test_multi_notify :: "'w waker_ops \<Rightarrow> task \<Rightarrow> 'w request_state \<Rightarrow> bool" where
  "test_multi_notify wops t = passes
     [assert_pending (next_notification wops t),
      notified wops NewRequest,
      notified wops NewRequest,
      notified wops NewRequest,
      notified wops NewRequest,
      assert_eq NewRequest (assert_ready (next_notification wops t)),
      assert_pending (next_notification wops t)]"

definition test_disconnect_notify :: "'w waker_ops \<Rightarrow> task \<Rightarrow> 'w request_state \<Rightarrow> bool" where
  "test_disconnect_notify wops t = passes
     [assert_pending (next_notification wops t),
      notified wops DisconnectRequest,
      assert_eq DisconnectRequest (assert_ready (next_notification wops t)),
      assert_eq DisconnectRequest (assert_ready (next_notification wops t))]"

definition test_disconnect_multi_notify :: "'w waker_ops \<Rightarrow> task \<Rightarrow> 'w request_state \<Rightarrow> bool" where
  "test_disconnect_multi_notify wops t = passes
     [assert_pending (next_notification wops t),
      notified wops DisconnectRequest,
      notified wops NewRequest,
      notified wops NewRequest,
      assert_eq DisconnectRequest (assert_ready (next_notification wops t)),
      assert_eq DisconnectRequest (assert_ready (next_notification wops t))]"

lemma request_tests:
  "test_notify wops t (new_request_state r)" "test_multi_notify wops t (new_request_state r)"
  "test_disconnect_notify wops t (new_request_state r)" "test_disconnect_multi_notify wops t (new_request_state r)"
  by (simp_all add: test_notify_def test_multi_notify_def test_disconnect_notify_def test_disconnect_multi_notify_def
      passes_def assert_eq_def assert_ready_def assert_pending_def poll_once_def next_notification_def notified_def
      poll_notification_def new_request_state_def notify_def Let_def)

section \<open>Polling and the test clock\<close>

definition never_future :: "'t \<Rightarrow> unit outcome \<times> 't" where
  "never_future t = (Pending, t)"

definition test_poll_once :: "'t \<Rightarrow> bool" where
  "test_poll_once t \<longleftrightarrow> fst (poll_once never_future t) = Pending"

text \<open>Sleeping in the runtime moves the runtime's clock: \<open>elapse\<close>.\<close>

definition test_now_default :: "('k, 'f) timer_ops \<Rightarrow> ('k \<Rightarrow> 'k) \<Rightarrow> ('k, 'w) test_time \<Rightarrow> bool" where
  "test_now_default tm elapse s0 =
     (let s = set_default s0 in
      source s = Default_Source \<and>
      (case test_now tm s of
         (now1, s) \<Rightarrow>
           (case test_now tm (s\<lparr>runtime_clock := elapse (runtime_clock s)\<rparr>) of
              (now2, _) \<Rightarrow> now2 > now1)))"

definition test_now_static :: "'w waker_ops \<Rightarrow> ('k, 'f) timer_ops \<Rightarrow> ('k \<Rightarrow> 'k) \<Rightarrow> ('k, 'w) test_time \<Rightarrow> bool" where
  "test_now_static wops tm elapse s =
     (case test_now tm (set_static_now wops tm s) of
        (now1, s) \<Rightarrow>
          (case test_now tm (s\<lparr>runtime_clock := elapse (runtime_clock s)\<rparr>) of
             (now2, _) \<Rightarrow> now2 = now1))"

definition test_wait_static :: "'w waker_ops \<Rightarrow> ('k, 'f) timer_ops \<Rightarrow> task \<Rightarrow> ('k \<Rightarrow> 'k) \<Rightarrow> ('k, 'w) test_time \<Rightarrow> bool" where
  \<comment> \<open>Of the two futures of each \<open>select!\<close>, the other one is a sleep of the runtime.\<close>
  "test_wait_static wops tm t elapse s =
     (case new_sleep tm (from_secs 20) (set_static_now wops tm s) of
        (future, s) \<Rightarrow>
          (case poll_sleep wops tm t future s of
             (ready1, future, s) \<Rightarrow>
               \<not> ready1 \<and>
               (case advance_time wops (from_secs 21) (s\<lparr>runtime_clock := elapse (runtime_clock s)\<rparr>) of
                  (r, s) \<Rightarrow> r = Ok () \<and> fst (poll_sleep wops tm t future s))))"

lemma default_clock_test:
  assumes "\<And>k. fst (tm_now tm k) < fst (tm_now tm (elapse (snd (tm_now tm k))))"
  shows "test_now_default tm elapse s"
  using assms [of "runtime_clock s"]
  by (auto simp: test_now_default_def set_default_def test_now_def Let_def split: prod.split)

lemma polling_tests:
  "test_poll_once x" "test_now_static wops tm elapse s" "test_wait_static wops tm t elapse s"
  by (simp_all add: test_poll_once_def poll_once_def never_future_def test_now_static_def test_wait_static_def
      set_static_now_def test_now_def new_sleep_def poll_sleep_def advance_time_def from_secs_def Let_def
      split: prod.split)

end
