(* ===== verification/Connection_Tests.thy ===== *)
theory Connection_Tests
  imports Test_Support Tcp_Reading Tcp_Connecting
begin

text \<open>
  The unit tests of \<open>src/src/state/connection/mod.rs\<close> against \<open>TestTcpConnect\<close>.  They poll a future, let a
  packet arrive, and poll the same future again.  Such a future waits for bytes from the network:
  \<open>connect\<close> for the CONNACK, \<open>run_io\<close> with nothing left to send.  A future of \<open>run_io\<close> polled again behaves as a new one, its
  borrows being released at the poll before and taken anew; that of \<open>connect\<close> goes on where it waits.
\<close>

section \<open>Steps\<close>

type_synonym connection_test = "test_network tcp \<times> pid_pool"

definition broker_name :: string where
  "broker_name = ''my-mqtt-test-broker''"

definition broker_net :: "test_network network_ops" where
  "broker_net = test_net (test_dns [broker_name \<mapsto> V4 0x7F000001] Either)"

definition broker_config :: client_config where
  "broker_config = new_config (Hostname broker_name) None ''clien-12345'' None"

definition new_connection_test :: connection_test where
  "new_connection_test = (new_tcp 1024 new_test_network None broker_config, new_pid_pool)"

definition await_connack :: "codec \<Rightarrow> 'n network_ops \<Rightarrow> 'n tcp \<Rightarrow> connect_return_code outcome \<times> 'n tcp" where
  \<comment> \<open>\<open>send_connect\<close> from the point where it waits for the packet in answer\<close>
  "await_connack cd net c =
     and_then (read_packet cd net c) (\<lambda>next_packet c.
       let connack = (case snd next_packet of Connack _ code \<Rightarrow> Ok code | _ \<Rightarrow> Err ConnackError)
       in and_then (drop_packet next_packet c) (\<lambda>_ c. (connack, c)))"

lemma send_connect_awaits:
  "send_connect cd net c =
     and_then (inherent_try_write_packet cd (connect_packet_of c) c) (\<lambda>sent c.
       if \<not> sent then (Err BufferTooSmall, c)
       else and_then (tcp_send net c) (\<lambda>_ c. await_connack cd net (set_watch ConnectSent c)))"
  unfolding send_connect_def await_connack_def by (rule refl)

definition connect_again :: "codec \<Rightarrow> connection_test \<Rightarrow> unit outcome \<times> connection_test" where
  \<comment> \<open>The second poll of the future of \<open>connect\<close>\<close>
  "connect_again cd t =
     and_then (on_tcp (await_connack cd broker_net) t) (\<lambda>code t. process_connack cd broker_net code t)"

definition packet_on_wire :: "codec \<Rightarrow> connection_test \<Rightarrow> packet outcome \<times> connection_test" where
  "packet_on_wire cd t =
     (case assert_packet_written cd (network (fst t)) of
        Ok (p, n) \<Rightarrow> (Ok p, (fst t)\<lparr>network := n\<rparr>, snd t)
      | _ \<Rightarrow> (Panic, t))"

definition packet_arrives :: "codec \<Rightarrow> packet \<Rightarrow> connection_test \<Rightarrow> unit outcome \<times> connection_test" where
  "packet_arrives cd p t =
     and_then (add_packet_to_receive cd p (network (fst t)), t) (\<lambda>n t. (Ok (), (fst t)\<lparr>network := n\<rparr>, snd t))"

definition state_is :: "connection_state_value \<Rightarrow> connection_test \<Rightarrow> unit outcome \<times> connection_test" where
  "state_is v = assert_that (\<lambda>t. watch (fst t) = Some v)"

definition is_connect :: "packet \<Rightarrow> bool" where
  "is_connect p = (case p of Connect _ \<Rightarrow> True | _ \<Rightarrow> False)"

definition packet_written_is :: "codec \<Rightarrow> (packet \<Rightarrow> bool) \<Rightarrow> connection_test \<Rightarrow> unit outcome \<times> connection_test" where
  "packet_written_is cd P t = and_then (packet_on_wire cd t) (\<lambda>p. assert_that (\<lambda>_. P p))"

definition ignoring :: "('t \<Rightarrow> 'a outcome \<times> 't) \<Rightarrow> 't \<Rightarrow> unit outcome \<times> 't" where
  "ignoring f t = and_then (f t) (\<lambda>_ t. (Ok (), t))"

definition connect_steps :: "codec \<Rightarrow> (connection_test \<Rightarrow> unit outcome \<times> connection_test) list" where
  \<comment> \<open>The helper \<open>connect\<close> of the tests\<close>
  "connect_steps cd =
     [assert_pending (tcp_connect cd broker_net),
      packet_written_is cd is_connect,
      packet_arrives cd (Connack False Accepted),
      unwrap_ready (connect_again cd)]"

definition test_tcp_connect :: "codec \<Rightarrow> connection_test \<Rightarrow> bool" where
  "test_tcp_connect cd = passes
     [assert_pending (tcp_connect cd broker_net),
      state_is ConnectSent,
      packet_written_is cd (\<lambda>p. case p of Connect c \<Rightarrow> client_id c = ''clien-12345'' | _ \<Rightarrow> False),
      packet_arrives cd (Connack False Accepted),
      unwrap_ready (connect_again cd),
      state_is Connected]"

definition run_io_step :: "codec \<Rightarrow> connection_test \<Rightarrow> (nat \<times> packet) outcome \<times> connection_test" where
  "run_io_step cd = on_tcp (run_io cd broker_net)"

definition run_io_nonblocking_step :: "codec \<Rightarrow> connection_test \<Rightarrow> (nat \<times> packet) option outcome \<times> connection_test" where
  "run_io_nonblocking_step cd = on_tcp (run_io_nonblocking cd broker_net)"

definition nothing_on_wire :: "connection_test \<Rightarrow> unit outcome \<times> connection_test" where
  "nothing_on_wire t = (assert_nothing_written (network (fst t)), t)"

definition test_run_io_read :: "codec \<Rightarrow> connection_test \<Rightarrow> bool" where
  "test_run_io_read cd = passes (connect_steps cd @
     [assert_pending (run_io_step cd),
      assert_pending (run_io_step cd),
      assert_pending (run_io_step cd),
      assert_pending (run_io_step cd),
      packet_arrives cd Pingresp,
      ignoring (unwrap_ready (run_io_step cd))])"

definition test_run_io_read_write :: "codec \<Rightarrow> connection_test \<Rightarrow> bool" where
  "test_run_io_read_write cd = passes (connect_steps cd @
     [assert_eq True (unwrap_ready (on_tcp (inherent_try_write_packet cd Pingreq))),
      assert_pending (run_io_step cd),
      packet_written_is cd (\<lambda>p. p = Pingreq),
      packet_arrives cd Pingresp,
      ignoring (unwrap_ready (run_io_step cd))])"

definition test_run_io_nonblocking_read_write :: "codec \<Rightarrow> connection_test \<Rightarrow> bool" where
  "test_run_io_nonblocking_read_write cd = passes (connect_steps cd @
     [ignoring (unwrap_ready (run_io_nonblocking_step cd)),
      nothing_on_wire,
      assert_eq True (unwrap_ready (on_tcp (inherent_try_write_packet cd Pingreq))),
      assert_eq None (unwrap_ready (run_io_nonblocking_step cd))])"

definition test_disconnect :: "codec \<Rightarrow> connection_test \<Rightarrow> bool" where
  "test_disconnect cd = passes (connect_steps cd @
     [unwrap_ready (on_tcp (tcp_disconnect cd broker_net)),
      packet_written_is cd (\<lambda>p. p = Disconnect),
      state_is Disconnected])"

section \<open>A quiet connection\<close>

text \<open>No reference to a buffer is alive and nothing received is left: \<open>out\<close> are the bytes on the
  wire, \<open>inc\<close> those to arrive, \<open>q\<close> those in the send buffer.\<close>

definition quiet_tcp :: "byte list \<Rightarrow> byte list \<Rightarrow> byte list \<Rightarrow> test_network tcp \<Rightarrow> bool" where
  "quiet_tcp out inc q c \<longleftrightarrow> wf_tcp c \<and> idle c \<and> connection c \<and> tcp_config c = broker_config
     \<and> send_queue c = q \<and> recv_queue c = [] \<and> send_capacity c = 1024 \<and> recv_capacity c = 1024
     \<and> network c = \<lparr>bytes_sent = out, bytes_received = inc\<rparr>"

lemma quiet_write:
  assumes "quiet_tcp out inc q c" and "encodes_as cd p bs" and "length q + length bs \<le> 1024"
  shows "\<exists>b. inherent_try_write_packet cd p c = (Ok True, c\<lparr>send_buffer := b\<rparr>) \<and> quiet_tcp out inc (q @ bs) (c\<lparr>send_buffer := b\<rparr>)"
proof -
  from assms(1) have c: "wf_tcp c" "borrows (send_buffer c) = 0" by (simp_all add: quiet_tcp_def idle_def)
  from inherent_write_exact [OF c assms(2)] assms(1,3) obtain c' where
    w: "inherent_try_write_packet cd p c = (Ok True, c')" "send_queue c' = q @ bs" "wf_tcp c'"
      "borrows (send_buffer c') = 0" "send_capacity c' = 1024" by (auto simp: quiet_tcp_def)
  have "\<exists>b. c' = c\<lparr>send_buffer := b\<rparr>"
    using test.write_into [OF c(2,1), of cd p]
  proof (elim exE conjE)
    fix n b1
    assume eq: "inherent_try_write_packet cd p c =
      (case encode_slice cd p n of
        Inr bytes \<Rightarrow> (case store bytes b1 of
          Ok b2 \<Rightarrow> (Ok True, c\<lparr>send_buffer := \<lparr>cell_buffer = b2, borrows = 0\<rparr>\<rparr>)
        | r \<Rightarrow> (obind r (\<lambda>_. Ok True), c\<lparr>send_buffer := \<lparr>cell_buffer = b1, borrows = 0\<rparr>\<rparr>))
      | Inl WriteZero \<Rightarrow> (if is_max_capacity b1 then Err BufferTooSmall else Ok False,
          c\<lparr>send_buffer := \<lparr>cell_buffer = b1, borrows = 0\<rparr>\<rparr>)
      | Inl err \<Rightarrow> (Err (CodecError err), c\<lparr>send_buffer := \<lparr>cell_buffer = b1, borrows = 0\<rparr>\<rparr>))"
      and s: "\<forall>bs. length bs \<le> n \<longrightarrow> (\<exists>b2. store bs b1 = Ok b2 \<and> wf_buffer b2 \<and> contents b2 = send_queue c @ bs)"
    show ?thesis
    proof (cases "length bs \<le> n")
      case True
      with s obtain b2 where "store bs b1 = Ok b2" by blast
      with eq w(1) True assms(2) show ?thesis by (auto simp: encodes_as_def)
    next
      case False
      with eq w(1) assms(2) show ?thesis by (auto simp: encodes_as_def)
    qed
  qed
  with w assms(1) show ?thesis by (auto simp: quiet_tcp_def idle_def recv_queue_def recv_capacity_def)
qed

lemma quiet_send:
  assumes "quiet_tcp out inc q c"
  shows "\<exists>b. tcp_send broker_net c = (Ok (), c\<lparr>send_buffer := b, network := \<lparr>bytes_sent = out @ q, bytes_received = inc\<rparr>\<rparr>)
    \<and> quiet_tcp (out @ q) inc [] (c\<lparr>send_buffer := b, network := \<lparr>bytes_sent = out @ q, bytes_received = inc\<rparr>\<rparr>)"
proof -
  let ?b = "cell_buffer (send_buffer c)"
  from assms have wf: "wf_buffer ?b" by (simp add: quiet_tcp_def wf_tcp_def)
  from sb.discard [OF wf, of "length (contents ?b)"] obtain b where
    b: "consume (length (contents ?b)) ?b = Ok b" "wf_buffer b" "contents b = []" "capacity b = capacity ?b" by auto
  have q: "contents ?b = q" using assms by (simp add: quiet_tcp_def send_queue_def)
  obtain bor where cell: "send_buffer c = \<lparr>cell_buffer = ?b, borrows = 0\<rparr>" using assms by (cases "send_buffer c") (simp add: quiet_tcp_def idle_def)
  let ?n = "\<lparr>bytes_sent = out @ q, bytes_received = inc\<rparr>"
  show ?thesis
  proof (cases "q = []")
    case True
    with assms wf q show ?thesis
      by (intro exI [of _ "send_buffer c"]) (simp add: tcp_send_def with_send_buffer_def cell_borrow_def bufref_drop_def
        has_remaining_len_wf quiet_tcp_def idle_def wf_tcp_def recv_queue_def recv_capacity_def send_queue_def send_capacity_def)
  next
    case False
    with assms wf q b show ?thesis
      by (intro exI [of _ "\<lparr>cell_buffer = b, borrows = 0\<rparr>"])
        (simp add: tcp_send_def with_send_buffer_def cell_borrow_def bufref_drop_def has_remaining_len_wf quiet_tcp_def idle_def
          require_connection_def write_readable_def on_send_def look_def unit_step_def reaable_data_wf network_result_def
          broker_net_def test_net_def test_write_def test_flush_def wf_tcp_def recv_queue_def recv_capacity_def
          send_queue_def send_capacity_def)
  qed
qed

text \<open>The receive buffer starts at its front.\<close>

definition fresh :: "test_network tcp \<Rightarrow> bool" where
  "fresh c \<longleftrightarrow> write_position (cell_buffer (recv_buffer c)) = 0"

lemmas quiet_parts = quiet_tcp_def idle_def wf_tcp_def recv_queue_def recv_capacity_def send_queue_def send_capacity_def

lemma fresh_writeable:
  assumes "wf_buffer b" and "write_position b = 0" and "capacity b = 1024"
  shows "writeable_data b = Ok (data b, b)" "length (data b) = 1024"
    and "length inc \<le> 1024 \<Longrightarrow> \<exists>b'. store inc b = Ok b' \<and> wf_buffer b' \<and> contents b' = inc \<and> capacity b' = 1024"
proof -
  show 1: "length (data b) = 1024" using assms(3) by (simp add: capacity_def)
  with assms(2) show "writeable_data b = Ok (data b, b)" by (simp add: writeable_data_def)
  have "contents b = []" using assms(2) by (simp add: contents_def)
  with sb.put [OF assms(1), of inc] assms(2,3) 1
  show "length inc \<le> 1024 \<Longrightarrow> \<exists>b'. store inc b = Ok b' \<and> wf_buffer b' \<and> contents b' = inc \<and> capacity b' = 1024"
    by (simp add: avail_def)
qed

lemma fresh_read_writeable:
  assumes "wf_buffer (cell_buffer (recv_buffer c))" and "fresh c" and "recv_capacity c = 1024"
    and "network c = \<lparr>bytes_sent = out, bytes_received = inc\<rparr>" and "length inc \<le> 1024"
  shows "inc = [] \<Longrightarrow> read_writeable broker_net c = (Pending, c)"
    and "inc \<noteq> [] \<Longrightarrow> \<exists>b. read_writeable broker_net c =
      (Ok (length inc), c\<lparr>network := \<lparr>bytes_sent = out, bytes_received = []\<rparr>, recv_buffer := (recv_buffer c)\<lparr>cell_buffer := b\<rparr>\<rparr>)
      \<and> wf_buffer b \<and> contents b = inc \<and> capacity b = 1024"
proof -
  let ?b = "cell_buffer (recv_buffer c)"
  have pos: "write_position ?b = 0" "capacity ?b = 1024"
    using assms(2,3) by (simp_all add: fresh_def recv_capacity_def)
  note w = fresh_writeable [OF assms(1) pos]
  have same: "c\<lparr>network := \<lparr>bytes_sent = out, bytes_received = inc\<rparr>\<rparr> = c" using assms(4) by (cases c) simp
  show "read_writeable broker_net c = (Pending, c)" if "inc = []"
    using w(1,2) assms(4) that same
    by (simp add: read_writeable_def on_recv_def network_result_def broker_net_def test_net_def test_read_def)
  show "\<exists>b. read_writeable broker_net c =
      (Ok (length inc), c\<lparr>network := \<lparr>bytes_sent = out, bytes_received = []\<rparr>, recv_buffer := (recv_buffer c)\<lparr>cell_buffer := b\<rparr>\<rparr>)
      \<and> wf_buffer b \<and> contents b = inc \<and> capacity b = 1024" if "inc \<noteq> []"
  proof -
    from w(3) [OF assms(5)] obtain b' where "store inc ?b = Ok b'" "wf_buffer b'" "contents b' = inc" "capacity b' = 1024" by blast
    with w(1,2) assms(4,5) that show ?thesis
      by (intro exI [of _ b'])
        (simp add: read_writeable_def on_recv_def unit_step_def network_result_def broker_net_def test_net_def test_read_def)
  qed
qed

text \<open>A packet travels as \<open>bs\<close>.\<close>

definition travels :: "codec \<Rightarrow> packet \<Rightarrow> byte list \<Rightarrow> bool" where
  "travels cd p bs \<longleftrightarrow> encodes_as cd p bs \<and> decodes_as cd p bs \<and> bs \<noteq> [] \<and> length bs \<le> 512"

lemma travels_decodes:
  assumes "travels cd p bs"
  shows "decode_slice_with_len cd [] = Inr None" "decode_slice_with_len cd bs = Inr (Some (length bs, p))"
    "encode_slice cd p 1024 = Inr bs"
proof -
  have "\<forall>rest. decode_slice_with_len cd (bs @ rest) = Inr (Some (length bs, p))"
    and k: "\<forall>k < length bs. decode_slice_with_len cd (take k bs) = Inr None"
    using assms unfolding travels_def decodes_as_def by blast+
  then show "decode_slice_with_len cd bs = Inr (Some (length bs, p))" by (metis append_Nil2)
  from k [rule_format, of 0] assms show "decode_slice_with_len cd [] = Inr None" by (simp add: travels_def)
  show "encode_slice cd p 1024 = Inr bs" using assms by (simp add: travels_def encodes_as_def)
qed

lemma try_read_quiet:
  assumes "quiet_tcp out inc q c" and "decode_slice_with_len cd [] = Inr None"
  shows "try_read_packet cd c = (Ok None, c)"
  using assms try_read_packet_wf [of c cd] by (simp add: quiet_tcp_def idle_def wf_tcp_def)

lemma read_pending:
  assumes "quiet_tcp out [] q c" and "fresh c" and "decode_slice_with_len cd [] = Inr None"
  shows "read_packet cd broker_net c = (Pending, c)"
proof -
  obtain b where b: "recv_buffer c = \<lparr>cell_buffer = b, borrows = 0\<rparr>"
    using assms(1) by (cases "recv_buffer c") (simp add: quiet_tcp_def idle_def)
  let ?c = "c\<lparr>recv_buffer := \<lparr>cell_buffer = b, borrows = 1\<rparr>\<rparr>"
  have "read_writeable broker_net ?c = (Pending, ?c)"
    by (rule fresh_read_writeable(1) [where out = out and inc = "[]"]) (use assms b in \<open>simp_all add: quiet_parts fresh_def\<close>)
  moreover have "c\<lparr>recv_buffer := \<lparr>cell_buffer = b, borrows = 0\<rparr>\<rparr> = c" using b by (cases c) simp
  ultimately have "with_recv_buffer (read_writeable broker_net) c = (Pending, c)"
    using b by (simp add: with_recv_buffer_def cell_borrow_def bufref_drop_def)
  with assms(1) try_read_quiet [OF assms(1,3)] show ?thesis
    by (simp add: read_packet_def require_connection_def quiet_tcp_def run_loop_leave [where r = Pending])
qed

lemma with_recv_read:
  assumes "quiet_tcp out bs q c" and "fresh c" and "bs \<noteq> []" and "length bs \<le> 1024"
  shows "\<exists>b. with_recv_buffer (read_writeable broker_net) c =
      (Ok (length bs), c\<lparr>network := \<lparr>bytes_sent = out, bytes_received = []\<rparr>, recv_buffer := \<lparr>cell_buffer = b, borrows = 0\<rparr>\<rparr>)
    \<and> wf_buffer b \<and> contents b = bs \<and> capacity b = 1024"
proof -
  let ?c = "c\<lparr>recv_buffer := (recv_buffer c)\<lparr>borrows := 1\<rparr>\<rparr>"
  have c: "wf_buffer (cell_buffer (recv_buffer ?c))" "fresh ?c" "recv_capacity ?c = 1024"
    "network ?c = \<lparr>bytes_sent = out, bytes_received = bs\<rparr>" "borrows (recv_buffer c) = 0"
    using assms(1,2) by (simp_all add: quiet_parts fresh_def)
  from fresh_read_writeable(2) [OF c(1-4) assms(4,3)] obtain b where "read_writeable broker_net ?c =
      (Ok (length bs), ?c\<lparr>network := \<lparr>bytes_sent = out, bytes_received = []\<rparr>, recv_buffer := (recv_buffer ?c)\<lparr>cell_buffer := b\<rparr>\<rparr>)"
      "wf_buffer b" "contents b = bs" "capacity b = 1024" by blast
  with c(5) show ?thesis
    by (intro exI [of _ b]) (simp add: with_recv_buffer_def cell_borrow_def bufref_drop_def)
qed

lemma try_read_arrived:
  assumes "wf_buffer b" and "contents b = bs" and "travels cd p bs"
  shows "try_read_packet cd (c\<lparr>recv_buffer := \<lparr>cell_buffer = b, borrows = 0\<rparr>\<rparr>) =
    (Ok (Some (length bs, p)), c\<lparr>recv_buffer := \<lparr>cell_buffer = b, borrows = 1\<rparr>\<rparr>)"
  using assms(1,2) travels_decodes(2) [OF assms(3)]
    try_read_packet_wf [of "c\<lparr>recv_buffer := \<lparr>cell_buffer = b, borrows = 0\<rparr>\<rparr>" cd] by (simp add: recv_queue_def)

lemma read_arrived:
  assumes "quiet_tcp out bs q c" and "fresh c" and "travels cd p bs"
  shows "\<exists>c1 b. read_packet cd broker_net c = (Ok (length bs, p), c1)
    \<and> drop_packet (length bs, p) c1 =
        (Ok (), c\<lparr>network := \<lparr>bytes_sent = out, bytes_received = []\<rparr>, recv_buffer := \<lparr>cell_buffer = b, borrows = 0\<rparr>\<rparr>)
    \<and> quiet_tcp out [] q (c\<lparr>network := \<lparr>bytes_sent = out, bytes_received = []\<rparr>, recv_buffer := \<lparr>cell_buffer = b, borrows = 0\<rparr>\<rparr>)"
proof -
  have bs: "bs \<noteq> []" "length bs \<le> 1024" using assms(3) by (simp_all add: travels_def)
  from with_recv_read [OF assms(1,2) bs] obtain b where b: "with_recv_buffer (read_writeable broker_net) c =
      (Ok (length bs), c\<lparr>network := \<lparr>bytes_sent = out, bytes_received = []\<rparr>, recv_buffer := \<lparr>cell_buffer = b, borrows = 0\<rparr>\<rparr>)"
    "wf_buffer b" "contents b = bs" "capacity b = 1024" by blast
  from sb.discard [OF b(2), of "length bs"] b(3,4) obtain b' where
    b': "consume (length bs) b = Ok b'" "wf_buffer b'" "contents b' = []" "capacity b' = 1024" by auto
  let ?n = "\<lparr>bytes_sent = out, bytes_received = []\<rparr>"
  let ?body = "\<lambda>c. and_then (try_read_packet cd c) (\<lambda>r c. case r of Some packet \<Rightarrow> (Ok (Some packet), c)
    | None \<Rightarrow> and_then (with_recv_buffer (read_writeable broker_net) c) (\<lambda>_ c. (Ok None, c)))"
  let ?c1 = "c\<lparr>network := ?n, recv_buffer := \<lparr>cell_buffer = b, borrows = 0\<rparr>\<rparr>"
  let ?c2 = "c\<lparr>network := ?n, recv_buffer := \<lparr>cell_buffer = b, borrows = 1\<rparr>\<rparr>"
  have "?body c = (Ok None, ?c1)"
    using try_read_quiet [OF assms(1) travels_decodes(1) [OF assms(3)]] b(1) by simp
  moreover have "run_loop ?body ?c1 = (Ok (length bs, p), ?c2)"
    using try_read_arrived [OF b(2,3) assms(3), of "c\<lparr>network := ?n\<rparr>"]
    by (simp add: run_loop_leave [where r = "Ok (Some (length bs, p))"])
  ultimately have "run_loop ?body c = (Ok (length bs, p), ?c2)"
    using run_loop_again [of ?body c ?c1] by simp
  then have "read_packet cd broker_net c = (Ok (length bs, p), ?c2)"
    using assms(1) by (simp add: read_packet_def require_connection_def quiet_tcp_def)
  moreover have "drop_packet (length bs, p) ?c2 = (Ok (), c\<lparr>network := ?n, recv_buffer := \<lparr>cell_buffer = b', borrows = 0\<rparr>\<rparr>)"
    using b'(1) by (simp add: drop_packet_def mapped_drop_def consume_def bufref_drop_def)
  ultimately show ?thesis
    using assms(1) b' by (intro exI [of _ ?c2] exI [of _ b']) (simp add: quiet_parts)
qed

lemma store_nothing: "wf_buffer b \<Longrightarrow> store [] b = Ok b"
  by (cases b) (simp add: store_def fill_writeable_def commit_bytes_written_def wf_buffer_def)

lemma flip_quiet:
  assumes "quiet_tcp out inc q c"
  obtains b where "flip (cell_buffer (recv_buffer c)) = Ok b" "wf_buffer b" "contents b = []" "capacity b = 1024" "write_position b = 0"
proof -
  have b: "wf_buffer (cell_buffer (recv_buffer c))" "contents (cell_buffer (recv_buffer c)) = []"
    "capacity (cell_buffer (recv_buffer c)) = 1024" using assms by (simp_all add: quiet_parts)
  from b(1) show ?thesis by (rule flip_wf) (use that b in simp)
qed

lemma send_receive_arrived:
  assumes "quiet_tcp out bs [] c" and "bs \<noteq> []" and "length bs \<le> 1024"
  shows "\<exists>b. send_receive broker_net c =
      (Ok (), c\<lparr>network := \<lparr>bytes_sent = out, bytes_received = []\<rparr>, recv_buffer := \<lparr>cell_buffer = b, borrows = 0\<rparr>\<rparr>)
    \<and> wf_buffer b \<and> contents b = bs \<and> capacity b = 1024"
proof -
  obtain b where b: "flip (cell_buffer (recv_buffer c)) = Ok b" "wf_buffer b" "contents b = []" "capacity b = 1024" "write_position b = 0"
    by (rule flip_quiet [OF assms(1)])
  obtain s where s: "send_buffer c = \<lparr>cell_buffer = s, borrows = 0\<rparr>" "\<not> has_remaining_len s"
    using assms(1) has_remaining_len_wf [of "cell_buffer (send_buffer c)"] by (cases "send_buffer c") (auto simp: quiet_parts)
  let ?c = "c\<lparr>send_buffer := \<lparr>cell_buffer = s, borrows = 1\<rparr>, recv_buffer := \<lparr>cell_buffer = b, borrows = 1\<rparr>\<rparr>"
  let ?n = "\<lparr>bytes_sent = out, bytes_received = []\<rparr>"
  let ?body = "\<lambda>c. if has_remaining_len (cell_buffer (send_buffer c)) then
      and_then (write_readable broker_net c) (\<lambda>_ c. and_then (network_result (nw_flush broker_net) c) (\<lambda>_ c.
      and_then (try_read_writeable broker_net c) (\<lambda>n c. if 0 < n then (Ok (Some True), c) else (Ok None, c))))
    else (Ok (Some False), c)"
  have loop: "run_loop ?body ?c = (Ok False, ?c)"
    using run_loop_leave [of ?body ?c "Ok (Some False)" ?c] s(2) by simp
  have net: "network ?c = \<lparr>bytes_sent = out, bytes_received = bs\<rparr>" using assms(1) by (simp add: quiet_tcp_def)
  from fresh_read_writeable(2) [of ?c, OF _ _ _ net assms(3,2)] b obtain b' where
    r: "read_writeable broker_net ?c = (Ok (length bs), ?c\<lparr>network := ?n, recv_buffer := \<lparr>cell_buffer = b', borrows = 1\<rparr>\<rparr>)"
    "wf_buffer b'" "contents b' = bs" "capacity b' = 1024" by (auto simp: fresh_def recv_capacity_def)
  obtain r0 where cell: "recv_buffer c = \<lparr>cell_buffer = r0, borrows = 0\<rparr>"
    using assms(1) by (cases "recv_buffer c") (simp add: quiet_tcp_def idle_def)
  have same: "c\<lparr>send_buffer := \<lparr>cell_buffer = s, borrows = 0\<rparr>\<rparr> = c" using s(1) by (cases c) simp
  have "send_receive broker_net c = (Ok (), c\<lparr>send_buffer := \<lparr>cell_buffer = s, borrows = 0\<rparr>, network := ?n, recv_buffer := \<lparr>cell_buffer = b', borrows = 0\<rparr>\<rparr>)"
    using b(1) s(1) loop r(1) assms(1) cell
    by (subst send_receive_def)
      (simp add: with_send_buffer_def with_recv_buffer_def cell_borrow_def bufref_drop_def
        on_recv_def unit_step_def require_connection_def quiet_tcp_def idle_def)
  with same r show ?thesis by (intro exI [of _ b']) simp
qed

lemma write_loop_silent:
  assumes "wf_buffer s" and "contents s = q" and "wf_buffer b" and "contents b = []" and "capacity b = 1024" and "write_position b = 0"
    and "c = d\<lparr>send_buffer := \<lparr>cell_buffer = s, borrows = 1\<rparr>, recv_buffer := \<lparr>cell_buffer = b, borrows = 1\<rparr>,
      network := \<lparr>bytes_sent = out, bytes_received = []\<rparr>\<rparr>"
  shows "\<exists>s'. run_loop (\<lambda>c. if has_remaining_len (cell_buffer (send_buffer c)) then
      and_then (write_readable broker_net c) (\<lambda>_ c. and_then (network_result (nw_flush broker_net) c) (\<lambda>_ c.
      and_then (try_read_writeable broker_net c) (\<lambda>n c. if 0 < n then (Ok (Some True), c) else (Ok None, c))))
    else (Ok (Some False), c)) c =
    (Ok False, d\<lparr>send_buffer := \<lparr>cell_buffer = s', borrows = 1\<rparr>, recv_buffer := \<lparr>cell_buffer = b, borrows = 1\<rparr>,
      network := \<lparr>bytes_sent = out @ q, bytes_received = []\<rparr>\<rparr>)
    \<and> wf_buffer s' \<and> contents s' = [] \<and> capacity s' = capacity s"
proof -
  let ?body = "\<lambda>c. if has_remaining_len (cell_buffer (send_buffer c)) then
      and_then (write_readable broker_net c) (\<lambda>_ c. and_then (network_result (nw_flush broker_net) c) (\<lambda>_ c.
      and_then (try_read_writeable broker_net c) (\<lambda>n c. if 0 < n then (Ok (Some True), c) else (Ok None, c))))
    else (Ok (Some False), c)"
  have stop: "run_loop ?body c = (Ok False, c)" if "wf_buffer (cell_buffer (send_buffer c))" "contents (cell_buffer (send_buffer c)) = []" for c
    using run_loop_leave [of ?body c "Ok (Some False)" c] has_remaining_len_wf [OF that(1)] that(2) by simp
  show ?thesis
  proof (cases "q = []")
    case True
    with assms stop [of c] show ?thesis by (intro exI [of _ s]) simp
  next
    case False
    from sb.discard [OF assms(1), of "length q"] assms(2) obtain s' where
      s': "consume (length q) s = Ok s'" "wf_buffer s'" "contents s' = []" "capacity s' = capacity s" by auto
    let ?d = "d\<lparr>send_buffer := \<lparr>cell_buffer = s', borrows = 1\<rparr>, recv_buffer := \<lparr>cell_buffer = b, borrows = 1\<rparr>,
      network := \<lparr>bytes_sent = out @ q, bytes_received = []\<rparr>\<rparr>"
    have "?body c = (Ok None, ?d)"
      using False assms s' fresh_writeable [OF assms(3,6,5)] store_nothing [OF assms(3)]
      by (simp add: has_remaining_len_wf write_readable_def on_send_def look_def unit_step_def reaable_data_wf network_result_def
          try_read_writeable_def on_recv_def network_try_read_def broker_net_def test_net_def test_write_def test_flush_def test_read_def)
    moreover have "run_loop ?body ?d = (Ok False, ?d)" using stop [of ?d] s' by simp
    ultimately have "run_loop ?body c = (Ok False, ?d)" using run_loop_again [of ?body c ?d] by simp
    with s' show ?thesis by blast
  qed
qed

lemma send_receive_silent:
  assumes "quiet_tcp out [] q c"
  shows "\<exists>c'. send_receive broker_net c = (Pending, c') \<and> quiet_tcp (out @ q) [] [] c' \<and> watch c' = watch c"
proof -
  obtain b where b: "flip (cell_buffer (recv_buffer c)) = Ok b" "wf_buffer b" "contents b = []" "capacity b = 1024" "write_position b = 0"
    by (rule flip_quiet [OF assms])
  obtain s where s: "send_buffer c = \<lparr>cell_buffer = s, borrows = 0\<rparr>" "wf_buffer s" "contents s = q" "capacity s = 1024"
    using assms by (cases "send_buffer c") (auto simp: quiet_parts)
  obtain r0 where cell: "recv_buffer c = \<lparr>cell_buffer = r0, borrows = 0\<rparr>"
    using assms by (cases "recv_buffer c") (simp add: quiet_tcp_def idle_def)
  let ?c = "c\<lparr>send_buffer := \<lparr>cell_buffer = s, borrows = 1\<rparr>, recv_buffer := \<lparr>cell_buffer = b, borrows = 1\<rparr>\<rparr>"
  have c: "?c = c\<lparr>send_buffer := \<lparr>cell_buffer = s, borrows = 1\<rparr>, recv_buffer := \<lparr>cell_buffer = b, borrows = 1\<rparr>,
      network := \<lparr>bytes_sent = out, bytes_received = []\<rparr>\<rparr>"
    using assms by (cases c) (simp add: quiet_tcp_def)
  from write_loop_silent [OF s(2,3) b(2-5) c] obtain s' where l: "run_loop (\<lambda>c. if has_remaining_len (cell_buffer (send_buffer c)) then
      and_then (write_readable broker_net c) (\<lambda>_ c. and_then (network_result (nw_flush broker_net) c) (\<lambda>_ c.
      and_then (try_read_writeable broker_net c) (\<lambda>n c. if 0 < n then (Ok (Some True), c) else (Ok None, c))))
    else (Ok (Some False), c)) ?c = (Ok False, c\<lparr>send_buffer := \<lparr>cell_buffer = s', borrows = 1\<rparr>, recv_buffer := \<lparr>cell_buffer = b, borrows = 1\<rparr>,
      network := \<lparr>bytes_sent = out @ q, bytes_received = []\<rparr>\<rparr>)"
    "wf_buffer s'" "contents s' = []" "capacity s' = capacity s" by blast
  let ?d = "c\<lparr>send_buffer := \<lparr>cell_buffer = s', borrows = 1\<rparr>, recv_buffer := \<lparr>cell_buffer = b, borrows = 1\<rparr>,
      network := \<lparr>bytes_sent = out @ q, bytes_received = []\<rparr>\<rparr>"
  have r: "read_writeable broker_net ?d = (Pending, ?d)"
    by (rule fresh_read_writeable(1) [where inc = "[]" and out = "out @ q"]) (simp_all add: b fresh_def recv_capacity_def)
  let ?e = "c\<lparr>send_buffer := \<lparr>cell_buffer = s', borrows = 0\<rparr>, recv_buffer := \<lparr>cell_buffer = b, borrows = 0\<rparr>,
      network := \<lparr>bytes_sent = out @ q, bytes_received = []\<rparr>\<rparr>"
  have "send_receive broker_net c = (Pending, ?e)"
    using b(1) s(1) l(1) r assms cell
    by (subst send_receive_def)
      (simp add: with_send_buffer_def with_recv_buffer_def cell_borrow_def bufref_drop_def
        on_recv_def unit_step_def require_connection_def quiet_tcp_def idle_def)
  moreover have "quiet_tcp (out @ q) [] [] ?e" using assms b s(4) l by (simp add: quiet_parts)
  ultimately show ?thesis by (intro exI [of _ ?e]) simp
qed

section \<open>Reading and writing\<close>

lemma run_io_silent:
  assumes "quiet_tcp out [] q c" and "watch c = Some Connected"
  shows "\<exists>c'. run_io cd broker_net c = (Pending, c') \<and> quiet_tcp (out @ q) [] [] c' \<and> watch c' = Some Connected"
proof -
  from send_receive_silent [OF assms(1)] obtain c' where
    "send_receive broker_net c = (Pending, c')" "quiet_tcp (out @ q) [] [] c'" "watch c' = watch c" by blast
  with assms(2) show ?thesis
    by (intro exI [of _ c']) (simp add: run_io_def run_loop_leave [where r = Pending])
qed

lemma run_io_arrived:
  assumes "quiet_tcp out bs [] c" and "watch c = Some Connected" and "travels cd p bs"
  shows "\<exists>c'. run_io cd broker_net c = (Ok (length bs, p), c')"
proof -
  have bs: "bs \<noteq> []" "length bs \<le> 1024" using assms(3) by (simp_all add: travels_def)
  from send_receive_arrived [OF assms(1) bs] obtain b where b: "send_receive broker_net c =
      (Ok (), c\<lparr>network := \<lparr>bytes_sent = out, bytes_received = []\<rparr>, recv_buffer := \<lparr>cell_buffer = b, borrows = 0\<rparr>\<rparr>)"
      "wf_buffer b" "contents b = bs" "capacity b = 1024" by blast
  with try_read_arrived [OF b(2,3) assms(3), of "c\<lparr>network := \<lparr>bytes_sent = out, bytes_received = []\<rparr>\<rparr>"] assms(2)
  show ?thesis by (simp add: run_io_def run_loop_leave [where r = "Ok (Some (length bs, p))"])
qed

lemma run_io_nonblocking_silent:
  assumes "quiet_tcp out [] q c" and "watch c = Some Connected" and "decode_slice_with_len cd [] = Inr None"
  shows "\<exists>c'. run_io_nonblocking cd broker_net c = (Ok None, c') \<and> quiet_tcp (out @ q) [] [] c' \<and> watch c' = Some Connected"
proof -
  let ?n = "\<lparr>bytes_sent = out @ q, bytes_received = []\<rparr>"
  from quiet_send [OF assms(1)] obtain b where b: "tcp_send broker_net c = (Ok (), c\<lparr>send_buffer := b, network := ?n\<rparr>)"
    "quiet_tcp (out @ q) [] [] (c\<lparr>send_buffer := b, network := ?n\<rparr>)" by blast
  obtain r where r: "recv_buffer c = \<lparr>cell_buffer = r, borrows = 0\<rparr>" "wf_buffer r"
    using assms(1) by (cases "recv_buffer c") (auto simp: quiet_parts)
  from writeable_data_wf [OF r(2)] obtain sl r' where w: "writeable_data r = Ok (sl, r')" "wf_buffer r'"
    "contents r' = contents r" "capacity r' = capacity r" by metis
  let ?d = "c\<lparr>send_buffer := b, network := ?n, recv_buffer := \<lparr>cell_buffer = r', borrows = 0\<rparr>\<rparr>"
  have d: "quiet_tcp (out @ q) [] [] ?d" using b(2) w r by (simp add: quiet_parts)
  have "with_recv_buffer (try_read_writeable broker_net) (c\<lparr>send_buffer := b, network := ?n\<rparr>) = (Ok 0, ?d)"
    using w(1) store_nothing [OF w(2)] r(1)
    by (simp add: with_recv_buffer_def cell_borrow_def bufref_drop_def try_read_writeable_def on_recv_def unit_step_def
        network_try_read_def broker_net_def test_net_def test_read_def)
  moreover have "try_read_packet cd ?d = (Ok None, ?d)" using try_read_quiet [OF d assms(3)] .
  ultimately have "run_io_nonblocking cd broker_net c = (Ok None, ?d)"
    using b(1) assms(1,2) by (simp add: run_io_nonblocking_def require_connection_def quiet_tcp_def)
  with d assms(2) show ?thesis by (intro exI [of _ ?d]) simp
qed

section \<open>The tests pass\<close>

text \<open>The packets of the tests and how they travel.\<close>

definition connect_packet :: packet where
  "connect_packet = connect_packet_of (fst new_connection_test)"

lemma reset_new: "reset_buffers (fst new_connection_test) = (Ok (), fst new_connection_test)"
  by (simp add: new_connection_test_def new_tcp_def reset_buffers_def with_recv_buffer_def with_send_buffer_def cell_borrow_def
      bufref_drop_def on_recv_def on_send_def unit_step_def new_cell_def buffer_reset_def new_buffer_def)

lemma open_new:
  "\<exists>c. open_connection broker_net (fst new_connection_test) = (Ok (), c) \<and> quiet_tcp [] [] [] c \<and> fresh c
    \<and> watch c = None \<and> connect_packet_of c = connect_packet"
  by (intro exI [of _ "(fst new_connection_test)\<lparr>connection := True\<rparr>"])
    (simp add: open_connection_def new_connection_test_def new_tcp_def broker_config_def new_config_def resolve_def
      broker_net_def test_net_def test_dns_def test_connect_def network_result_def quiet_parts new_cell_def fresh_def
      new_test_network_def connect_packet_def connect_packet_of_def new_buffer_def wf_buffer_def contents_def capacity_def)

lemma connect_pending:
  assumes "travels cd connect_packet bs"
  shows "\<exists>c. tcp_connect cd broker_net new_connection_test = (Pending, c, new_pid_pool) \<and> quiet_tcp bs [] [] c \<and> fresh c
    \<and> watch c = Some ConnectSent"
proof -
  have e: "encodes_as cd connect_packet bs" "length bs \<le> 1024" using assms by (simp_all add: travels_def)
  from open_new obtain c where c: "open_connection broker_net (fst new_connection_test) = (Ok (), c)" "quiet_tcp [] [] [] c" "fresh c"
    "connect_packet_of c = connect_packet" by blast
  from quiet_write [OF c(2) e(1)] e(2) obtain b where w: "inherent_try_write_packet cd connect_packet c = (Ok True, c\<lparr>send_buffer := b\<rparr>)"
    "quiet_tcp [] [] bs (c\<lparr>send_buffer := b\<rparr>)" by auto
  from quiet_send [OF w(2)] obtain b' where s: "tcp_send broker_net (c\<lparr>send_buffer := b\<rparr>) =
      (Ok (), c\<lparr>send_buffer := b', network := \<lparr>bytes_sent = bs, bytes_received = []\<rparr>\<rparr>)"
    "quiet_tcp bs [] [] (c\<lparr>send_buffer := b', network := \<lparr>bytes_sent = bs, bytes_received = []\<rparr>\<rparr>)" by auto
  let ?d = "set_watch ConnectSent (c\<lparr>send_buffer := b', network := \<lparr>bytes_sent = bs, bytes_received = []\<rparr>\<rparr>)"
  have d: "quiet_tcp bs [] [] ?d" "fresh ?d" "watch ?d = Some ConnectSent" using s(2) c(3) by (simp_all add: set_watch_def quiet_parts fresh_def)
  from read_pending [OF d(1,2) travels_decodes(1) [OF assms]] w s c
  have "send_connect cd broker_net c = (Pending, ?d)" by (simp add: send_connect_awaits await_connack_def)
  then have "tcp_connect cd broker_net new_connection_test = (Pending, ?d, new_pid_pool)"
    using c(1) reset_new by (simp add: tcp_connect_def on_tcp_def new_connection_test_def new_tcp_def)
  with d show ?thesis by blast
qed

text \<open>The steps of the tests on a quiet connection.\<close>

lemma packet_on_wire_eval:
  assumes "quiet_tcp bs inc q c" and "travels cd p bs"
  shows "packet_on_wire cd (c, k) = (Ok p, c\<lparr>network := \<lparr>bytes_sent = [], bytes_received = inc\<rparr>\<rparr>, k)"
  using assms travels_decodes(2) [OF assms(2)] by (simp add: packet_on_wire_def assert_packet_written_def quiet_tcp_def)

lemma packet_arrives_eval:
  assumes "quiet_tcp out [] q c" and "travels cd p bs"
  shows "packet_arrives cd p (c, k) = (Ok (), c\<lparr>network := \<lparr>bytes_sent = out, bytes_received = bs\<rparr>\<rparr>, k)"
  using assms travels_decodes(3) [OF assms(2)]
  by (simp add: packet_arrives_def add_packet_to_receive_def add_bytes_to_receive_def quiet_tcp_def)

lemma quiet_network:
  "quiet_tcp out inc q c \<Longrightarrow> quiet_tcp out' inc' q (c\<lparr>network := \<lparr>bytes_sent = out', bytes_received = inc'\<rparr>\<rparr>)"
  "fresh (c\<lparr>network := n\<rparr>) = fresh c"
  by (simp_all add: quiet_parts fresh_def)

lemma connack_processed:
  assumes "quiet_tcp out bs [] c" and "fresh c" and "travels cd (Connack False Accepted) bs"
  shows "\<exists>c'. connect_again cd (c, k) = (Ok (), c', k) \<and> quiet_tcp out [] [] c' \<and> watch c' = Some Connected"
proof -
  from read_arrived [OF assms] obtain c1 b where
    r: "read_packet cd broker_net c = (Ok (length bs, Connack False Accepted), c1)"
    "drop_packet (length bs, Connack False Accepted) c1 =
        (Ok (), c\<lparr>network := \<lparr>bytes_sent = out, bytes_received = []\<rparr>, recv_buffer := \<lparr>cell_buffer = b, borrows = 0\<rparr>\<rparr>)"
    "quiet_tcp out [] [] (c\<lparr>network := \<lparr>bytes_sent = out, bytes_received = []\<rparr>, recv_buffer := \<lparr>cell_buffer = b, borrows = 0\<rparr>\<rparr>)" by blast
  let ?d = "c\<lparr>network := \<lparr>bytes_sent = out, bytes_received = []\<rparr>, recv_buffer := \<lparr>cell_buffer = b, borrows = 0\<rparr>\<rparr>"
  have "config_auto_subscribes (tcp_config c) = []" using assms(1) by (simp add: quiet_tcp_def broker_config_def new_config_def)
  with r have "connect_again cd (c, k) = (Ok (), set_watch Connected ?d, k)"
    by (simp add: connect_again_def on_tcp_def await_connack_def process_connack_def subscribe_auto_subscribes_def)
  moreover have "quiet_tcp out [] [] (set_watch Connected ?d)" using r(3) by (simp add: set_watch_def quiet_parts)
  ultimately show ?thesis by (intro exI [of _ "set_watch Connected ?d"]) (simp add: set_watch_def)
qed

lemma connected:
  assumes "travels cd connect_packet b" and "travels cd (Connack False Accepted) a"
  shows "\<exists>c. passes (connect_steps cd @ steps) new_connection_test = passes steps (c, new_pid_pool)
    \<and> quiet_tcp [] [] [] c \<and> watch c = Some Connected"
    and "test_tcp_connect cd new_connection_test"
proof -
  from connect_pending [OF assms(1)] obtain c where c: "tcp_connect cd broker_net new_connection_test = (Pending, c, new_pid_pool)"
    "quiet_tcp b [] [] c" "fresh c" "watch c = Some ConnectSent" by blast
  let ?c1 = "c\<lparr>network := \<lparr>bytes_sent = [], bytes_received = []\<rparr>\<rparr>"
  let ?c2 = "c\<lparr>network := \<lparr>bytes_sent = [], bytes_received = a\<rparr>\<rparr>"
  have w: "packet_on_wire cd (c, new_pid_pool) = (Ok connect_packet, ?c1, new_pid_pool)"
    by (rule packet_on_wire_eval [OF c(2) assms(1)])
  have a: "packet_arrives cd (Connack False Accepted) (?c1, new_pid_pool) = (Ok (), ?c2, new_pid_pool)"
    using packet_arrives_eval [OF quiet_network(1) [OF c(2)] assms(2)] by simp
  from connack_processed [OF quiet_network(1) [OF c(2)] _ assms(2)] c(3) obtain c' where
    k: "connect_again cd (?c2, new_pid_pool) = (Ok (), c', new_pid_pool)" "quiet_tcp [] [] [] c'" "watch c' = Some Connected"
    by (auto simp: quiet_network(2))
  have p: "is_connect connect_packet" "case connect_packet of Connect c \<Rightarrow> client_id c = ''clien-12345'' | _ \<Rightarrow> False"
    by (simp_all add: is_connect_def connect_packet_def connect_packet_of_def new_connection_test_def new_tcp_def
        broker_config_def new_config_def Let_def)
  show "\<exists>c. passes (connect_steps cd @ steps) new_connection_test = passes steps (c, new_pid_pool)
    \<and> quiet_tcp [] [] [] c \<and> watch c = Some Connected"
    using c(1) w a k p(1)
    by (intro exI [of _ c']) (simp add: connect_steps_def passes_def packet_written_is_def assert_that_def)
  show "test_tcp_connect cd new_connection_test"
    using c(1,4) w a k p(2)
    by (simp add: test_tcp_connect_def passes_def packet_written_is_def assert_that_def state_is_def)
qed

lemma run_io_step_silent:
  assumes "quiet_tcp out [] q c" and "watch c = Some Connected"
  shows "\<exists>c'. assert_pending (run_io_step cd) (c, k) = (Ok (), c', k) \<and> quiet_tcp (out @ q) [] [] c' \<and> watch c' = Some Connected"
proof -
  from run_io_silent [OF assms] obtain c' where "run_io cd broker_net c = (Pending, c')"
    "quiet_tcp (out @ q) [] [] c'" "watch c' = Some Connected" by blast
  then show ?thesis by (intro exI [of _ c']) (simp add: run_io_step_def on_tcp_def)
qed

lemma response_arrives:
  assumes "quiet_tcp out [] [] c" and "watch c = Some Connected" and "travels cd p bs"
  shows "passes [packet_arrives cd p, ignoring (unwrap_ready (run_io_step cd))] (c, k)"
proof -
  let ?d = "c\<lparr>network := \<lparr>bytes_sent = out, bytes_received = bs\<rparr>\<rparr>"
  from run_io_arrived [OF quiet_network(1) [OF assms(1)] _ assms(3)] assms(2) obtain c' where
    "run_io cd broker_net ?d = (Ok (length bs, p), c')" by auto
  with packet_arrives_eval [OF assms(1,3)] show ?thesis
    by (simp add: passes_def ignoring_def run_io_step_def on_tcp_def)
qed

lemma ping_written:
  assumes "quiet_tcp out inc [] c" and "travels cd p bs"
  shows "\<exists>c'. unwrap_ready (on_tcp (inherent_try_write_packet cd p)) (c, k) = (Ok True, c', k)
    \<and> quiet_tcp out inc bs c' \<and> watch c' = watch c"
proof -
  have "encodes_as cd p bs" "length ([] :: byte list) + length bs \<le> 1024" using assms(2) by (simp_all add: travels_def)
  from quiet_write [OF assms(1) this] obtain b where
    "inherent_try_write_packet cd p c = (Ok True, c\<lparr>send_buffer := b\<rparr>)" "quiet_tcp out inc bs (c\<lparr>send_buffer := b\<rparr>)" by auto
  then show ?thesis by (intro exI [of _ "c\<lparr>send_buffer := b\<rparr>"]) (simp add: on_tcp_def)
qed

lemma broker_stream: "byte_stream broker_net bytes_sent bytes_received" and broker_reliable: "reliable broker_net"
  unfolding broker_net_def by (rule test.byte_stream_axioms)
    (simp add: reliable_def test_net_def test_write_def test_flush_def)

lemma connection_tests:
  assumes connect: "travels cd connect_packet b" and connack: "travels cd (Connack False Accepted) a"
    and ping: "travels cd Pingreq q" and pong: "travels cd Pingresp r" and disconnect: "travels cd Disconnect d"
  shows "test_run_io_read cd new_connection_test" and "test_run_io_read_write cd new_connection_test"
    and "test_run_io_nonblocking_read_write cd new_connection_test" and "test_disconnect cd new_connection_test"
proof -
  have "\<forall>steps. \<exists>c. passes (connect_steps cd @ steps) new_connection_test = passes steps (c, new_pid_pool)
    \<and> quiet_tcp [] [] [] c \<and> watch c = Some Connected"
    using connected(1) [OF connect connack] by blast
  note start = this [rule_format]
  note silent = run_io_step_silent [where cd = cd and k = new_pid_pool]
  show "test_run_io_read cd new_connection_test"
  proof -
    obtain c where c: "quiet_tcp [] [] [] c" "watch c = Some Connected"
      "test_run_io_read cd new_connection_test = passes [assert_pending (run_io_step cd), assert_pending (run_io_step cd),
        assert_pending (run_io_step cd), assert_pending (run_io_step cd), packet_arrives cd Pingresp,
        ignoring (unwrap_ready (run_io_step cd))] (c, new_pid_pool)"
      unfolding test_run_io_read_def using start by metis
    from silent [OF c(1,2)] obtain c1 where 1: "assert_pending (run_io_step cd) (c, new_pid_pool) = (Ok (), c1, new_pid_pool)"
      "quiet_tcp [] [] [] c1" "watch c1 = Some Connected" by auto
    from silent [OF 1(2,3)] obtain c2 where 2: "assert_pending (run_io_step cd) (c1, new_pid_pool) = (Ok (), c2, new_pid_pool)"
      "quiet_tcp [] [] [] c2" "watch c2 = Some Connected" by auto
    from silent [OF 2(2,3)] obtain c3 where 3: "assert_pending (run_io_step cd) (c2, new_pid_pool) = (Ok (), c3, new_pid_pool)"
      "quiet_tcp [] [] [] c3" "watch c3 = Some Connected" by auto
    from silent [OF 3(2,3)] obtain c4 where 4: "assert_pending (run_io_step cd) (c3, new_pid_pool) = (Ok (), c4, new_pid_pool)"
      "quiet_tcp [] [] [] c4" "watch c4 = Some Connected" by auto
    from response_arrives [OF 4(2,3) pong] show ?thesis
      using 1(1) 2(1) 3(1) 4(1) unfolding c(3) by (simp add: passes_def)
  qed
  show "test_run_io_read_write cd new_connection_test"
  proof -
    obtain c where c: "quiet_tcp [] [] [] c" "watch c = Some Connected"
      "test_run_io_read_write cd new_connection_test = passes [assert_eq True (unwrap_ready (on_tcp (inherent_try_write_packet cd Pingreq))),
      assert_pending (run_io_step cd), packet_written_is cd (\<lambda>p. p = Pingreq), packet_arrives cd Pingresp,
      ignoring (unwrap_ready (run_io_step cd))] (c, new_pid_pool)"
      unfolding test_run_io_read_write_def using start by metis
    from ping_written [OF c(1) ping, of new_pid_pool] c(2) obtain c1 where
      1: "unwrap_ready (on_tcp (inherent_try_write_packet cd Pingreq)) (c, new_pid_pool) = (Ok True, c1, new_pid_pool)"
      "quiet_tcp [] [] q c1" "watch c1 = Some Connected" by auto
    from silent [OF 1(2,3)] obtain c2 where 2: "assert_pending (run_io_step cd) (c1, new_pid_pool) = (Ok (), c2, new_pid_pool)"
      "quiet_tcp q [] [] c2" "watch c2 = Some Connected" by auto
    let ?c3 = "c2\<lparr>network := \<lparr>bytes_sent = [], bytes_received = []\<rparr>\<rparr>"
    have 3: "packet_written_is cd (\<lambda>p. p = Pingreq) (c2, new_pid_pool) = (Ok (), ?c3, new_pid_pool)"
      using packet_on_wire_eval [OF 2(2) ping, of new_pid_pool] by (simp add: packet_written_is_def assert_that_def)
    have w: "assert_eq True (unwrap_ready (on_tcp (inherent_try_write_packet cd Pingreq))) (c, new_pid_pool) = (Ok (), c1, new_pid_pool)"
      using 1(1) by (simp add: assert_eq_def)
    from response_arrives [OF quiet_network(1) [OF 2(2)] _ pong, of "[]" new_pid_pool] 2(3) show ?thesis
      using w 2(1) 3 unfolding c(3) by (simp add: passes_def)
  qed
  show "test_run_io_nonblocking_read_write cd new_connection_test"
  proof -
    obtain c where c: "quiet_tcp [] [] [] c" "watch c = Some Connected"
      "test_run_io_nonblocking_read_write cd new_connection_test = passes [ignoring (unwrap_ready (run_io_nonblocking_step cd)),
      nothing_on_wire, assert_eq True (unwrap_ready (on_tcp (inherent_try_write_packet cd Pingreq))),
      assert_eq None (unwrap_ready (run_io_nonblocking_step cd))] (c, new_pid_pool)"
      unfolding test_run_io_nonblocking_read_write_def using start by metis
    note nb = run_io_nonblocking_silent [OF _ _ travels_decodes(1) [OF pong]]
    from nb [OF c(1,2)] obtain c1 where 1: "run_io_nonblocking cd broker_net c = (Ok None, c1)"
      "quiet_tcp [] [] [] c1" "watch c1 = Some Connected" by auto
    from ping_written [OF 1(2) ping, of new_pid_pool] 1(3) obtain c2 where
      2: "unwrap_ready (on_tcp (inherent_try_write_packet cd Pingreq)) (c1, new_pid_pool) = (Ok True, c2, new_pid_pool)"
      "quiet_tcp [] [] q c2" "watch c2 = Some Connected" by auto
    from nb [OF 2(2,3)] obtain c3 where 3: "run_io_nonblocking cd broker_net c2 = (Ok None, c3)" by auto
    from 1 2(1) 3 show ?thesis
      unfolding c(3) by (simp add: passes_def ignoring_def nothing_on_wire_def assert_nothing_written_def assert_eq_def
        run_io_nonblocking_step_def on_tcp_def quiet_tcp_def)
  qed
  show "test_disconnect cd new_connection_test"
  proof -
    obtain c where c: "quiet_tcp [] [] [] c" "watch c = Some Connected"
      "test_disconnect cd new_connection_test = passes [unwrap_ready (on_tcp (tcp_disconnect cd broker_net)),
      packet_written_is cd (\<lambda>p. p = Disconnect), state_is Disconnected] (c, new_pid_pool)"
      unfolding test_disconnect_def using start by metis
    have d: "encodes_as cd Disconnect d" "length d \<le> send_capacity c" "wf_tcp c" "connection c" "borrows (send_buffer c) = 0"
      using disconnect c(1) by (simp_all add: travels_def quiet_tcp_def idle_def)
    from disconnect_reliable [OF broker_stream broker_reliable d(3-5) c(2) d(1,2)] obtain c' where
      c': "tcp_disconnect cd broker_net c = (Ok (), c')" "bytes_sent (network c') = d"
      using c(1) by (auto simp: quiet_tcp_def)
    from tcp_disconnect_state [OF c'(1)] have "watch c' = Some Disconnected" by blast
    with c' travels_decodes(2) [OF disconnect] show ?thesis
      unfolding c(3) by (simp add: passes_def packet_written_is_def packet_on_wire_def assert_packet_written_def
        on_tcp_def assert_that_def state_is_def)
  qed
qed

definition connection_packets :: "packet list" where
  \<comment> \<open>The packets that the tests send and receive\<close>
  "connection_packets = [connect_packet, Connack False Accepted, Pingreq, Pingresp, Disconnect]"

lemma connection_tests_pass:
  assumes "\<forall>p \<in> set connection_packets. \<exists>bs. travels cd p bs"
  shows "test_tcp_connect cd new_connection_test" "test_run_io_read cd new_connection_test"
    "test_run_io_read_write cd new_connection_test" "test_run_io_nonblocking_read_write cd new_connection_test"
    "test_disconnect cd new_connection_test"
  using assms connected(2) connection_tests by (auto simp: connection_packets_def)

lemma table_codec_travels:
  assumes "p \<in> set ps" and "length ps \<le> 256"
  shows "\<exists>bs. travels (table_codec ps) p bs"
proof -
  from position_eq_Some [OF assms(1)] obtain i where i: "i < length ps" "position (\<lambda>q. q = p) ps = Some i" "ps ! i = p" by blast
  with assms(2) have "unat (of_nat i :: byte) = i" by (simp add: unat_of_nat)
  with i have "travels (table_codec ps) p [of_nat i]"
    by (auto simp: travels_def encodes_as_def decodes_as_def table_codec_def)
  then show ?thesis by blast
qed

end
