(* ===== verification/Unit_Tests.thy ===== *)
theory Unit_Tests
  imports Receive_Tests Publish_Tests Subscription_Tests Module_Tests Connection_Tests
begin

text \<open>
  The crate's own unit tests in the model: every test passes, so the model behaves on them as
  the code does.
\<close>

definition test_packets :: "packet list" where
  \<comment> \<open>The packets the tests write, the first identifiers of the pool being 1 and 2\<close>
  "test_packets =
     [Puback 8, Pubrec 8, Pubcomp 8, Pubrel 1, Publish (message_to_send QP_AtMostOnce),
      Publish (message_to_send (QP_AtLeastOnce 1)), Publish (message_to_send (QP_ExactlyOnce 1)),
      Subscribe 1 [(''test/topic'', AtMostOnce)], Unsubscribe 1 [''test/topic''],
      Subscribe 1 [(''test/topic/0'', AtMostOnce)], Subscribe 2 [(''test/topic/1'', AtMostOnce)]]"

lemma first_pids:
  "next_pid new_pid_pool = (Ok 1, \<lparr>pool = [], next_new_pid = 2\<rparr>)"
  "next_pid \<lparr>pool = [], next_new_pid = 2\<rparr> = (Ok 2, \<lparr>pool = [], next_new_pid = 3\<rparr>)"
  by code_simp+

text \<open>C20: the unit tests of the crate pass in the model: those of the protocol components against the dummy
  connection, with every codec that carries their packets and takes their topics, and every clock that
  stays below the retransmission time; those of the TCP connection against the test network, with every
  codec that writes their packets whole and recognises them in the stream; and those of the buffer, the packet identifiers (with threads in
  any order), the notifications and the test clock, where the runtime's clock moves while a test sleeps.\<close>

theorem unit_tests_pass:
  assumes "\<forall>p \<in> set test_packets. carries cd p" and connection: "\<forall>p \<in> set connection_packets. \<exists>bs. travels cd p bs" and "takes_topics cd"
    and "\<forall>k. fst (clock k) \<le> from_secs 5" and "length schedule \<le> 65534"
    and elapse: "\<forall>k. fst (tm_now tm k) < fst (tm_now tm (elapse (snd (tm_now tm k))))"
  shows
    "(let t = new_component_test new_receives new_pid_pool k in
      test_qos_0_receive t \<and> test_qos_1_receive cd clock t \<and> test_qos_2_receive cd clock t
      \<and> test_no_dup_in_qos_2 t \<and> test_send_pubrec_publish cd clock t \<and> test_send_pubcomp_to_pubrel cd clock t)
    \<and> (let t = new_component_test new_publishes new_pid_pool k in
      test_qos_0_publish cd clock t \<and> test_qos_1_publish cd clock t \<and> test_qos_2_publish cd clock t)
    \<and> (let t = new_component_test new_subs new_pid_pool k in
      test_subscribe cd clock t \<and> test_parallel_subscribe cd clock t \<and> test_unsubscribe cd clock t)
    \<and> (let t = new_connection_test in
      test_tcp_connect cd t \<and> test_run_io_read cd t \<and> test_run_io_read_write cd t
      \<and> test_run_io_nonblocking_read_write cd t \<and> test_disconnect cd t)
    \<and> test_write_to_end = Ok () \<and> test_buffer_cell_string_parsing = Ok () \<and> test_buffer_write_all = Ok ()
    \<and> test_next_pid = Ok () \<and> test_concurrent_access schedule = Ok () \<and> test_pid_reuse = Ok ()
    \<and> (let s = new_request_state r in test_notify wops task s \<and> test_multi_notify wops task s
      \<and> test_disconnect_notify wops task s \<and> test_disconnect_multi_notify wops task s)
    \<and> test_now_default tm elapse s \<and> test_now_static wops tm elapse s \<and> test_wait_static wops tm task elapse s"
proof -
  have quick: "\<not> RESEND_DURATION < fst (clock k) - t" "\<not> SUB_RESEND_DURATION < fst (clock k) - t" for k t
    using assms(4) by (simp_all add: RESEND_DURATION_def SUB_RESEND_DURATION_def not_less le_diff_conv trans_le_add1)
  note carried = assms(1) [unfolded test_packets_def, simplified]
  have room: "(i :: pid) \<notin> set (pool \<lparr>pool = [], next_new_pid = 2\<rparr>)" "length (pool \<lparr>pool = [], next_new_pid = 2\<rparr>) < 16" for i
    by simp_all
  from carried show ?thesis
    using receive_tests(1,2) [where p = new_pid_pool and k = k]
      receive_tests(3-6) [where p = new_pid_pool and k = k and cd = cd and clock = clock]
      publish_test_0 [where clock = clock and p = new_pid_pool and k = k, OF quick(1)]
      publish_test_1 [where clock = clock and k = k, OF quick(1) _ first_pids(1) room]
      publish_test_2 [where clock = clock and k = k, OF quick(1) _ _ first_pids(1) room]
      subscribe_test [where clock = clock and k = k, OF quick(2) assms(3) first_pids(1)]
      unsubscribe_test [where clock = clock and k = k, OF quick(2) assms(3) first_pids(1)]
      parallel_subscribe_test [where clock = clock and k = k, OF quick(2) assms(3) first_pids]
      connection_tests_pass [OF connection] buffer_tests next_pid_test concurrent_access_test [OF assms(5)] pid_reuse_test
      request_tests [of wops task r] default_clock_test [of tm elapse s] elapse polling_tests(2) [of wops tm elapse s] polling_tests(3) [of wops tm task elapse s]
    by (simp add: Let_def)
qed

theorem unit_tests_pass_witness:
  "test_qos_2_publish (table_codec (test_packets @ connection_packets)) (\<lambda>k. (7, k)) (new_component_test new_publishes new_pid_pool ())
    \<and> test_run_io_read_write (table_codec (test_packets @ connection_packets)) new_connection_test
    \<and> test_concurrent_access (concat (replicate 100 [0..<50])) = Ok ()"
proof -
  let ?ps = "test_packets @ connection_packets"
  have n: "length ?ps \<le> 256" by (simp add: test_packets_def connection_packets_def)
  have c: "\<forall>p \<in> set test_packets. carries (table_codec ?ps) p" using table_codec_carries [OF _ n] by simp
  have v: "\<forall>p \<in> set connection_packets. \<exists>bs. travels (table_codec ?ps) p bs" using table_codec_travels [OF _ n] by simp
  have t: "takes_topics (table_codec ?ps)" by (simp add: takes_topics_def table_codec_def)
  have q: "\<forall>k. fst ((\<lambda>k :: unit. (7 :: instant, k)) k) \<le> from_secs 5" by (simp add: from_secs_def)
  have l: "length (concat (replicate 100 [0..<50])) \<le> 65534"
    by (simp add: length_concat sum_list_replicate)
  have e: "\<forall>k. fst (tm_now sample_timers k) < fst (tm_now sample_timers (Suc (snd (tm_now sample_timers k))))"
    by (simp add: sample_timers_def)
  from unit_tests_pass [where clock = "\<lambda>k. (7, k)" and k = "()" and wops = single_registry and task = 0
      and r = "([], [])" and tm = sample_timers and elapse = Suc and s = "new_test_time ([], []) 0", OF c v t q l e]
  show ?thesis unfolding Let_def by (elim conjE) (intro conjI)
qed

end
