(* ===== verification/Locked_Components.thy ===== *)
theory Locked_Components
  imports Notifications Publish_Properties Subscriptions
begin

text \<open>
  The protocol components behind their mutexes: \<open>Publishes\<close>, \<open>Receives\<close> and \<open>Subs\<close> of
  \<open>src/src/state/publish2.rs\<close>, \<open>receives2.rs\<close> and \<open>sub2.rs\<close> hold the bare component in a \<open>Mutex\<close>.  Each
  operation takes the lock, runs on the component and drops the lock; adding a request is retried
  at every unlock until it has room.
\<close>

section \<open>Operations under the lock\<close>

definition with_lock :: "'w waker_ops \<Rightarrow> task \<Rightarrow> ('t \<times> 'e world \<Rightarrow> 'a outcome \<times> 't \<times> 'e world)
    \<Rightarrow> ('w, 't) mutex \<times> 'e world \<Rightarrow> 'a outcome \<times> ('w, 't) mutex \<times> 'e world" where
  \<comment> \<open>\<open>self.inner.lock().await\<close>, polled by a task, and the operation on what it guards; the guard is
     dropped however the operation ends.\<close>
  "with_lock wops t f st =
     (case poll_lock wops t (fst st) of
        (False, m) \<Rightarrow> (Pending, m, snd st)
      | (True, m) \<Rightarrow>
          (case f (mx_value m, snd st) of
             (r, v, w) \<Rightarrow> (r, drop_lock wops (m\<lparr>mx_value := v\<rparr>), w)))"

type_synonym 'w publishes_mutex = "('w, publishes_inner) mutex"
type_synonym 'w receives_mutex = "('w, receives_inner) mutex"
type_synonym 'w subs_mutex = "('w, subs_inner) mutex"

definition publishes_new :: "'w \<Rightarrow> 'w publishes_mutex" where
  "publishes_new r = new_mutex r new_publishes"

definition publishes_send_packets_locked :: "'w waker_ops \<Rightarrow> task \<Rightarrow> 'e ops \<Rightarrow> sizes
    \<Rightarrow> 'w publishes_mutex \<times> 'e world \<Rightarrow> send_result outcome \<times> 'w publishes_mutex \<times> 'e world" where
  "publishes_send_packets_locked wops t ops n = with_lock wops t (publishes_send_packets ops n)"

definition publishes_process_locked :: "'w waker_ops \<Rightarrow> task \<Rightarrow> sizes \<Rightarrow> packet
    \<Rightarrow> 'w publishes_mutex \<times> 'e world \<Rightarrow> unit outcome \<times> 'w publishes_mutex \<times> 'e world" where
  "publishes_process_locked wops t n p = with_lock wops t (process_incoming_packet n p)"

definition poll_publish :: "'w waker_ops \<Rightarrow> task \<Rightarrow> sizes \<Rightarrow> publish \<Rightarrow> unique_id \<Rightarrow> 'w publishes_mutex
    \<Rightarrow> unit outcome \<times> 'w publishes_mutex" where
  \<comment> \<open>One poll of \<open>Publishes::publish\<close>: an error of the operation is unwrapped.\<close>
  "poll_publish wops t n p uid m =
     (case poll_try_with_lock wops (add_publish n p uid) t m of
        (Err e, m') \<Rightarrow> (Panic, m')
      | r \<Rightarrow> r)"

definition receives_new :: "'w \<Rightarrow> 'w receives_mutex" where
  "receives_new r = new_mutex r new_receives"

definition receives_send_packets_locked :: "'w waker_ops \<Rightarrow> task \<Rightarrow> 'e ops \<Rightarrow> sizes
    \<Rightarrow> 'w receives_mutex \<times> 'e world \<Rightarrow> send_result outcome \<times> 'w receives_mutex \<times> 'e world" where
  "receives_send_packets_locked wops t ops n = with_lock wops t (receives_send_packets ops n)"

definition on_pubrel_locked :: "'w waker_ops \<Rightarrow> task \<Rightarrow> sizes \<Rightarrow> pid
    \<Rightarrow> 'w receives_mutex \<times> 'e world \<Rightarrow> unit outcome \<times> 'w receives_mutex \<times> 'e world" where
  "on_pubrel_locked wops t n pid = with_lock wops t (on_pubrel n pid)"

definition subs_new :: "'w \<Rightarrow> 'w subs_mutex" where
  "subs_new r = new_mutex r new_subs"

definition subs_send_locked :: "'w waker_ops \<Rightarrow> task \<Rightarrow> 'e ops \<Rightarrow> codec \<Rightarrow> sizes
    \<Rightarrow> 'w subs_mutex \<times> 'e world \<Rightarrow> send_result outcome \<times> 'w subs_mutex \<times> 'e world" where
  "subs_send_locked wops t ops cd n = with_lock wops t (subs_send ops cd n)"

definition on_suback_locked :: "'w waker_ops \<Rightarrow> task \<Rightarrow> pid \<Rightarrow> subscribe_return_code list
    \<Rightarrow> 'w subs_mutex \<times> 'e world \<Rightarrow> unit outcome \<times> 'w subs_mutex \<times> 'e world" where
  "on_suback_locked wops t pid codes = with_lock wops t (on_suback pid codes)"

definition on_unsuback_locked :: "'w waker_ops \<Rightarrow> task \<Rightarrow> pid
    \<Rightarrow> 'w subs_mutex \<times> 'e world \<Rightarrow> unit outcome \<times> 'w subs_mutex \<times> 'e world" where
  "on_unsuback_locked wops t pid = with_lock wops t (\<lambda>st. (Ok (), on_unsuback pid st))"

section \<open>What the lock adds\<close>

text \<open>On a free mutex the operation is that of the bare component, and the mutex is free again.\<close>

lemma with_lock_free:
  "\<not> locked m \<Longrightarrow> f (mx_value m, w) = (r, v, w') \<Longrightarrow>
    with_lock wops t f (m, w) = (r, m\<lparr>mx_value := v, mx_wakers := wr_wake wops (mx_wakers m)\<rparr>, w')"
  by (cases m) (simp add: with_lock_def poll_lock_def drop_lock_def)

lemma with_lock_taken:
  "locked m \<Longrightarrow> with_lock wops t f (m, w) = (Pending, m\<lparr>mx_wakers := wr_register wops t (mx_wakers m)\<rparr>, w)"
  by (simp add: with_lock_def poll_lock_def)

text \<open>Every operation of a component is a run of its mutex.\<close>

lemma with_lock_run:
  assumes "with_lock wops t f (m, w) = (r, m', w')"
  shows "mutex_run wops (m, []) (m', [])"
proof (cases "locked m")
  case True
  with assms have "m' = m\<lparr>mx_wakers := wr_register wops t (mx_wakers m)\<rparr>" by (simp add: with_lock_taken)
  with True have "mutex_step wops (m, []) (m', [])" by (auto intro: mutex_step.wait [of _ t] simp: poll_lock_def)
  with mutex_run.start show ?thesis by (rule mutex_run.step)
next
  case False
  obtain r1 v w1 where f: "f (mx_value m, w) = (r1, v, w1)" by (rule prod_cases3)
  let ?m1 = "m\<lparr>locked := True\<rparr>"
  have "mutex_step wops (m, []) (?m1, [t])" using False by (auto intro: mutex_step.acquire simp: poll_lock_def)
  moreover have "mutex_step wops (?m1, [t]) (?m1\<lparr>mx_value := v\<rparr>, [t])" by (rule mutex_step.change [of t]) simp
  moreover have "mutex_step wops (?m1\<lparr>mx_value := v\<rparr>, [t]) (m', [])"
    using mutex_step.release [of t "[t]" wops "?m1\<lparr>mx_value := v\<rparr>"] assms with_lock_free [where f = f, OF False f, of wops t] False
    by (cases m) (simp add: drop_lock_def)
  ultimately show ?thesis by (blast intro: mutex_run.intros)
qed

lemma add_publish_ready: "fst (add_publish n p uid s) \<noteq> Pending"
  by (auto simp: add_publish_def new_from_publish_def split: option.splits)

lemma poll_publish_pending:
  assumes "waker_registry wops held woken" and "poll_publish wops t n p uid m = (Pending, m1)"
  shows "waker_registry.remembered held woken t m1"
proof -
  have "mx_wakers m1 = wr_register wops t (mx_wakers m)"
    using assms(2) add_publish_ready [of n p uid "mx_value m"]
    by (cases "add_publish n p uid (mx_value m)"; cases "fst (add_publish n p uid (mx_value m))")
      (auto simp: poll_publish_def poll_try_with_lock_def split: if_splits)
  then show ?thesis
    using waker_registry.register_held [OF assms(1)] by (simp add: waker_registry.remembered_def [OF assms(1)])
qed

lemma poll_publish_room:
  assumes "\<not> locked m" and "length (send_publish (mx_value m)) < QUEUE n" and "fits n p"
  shows "poll_publish wops t n p uid m = (Ok (), m\<lparr>mx_value := (mx_value m)
    \<lparr>send_publish := send_publish (mx_value m) @ [publish.extend p \<lparr>op_unique_id = uid\<rparr>]\<rparr>\<rparr>)"
  using assms
  by (simp add: poll_publish_def poll_try_with_lock_def add_publish_def vec_is_full_def vec_push_def new_from_publish_eq)

section \<open>Properties\<close>

text \<open>C31: a publish call that has to wait, for the lock or for room in the queue, is not forgotten: whatever
  other tasks do with the mutex in between, the next time the event loop sends packets wakes
  the caller, and if that left room its next poll adds the message at the end of the queue and returns.\<close>

theorem waiting_publish_is_woken:
  assumes "waker_registry wops held woken" and "poll_publish wops t n p uid m = (Pending, m1)"
    and "mutex_run wops (m1, hs) (m2, [])" and "\<not> locked m2"
    and "publishes_send_packets_locked wops u ops n (m2, w) = (r, m3, w')"
  shows "t \<in> woken (mx_wakers m3) \<and> publishes_send_packets ops n (mx_value m2, w) = (r, mx_value m3, w')
    \<and> (length (send_publish (mx_value m3)) < QUEUE n \<and> fits n p \<longrightarrow>
        (\<exists>m4. poll_publish wops t n p uid m3 = (Ok (), m4)
          \<and> send_publish (mx_value m4) = send_publish (mx_value m3) @ [publish.extend p \<lparr>op_unique_id = uid\<rparr>]))"
proof -
  obtain r1 v w1 where f: "publishes_send_packets ops n (mx_value m2, w) = (r1, v, w1)" by (rule prod_cases3)
  from with_lock_free [where f = "publishes_send_packets ops n", OF assms(4) f, of wops u] assms(5)
  have m3: "m3 = m2\<lparr>mx_value := v, mx_wakers := wr_wake wops (mx_wakers m2)\<rparr>" "r = r1" "w' = w1"
    by (simp_all add: publishes_send_packets_locked_def)
  have "waker_registry.remembered held woken t m2"
    using waker_registry.mutex_run_remembers [OF assms(1,3)] poll_publish_pending [OF assms(1,2)] by simp
  then have "t \<in> woken (mx_wakers m3)"
    using waker_registry.wake_held [OF assms(1), of "mx_wakers m2"] m3(1)
    by (auto simp: waker_registry.remembered_def [OF assms(1)])
  moreover have "\<not> locked m3" using assms(4) m3(1) by simp
  ultimately show ?thesis using f m3 poll_publish_room [of m3 n p wops t uid] by auto
qed

text \<open>A queue of one message, full with a message of QoS 0; task 5 waits, task 6 sends.\<close>

definition small_sizes :: sizes where
  "small_sizes = \<lparr>QUEUE = 1, BUFFER = 8, TOPIC = 8\<rparr>"

definition full_mutex :: "task list \<Rightarrow> (task list \<times> task list) publishes_mutex" where
  "full_mutex hs = new_mutex (hs, []) (new_publishes\<lparr>send_publish := [sample_owned QP_AtMostOnce]\<rparr>)"

theorem waiting_publish_is_woken_witness:
  "\<exists>r m w m4. publishes_send_packets_locked (multi_registry 2) 6 log_ops small_sizes (full_mutex [5], sample_world []) = (r, m, w)
    \<and> 5 \<in> set (snd (mx_wakers m)) \<and> env w = [borrow (sample_owned QP_AtMostOnce)]
    \<and> poll_publish (multi_registry 2) 5 small_sizes (sample_publish QP_AtMostOnce) (UniqueID 3) m = (Ok (), m4)"
proof -
  let ?w = "sample_world ([] :: packet list)"
  obtain r m w where s: "publishes_send_packets_locked (multi_registry 2) 6 log_ops small_sizes (full_mutex [5], ?w) = (r, m, w)"
    by (rule prod_cases3)
  have p: "poll_publish (multi_registry 2) 5 small_sizes (sample_publish QP_AtMostOnce) (UniqueID 3) (full_mutex [])
      = (Pending, full_mutex [5])"
    by (simp add: poll_publish_def poll_try_with_lock_def full_mutex_def new_mutex_def add_publish_def vec_is_full_def
        new_publishes_def small_sizes_def multi_registry_def)
  have q: "qospid (sample_owned QP_AtMostOnce) = QP_AtMostOnce" by (simp add: sample_owned_def)
  have v: "publishes_send_packets log_ops small_sizes (mx_value (full_mutex [5]), ?w)
      = (Ok SentAll, new_publishes, ?w\<lparr>env := [borrow (sample_owned QP_AtMostOnce)],
          event_log := [PublishDone (op_unique_id (sample_owned QP_AtMostOnce))]\<rparr>)"
    using q by (simp add: tx_eval full_mutex_def new_mutex_def small_sizes_def publish_event_def sample_world_def)
  have f: "\<not> locked (full_mutex [5])" "fits small_sizes (sample_publish QP_AtMostOnce)"
    by (simp_all add: full_mutex_def new_mutex_def fits_def small_sizes_def sample_publish_def)
  from waiting_publish_is_woken [OF multi.waker_registry_axioms p mutex_run.start f(1) s] v f(2) s
  show ?thesis by (auto simp: new_publishes_def small_sizes_def)
qed

end
