(* ===== verification/Event_Channels.thy ===== *)
theory Event_Channels
  imports Client_Pids
begin

text \<open>
  The two \<open>PubSubChannel\<close>s of a client: \<open>events\<close> of \<open>State\<close> (\<open>src/src/state/mod.rs\<close>) and \<open>queue\<close> of \<open>Receives\<close>
  (\<open>src/src/state/receives2.rs\<close>).  The channels are bounded, and a publication waits for the slowest
  subscriber.  In the model they are logs that take every message; this theory shows how many messages
  a round of the event loop publishes, and so when no publication has to wait.
\<close>

section \<open>Bounded channels\<close>

text \<open>The channel of \<open>embassy_sync\<close>: \<open>publish\<close> waits while some subscriber has \<open>cap\<close> messages to read, and
  hands the message to every subscriber; \<open>read\<close> is the next message of a subscriber.\<close>

locale pubsub_channel =
  fixes cap :: nat
    and unread :: "'c \<Rightarrow> 's \<Rightarrow> 'm list option"
    and publish :: "'m \<Rightarrow> 'c \<Rightarrow> 'c option"
    and read :: "'s \<Rightarrow> 'c \<Rightarrow> ('m \<times> 'c) option"
  assumes publish_waits: "publish m c = None \<longleftrightarrow> (\<exists>s ms. unread c s = Some ms \<and> cap \<le> length ms)"
    and publish_appends: "publish m c = Some c' \<Longrightarrow> unread c' s = map_option (\<lambda>ms. ms @ [m]) (unread c s)"
    and read_message: "unread c s = Some (m # ms) \<Longrightarrow> \<exists>c'. read s c = Some (m, c') \<and> unread c' = (unread c)(s \<mapsto> ms)"
    and read_waits: "unread c s = Some [] \<Longrightarrow> read s c = None"
    and read_subscribed: "unread c s = None \<Longrightarrow> read s c = None"

primrec publish_all :: "('m \<Rightarrow> 'c \<Rightarrow> 'c option) \<Rightarrow> 'm list \<Rightarrow> 'c \<Rightarrow> 'c option" where
  "publish_all publish [] c = Some c"
| "publish_all publish (m # ms) c = (case publish m c of Some c' \<Rightarrow> publish_all publish ms c' | None \<Rightarrow> None)"

definition next_until :: "('s \<Rightarrow> 'c \<Rightarrow> ('m \<times> 'c) option) \<Rightarrow> 's \<Rightarrow> ('m \<Rightarrow> 'u option) \<Rightarrow> 'c \<Rightarrow> 'u outcome \<times> 'c" where
  \<comment> \<open>The loop of \<open>MqttClient::await_event\<close> on the subscriber \<open>s\<close>\<close>
  "next_until read s f =
     run_loop (\<lambda>c. case read s c of
       None \<Rightarrow> (Pending, c)
     | Some (event, c') \<Rightarrow> (case f event of Some result \<Rightarrow> (Ok (Some result), c') | None \<Rightarrow> (Ok None, c')))"

context pubsub_channel begin

lemma publish_all_unread:
  "publish_all publish ms c = Some c' \<Longrightarrow> unread c' s = map_option (\<lambda>us. us @ ms) (unread c s)"
  by (induction ms arbitrary: c) (auto simp: option.map_comp comp_def option.map_ident publish_appends split: option.splits)

text \<open>A sequence of messages is published without waiting iff every subscriber has room for it.\<close>

lemma publish_all_iff:
  "(\<exists>c'. publish_all publish ms c = Some c') \<longleftrightarrow> ms = [] \<or> (\<forall>s us. unread c s = Some us \<longrightarrow> length us + length ms \<le> cap)"
proof (induction ms arbitrary: c)
  case (Cons m ms)
  show ?case
  proof (cases "publish m c")
    case None
    then obtain s us where "unread c s = Some us" "cap \<le> length us" using publish_waits by blast
    with None show ?thesis by fastforce
  next
    case (Some c1)
    have lt: "\<forall>s us. unread c s = Some us \<longrightarrow> length us < cap" using Some publish_waits [of m c] by (metis not_le option.distinct(1))
    have "(\<exists>c'. publish_all publish (m # ms) c = Some c') \<longleftrightarrow>
        ms = [] \<or> (\<forall>s us. unread c1 s = Some us \<longrightarrow> length us + length ms \<le> cap)"
      using Some Cons.IH by simp
    also have "(\<forall>s us. unread c1 s = Some us \<longrightarrow> length us + length ms \<le> cap)
        \<longleftrightarrow> (\<forall>s us. unread c s = Some us \<longrightarrow> length (us @ [m]) + length ms \<le> cap)"
      using publish_appends [OF Some] by fastforce
    also have "ms = [] \<or> \<dots> \<longleftrightarrow> (\<forall>s us. unread c s = Some us \<longrightarrow> length us + length (m # ms) \<le> cap)"
      using lt by (auto simp: Suc_le_eq)
    finally show ?thesis by simp
  qed
qed simp

text \<open>Waiting for an event on a channel is waiting for it on the messages not yet read.\<close>

lemma next_until_unread:
  "unread c s = Some us \<Longrightarrow> fst (next_until read s f c) = await_event f us"
proof (induction us arbitrary: c)
  case Nil
  from read_waits [OF this] show ?case by (simp add: next_until_def run_loop_leave [where r = Pending])
next
  case (Cons m us)
  from read_message [OF Cons.prems] obtain c' where r: "read s c = Some (m, c')" "unread c' = (unread c)(s \<mapsto> us)" by blast
  show ?case
  proof (cases "f m")
    case None
    have "fst (next_until read s f c') = await_event f us" using Cons.IH r(2) by simp
    moreover have "await_event f us \<noteq> Diverges" by (induction us) (auto split: option.splits)
    ultimately show ?thesis
      using None r(1) by (subst next_until_def, subst run_loop_again [where s' = c']) (simp_all add: next_until_def)
  next
    case (Some u)
    with r(1) show ?thesis by (simp add: next_until_def run_loop_leave [where r = "Ok (Some u)"])
  qed
qed

end

section \<open>The channel as a log\<close>

text \<open>The model's logs with the place of each subscriber in them.\<close>

record ('m, 's) log_channel =
  log_messages :: "'m list"
  log_places :: "('s \<times> nat) list"

definition log_unread :: "('m, 's) log_channel \<Rightarrow> 's \<Rightarrow> 'm list option" where
  "log_unread c s = map_option (\<lambda>i. drop i (log_messages c)) (map_of (log_places c) s)"

definition log_full :: "nat \<Rightarrow> ('m, 's) log_channel \<Rightarrow> bool" where
  "log_full cap c \<longleftrightarrow> list_ex (\<lambda>(s, _). case log_unread c s of Some ms \<Rightarrow> cap \<le> length ms | None \<Rightarrow> False) (log_places c)"

definition log_publish :: "nat \<Rightarrow> 'm \<Rightarrow> ('m, 's) log_channel \<Rightarrow> ('m, 's) log_channel option" where
  \<comment> \<open>Without subscribers a message is taken and no one reads it.\<close>
  "log_publish cap m c =
     (if log_full cap c then None
      else Some (c\<lparr>log_messages := log_messages c @ [m],
                   log_places := map (\<lambda>(s, i). (s, min i (length (log_messages c)))) (log_places c)\<rparr>))"

definition log_read :: "'s \<Rightarrow> ('m, 's) log_channel \<Rightarrow> ('m \<times> ('m, 's) log_channel) option" where
  "log_read s c =
     (case map_of (log_places c) s of
        Some i \<Rightarrow> if i < length (log_messages c)
                  then Some (log_messages c ! i, c\<lparr>log_places := (s, Suc i) # log_places c\<rparr>) else None
      | None \<Rightarrow> None)"

lemma log_full_iff: "log_full cap c \<longleftrightarrow> (\<exists>s ms. log_unread c s = Some ms \<and> cap \<le> length ms)"
  by (force simp: log_full_def list_ex_iff log_unread_def split: option.splits dest: map_of_SomeD)

lemma map_of_clip: "map_of (map (\<lambda>(s, i). (s, min i n)) ps) s = map_option (\<lambda>i. min i n) (map_of ps s)"
  by (induction ps) auto

lemma drop_clip: "drop (min i (length xs)) (xs @ [x]) = drop i xs @ [x]"
  by (cases "i \<le> length xs") (simp_all add: min_def)

interpretation lc: pubsub_channel cap log_unread "log_publish cap" log_read for cap
proof unfold_locales
  fix c c' :: "('m, 's) log_channel" and m :: 'm and ms s
  show "(log_publish cap m c = None) = (\<exists>s ms. log_unread c s = Some ms \<and> cap \<le> length ms)"
    by (simp add: log_publish_def log_full_iff)
  show "log_unread c' s = map_option (\<lambda>ms. ms @ [m]) (log_unread c s)" if "log_publish cap m c = Some c'"
    using that drop_clip [of _ "log_messages c" m] by (cases "map_of (log_places c) s")
      (auto simp: log_publish_def log_unread_def map_of_clip simp del: drop_append split: if_splits)
  show "\<exists>c'. log_read s c = Some (m, c') \<and> log_unread c' = (log_unread c)(s \<mapsto> ms)" if "log_unread c s = Some (m # ms)"
  proof -
    from that obtain i where i: "map_of (log_places c) s = Some i" "drop i (log_messages c) = m # ms"
      by (auto simp: log_unread_def)
    from i(2) have "i < length (log_messages c)" "log_messages c ! i = m" "drop (Suc i) (log_messages c) = ms"
      by (metis drop_all list.distinct(1) not_le, metis hd_drop_conv_nth drop_all list.distinct(1) list.sel(1) not_le,
        metis drop_Suc list.sel(3) tl_drop)
    with i(1) show ?thesis by (auto simp: log_read_def log_unread_def)
  qed
  show "log_read s c = None" if "log_unread c s = Some []"
    using that by (auto simp: log_unread_def log_read_def)
  show "log_read s c = None" if "log_unread c s = None"
    using that by (auto simp: log_unread_def log_read_def)
qed

section \<open>What a round publishes\<close>

text \<open>Between \<open>w\<close> and \<open>w'\<close> at most \<open>k\<close> events and \<open>j\<close> messages are published.\<close>

definition published :: "nat \<Rightarrow> nat \<Rightarrow> 'e world \<Rightarrow> 'f world \<Rightarrow> bool" where
  "published k j w w' \<longleftrightarrow> (\<exists>es ms. event_log w' = event_log w @ es \<and> length es \<le> k
     \<and> received_log w' = received_log w @ ms \<and> length ms \<le> j)"

lemma published_trans: "published k j w w1 \<Longrightarrow> published k' j' w1 w2 \<Longrightarrow> published (k + k') (j + j') w w2"
  unfolding published_def by (elim exE conjE) (intro exI conjI, auto)

lemma published_none: "event_log w' = event_log w \<Longrightarrow> received_log w' = received_log w \<Longrightarrow> published k j w w'"
  by (simp add: published_def)

lemma published_quiet: "quiet w w' \<Longrightarrow> published k j w w'"
  by (simp add: quiet_def published_none)

lemma published_mono: "published k j w w' \<Longrightarrow> k \<le> k' \<Longrightarrow> j \<le> j' \<Longrightarrow> published k' j' w w'"
  unfolding published_def by (meson le_trans)

lemma published_and_then:
  assumes "published k j w (snd (snd x))" and "\<And>v st1. x = (Ok v, st1) \<Longrightarrow> published k' j' (snd st1) (snd (snd (f v st1)))"
  shows "published (k + k') (j + j') w (snd (snd (and_then x f)))"
proof (cases "\<exists>v st1. x = (Ok v, st1)")
  case True
  then obtain v st1 where "x = (Ok v, st1)" by blast
  with assms(1) assms(2) [OF this] published_trans show ?thesis by fastforce
next
  case False
  with published_mono [OF assms(1), of "k + k'" "j + j'"] show ?thesis
    by (cases "(x, f)" rule: and_then.cases) auto
qed

lemma quiet_and_then:
  assumes "quiet w (snd (snd x))" and "\<And>v st1. x = (Ok v, st1) \<Longrightarrow> quiet (snd st1) (snd (snd (f v st1)))"
  shows "quiet w (snd (snd (and_then x f)))"
proof (cases "\<exists>v st1. x = (Ok v, st1)")
  case True
  then obtain v st1 where "x = (Ok v, st1)" by blast
  with assms(1) assms(2) [OF this] quiet_trans show ?thesis by fastforce
next
  case False
  with assms(1) show ?thesis by (cases "(x, f)" rule: and_then.cases) auto
qed

lemma quiet_try_write: "quiet (snd st) (snd (snd (try_write ops p st)))"
  using try_write_frame [of ops p st] by (cases "try_write ops p st") auto

lemma quiet_read_clock: "quiet (snd st) (snd (snd (read_clock ops st)))"
  using read_clock_frame [of ops st] by (cases "read_clock ops st") auto

lemma quiet_await_from:
  "quiet (snd st) (snd (snd (await_puback_from ops v st)))" "quiet (snd st) (snd (snd (await_pubrec_from ops v st)))"
  "quiet (snd st) (snd (snd (await_pubcomp_from ops r st)))"
proof -
  obtain now st1 where rc: "read_clock ops st = (now, st1)" by (rule prod.exhaust)
  with quiet_read_clock [of st ops] have "quiet (snd st) (snd st1)" by simp
  with rc show "quiet (snd st) (snd (snd (await_puback_from ops v st)))" "quiet (snd st) (snd (snd (await_pubrec_from ops v st)))"
    "quiet (snd st) (snd (snd (await_pubcomp_from ops r st)))"
    by (auto simp: await_puback_from_def await_pubrec_from_def await_pubcomp_from_def split: qospid.split and_then_split option.splits)
qed

lemma file_pubrel_quiet: "quiet (snd st) (snd (snd (file_pubrel ops n c st)))"
  unfolding file_pubrel_def by (intro quiet_and_then quiet_await_from) (auto simp: vec_push_unchecked_def split: prod.split and_then_split)

lemma send_pending_pubrel_quiet: "quiet (snd st) (snd (snd (send_pending_pubrel ops n i st)))"
proof (induction ops n i st rule: send_pending_pubrel.induct)
  case (1 ops n i st)
  have f: "quiet w (snd (snd (file_pubrel ops n c (s, w))))" for s w c
    using file_pubrel_quiet [of "(s, w)"] by simp
  show ?case
    by (subst send_pending_pubrel.simps)
      (use 1 in \<open>auto intro!: quiet_and_then quiet_try_write f split: if_splits\<close>)
qed

lemma file_published_published:
  "published 1 0 (snd st) (snd (snd (file_published ops n c st)))"
proof (cases "qospid_qos (qospid c)")
  case AtMostOnce
  then show ?thesis by (simp add: file_published_def published_def)
next
  case AtLeastOnce
  have "quiet (snd st) (snd (snd (file_published ops n c st)))"
    unfolding file_published_def AtLeastOnce qos.case
    by (intro quiet_and_then quiet_await_from) (auto simp: vec_push_unchecked_def split: prod.split and_then_split)
  then show ?thesis by (rule published_quiet)
next
  case ExactlyOnce
  have "quiet (snd st) (snd (snd (file_published ops n c st)))"
    unfolding file_published_def ExactlyOnce qos.case
    by (intro quiet_and_then quiet_await_from) (auto simp: vec_push_unchecked_def split: prod.split and_then_split)
  then show ?thesis by (rule published_quiet)
qed

lemma send_pending_publishes_published:
  "published (length (send_publish (fst st)) - i) 0 (snd st) (snd (snd (send_pending_publishes ops n i st)))"
proof (induction "length (send_publish (fst st)) - i" arbitrary: i st rule: less_induct)
  case less
  let ?c = "send_publish (fst st) ! i"
  show ?case
  proof (cases "i < length (send_publish (fst st)) \<and> has_space n ?c (fst st)")
    case False
    show ?thesis
    proof (cases "i < length (send_publish (fst st))")
      case True
      then have "published (length (send_publish (fst st)) - Suc i) 0 (snd st) (snd (snd (send_pending_publishes ops n (Suc i) st)))"
        using less.hyps [of st "Suc i"] by simp
      then have "published (length (send_publish (fst st)) - i) 0 (snd st) (snd (snd (send_pending_publishes ops n (Suc i) st)))"
        by (rule published_mono) simp_all
      with True False show ?thesis by (subst send_pending_publishes.simps) simp
    next
      case False
      then show ?thesis by (subst send_pending_publishes.simps) (simp add: published_def)
    qed
  next
    case True
    obtain o1 s w where w: "try_write ops (borrow ?c) st = (o1, s, w)" by (rule prod_cases3)
    with try_write_frame [OF w] have s: "s = fst st" "quiet (snd st) w" by simp_all
    show ?thesis
    proof (cases "o1 = Ok True")
      case False
      with w True s(2) show ?thesis
        by (subst send_pending_publishes.simps) (cases o1; auto intro: published_quiet)
    next
      case o1: True
      let ?s = "s\<lparr>send_publish := vec_remove i (send_publish s)\<rparr>"
      let ?f = "file_published ops n (?c\<lparr>dup := True\<rparr>) (?s, w)"
      have lt: "length (send_publish s) - Suc i < length (send_publish (fst st)) - i" using True s(1) by auto
      have rest: "published (length (send_publish s) - Suc i) 0 (snd st2) (snd (snd (send_pending_publishes ops n i st2)))"
        if "?f = (v, st2)" for v st2
        using less.hyps [of st2 i] file_published_send_publish [OF that] True s(1) lt by simp
      have "published (0 + (1 + (length (send_publish s) - Suc i))) (0 + (0 + 0)) (snd st)
          (snd (snd (and_then ?f (\<lambda>_. send_pending_publishes ops n i))))"
      proof (rule published_trans [of _ _ _ w])
        show "published 0 0 (snd st) w" using s(2) by (rule published_quiet)
        show "published (1 + (length (send_publish s) - Suc i)) (0 + 0) w (snd (snd (and_then ?f (\<lambda>_. send_pending_publishes ops n i))))"
          using file_published_published [of "(?s, w)" ops n "?c\<lparr>dup := True\<rparr>"] rest by (intro published_and_then) auto
      qed
      moreover have "1 + (length (send_publish s) - Suc i) = length (send_publish (fst st)) - i" using True s(1) by auto
      ultimately show ?thesis
        using w o1 True s(1) by (subst send_pending_publishes.simps) simp
    qed
  qed
qed

lemma quiet_send_next: "(\<And>st. quiet (snd st) (snd (snd (f st)))) \<Longrightarrow> quiet (snd st) (snd (snd (send_next r f st)))"
  by (cases r) simp_all

lemma resend_each_quiet: "quiet (snd st) (snd (snd (resend_each ops overdue packet_of restart st)))"
proof (induction ops overdue packet_of restart st rule: resend_each.induct)
  case (2 ops overdue packet_of restart x xs w)
  obtain r s w1 where w: "try_write ops (packet_of x) (x # xs, w) = (r, s, w1)" by (rule prod_cases3)
  with quiet_try_write [of "(x # xs, w)" ops "packet_of x"] have q: "quiet w w1" by simp
  show ?case
  proof (cases "overdue x")
    case True
    have "quiet w1 (snd (snd (resend_each ops overdue packet_of restart (xs, w1))))" if "r = Ok True"
      using 2(1) [OF True, of True "(s, w1)"] w that by simp
    with True w q quiet_trans [OF q] show ?thesis by (cases r) (auto split: prod.splits)
  next
    case False
    with 2(2) show ?thesis by (auto split: prod.splits)
  qed
qed simp

lemma resend_publishes_quiet: "quiet (snd st) (snd (snd (resend_publishes ops st)))"
proof -
  obtain now s w where rc: "read_clock ops st = (now, s, w)" by (rule prod_cases3)
  with quiet_read_clock [of st ops] have q: "quiet (snd st) w" by simp
  obtain r xs w1 where a: "resend_await_publish ops now (await_pubacks s, w) = (r, xs, w1)" by (rule prod_cases3)
  with resend_each_quiet [of "(await_pubacks s, w)" ops] have q1: "quiet w w1"
    by (simp add: resend_await_publish_def) (metis snd_conv)
  obtain now2 s2 w2 where rc2: "read_clock ops (s\<lparr>await_pubacks := xs\<rparr>, w1) = (now2, s2, w2)" by (rule prod_cases3)
  with quiet_read_clock [of "(s\<lparr>await_pubacks := xs\<rparr>, w1)" ops] have q2: "quiet w1 w2" by simp
  obtain r2 ys w3 where b: "resend_await_publish ops now2 (await_pubrecs s2, w2) = (r2, ys, w3)" by (rule prod_cases3)
  with resend_each_quiet [of "(await_pubrecs s2, w2)" ops] have q3: "quiet w2 w3"
    by (simp add: resend_await_publish_def) (metis snd_conv)
  show ?thesis
    using rc a rc2 b q q1 q2 q3 quiet_trans [OF q q1] quiet_trans [OF quiet_trans [OF q q1] quiet_trans [OF q2 q3]]
    by (cases r) (auto simp: resend_publishes_def)
qed

lemma resend_pubrel_quiet: "quiet (snd st) (snd (snd (resend_pubrel ops st)))"
proof -
  obtain now s w where rc: "read_clock ops st = (now, s, w)" by (rule prod_cases3)
  with quiet_read_clock [of st ops] have q: "quiet (snd st) w" by simp
  have "quiet w (snd (snd (resend_each ops P f g (await_pubcomps s, w))))" for P f g
    using resend_each_quiet [of "(await_pubcomps s, w)" ops] by simp
  with rc quiet_trans [OF q] show ?thesis by (auto simp: resend_pubrel_def split: prod.splits) (metis snd_conv)
qed

lemma send_pending_pubrel_send_publish:
  "send_publish (fst (snd (send_pending_pubrel ops n i st))) = send_publish (fst st)"
proof (induction ops n i st rule: send_pending_pubrel.induct)
  case (1 ops n i st)
  have f: "send_publish (fst (snd (file_pubrel ops n c st))) = send_publish (fst st)" for c st
    using await_publish_from_fst(3) [of ops c st]
    by (auto simp: file_pubrel_def vec_push_unchecked_def split: and_then_split prod.splits)
  obtain r s w where w: "try_write ops (Pubrel (sr_pid (send_pubrels (fst st) ! i))) st = (r, s, w)" by (rule prod_cases3)
  have s: "s = fst st" using try_write_frame [OF w] by simp
  obtain r1 s1 w1 where x: "file_pubrel ops n (send_pubrels s ! i) (s\<lparr>send_pubrels := vec_remove i (send_pubrels s)\<rparr>, w) = (r1, s1, w1)"
    by (rule prod_cases3)
  with f [of "send_pubrels s ! i" "(s\<lparr>send_pubrels := vec_remove i (send_pubrels s)\<rparr>, w)"] have "send_publish s1 = send_publish s" by simp
  with 1 w s x show ?case
    by (subst send_pending_pubrel.simps) (cases r; cases r1; auto)
qed

lemma publishes_send_published:
  "published (length (send_publish (fst st))) 0 (snd st) (snd (snd (publishes_send_packets ops n st)))"
proof -
  obtain r s w where x: "send_pending_pubrel ops n 0 st = (r, s, w)" by (rule prod_cases3)
  have same: "send_publish s = send_publish (fst st)" "quiet (snd st) w"
    using send_pending_pubrel_send_publish [of ops n 0 st] send_pending_pubrel_quiet [of st ops n 0] x by simp_all
  have rest: "quiet (snd st1) (snd (snd (and_then (send_next r (resend_publishes ops) st1) (\<lambda>r st. send_next r (resend_pubrel ops) st))))"
    for r :: send_result and st1
    by (intro quiet_and_then quiet_send_next resend_publishes_quiet resend_pubrel_quiet)
  have "published (0 + (length (send_publish (fst st)) + 0)) (0 + (0 + 0)) (snd st) (snd (snd (publishes_send_packets ops n st)))"
    unfolding publishes_send_packets_def x
  proof (rule published_and_then)
    show "published 0 0 (snd st) (snd (snd (r, s, w)))" using same(2) by (simp add: published_quiet)
  next
    fix v st1 assume "(r, s, w) = (Ok v, st1)"
    then have st1: "st1 = (s, w)" by simp
    show "published (length (send_publish (fst st)) + 0) (0 + 0) (snd st1) (snd (snd (and_then (send_next v (send_pending_publishes ops n 0) st1)
        (\<lambda>r st. and_then (send_next r (resend_publishes ops) st) (\<lambda>r st. send_next r (resend_pubrel ops) st)))))"
    proof (rule published_and_then)
      show "published (length (send_publish (fst st))) 0 (snd st1) (snd (snd (send_next v (send_pending_publishes ops n 0) st1)))"
        using send_pending_publishes_published [of st1 0 ops n] st1 same(1)
        by (cases v) (simp_all add: published_def)
    qed (rule published_quiet [OF rest])
  qed
  then show ?thesis by simp
qed

lemma drain_quiet: "quiet (snd st) (snd (snd (drain ops mk i st)))"
proof (induction ops mk i st rule: drain.induct)
  case (1 ops mk i st)
  show ?case by (subst drain.simps) (use 1 in \<open>auto intro!: quiet_and_then quiet_try_write split: if_splits\<close>)
qed

lemma receives_send_quiet: "quiet (snd st) (snd (snd (receives_send_packets ops n st)))"
proof -
  have r: "quiet (snd st) (snd (snd (send_pubrecs ops n i st)))" for i st
  proof (induction "length (send_pubrec (fst st)) - i" arbitrary: i st rule: less_induct)
    case less
    obtain o1 s w where w: "try_write ops (Pubrec (send_pubrec (fst st) ! i)) st = (o1, s, w)" by (rule prod_cases3)
    have s: "s = fst st" "quiet (snd st) w" using try_write_frame [OF w] by simp_all
    define s2 where "s2 = s\<lparr>send_pubrec := vec_remove i (send_pubrec s)\<rparr>"
    define s3 where "s3 = (case vec_push (QUEUE n) (send_pubrec s ! i) (await_pubrel s2) of Inr q \<Rightarrow> s2\<lparr>await_pubrel := q\<rparr> | Inl _ \<Rightarrow> s2)"
    have "send_pubrec s3 = vec_remove i (send_pubrec s)" by (auto simp: s3_def s2_def split: sum.split)
    with less [of "(s3, w)" "Suc i"] s have rec: "quiet w (snd (snd (send_pubrecs ops n (Suc i) (s3, w))))" if "i < length (send_pubrec (fst st))"
      using that by auto
    show ?case
      using w s rec [unfolded s3_def s2_def] quiet_trans [OF s(2)]
      by (subst send_pubrecs.simps) (cases o1; auto simp: Let_def)
  qed
  have a: "quiet (snd st) (snd (snd (send_pubacks ops i st)))" "quiet (snd st) (snd (snd (send_pubcomps ops i st)))" for i st
  proof -
    obtain s w where st: "st = (s, w)" by (rule prod.exhaust)
    obtain r1 q1 w1 where 1: "drain ops Puback i (send_puback s, w) = (r1, q1, w1)" by (rule prod_cases3)
    obtain r2 q2 w2 where 2: "drain ops Pubcomp i (send_pubcomp s, w) = (r2, q2, w2)" by (rule prod_cases3)
    from 1 drain_quiet [of "(send_puback s, w)" ops Puback i] st
    show "quiet (snd st) (snd (snd (send_pubacks ops i st)))" by (simp add: send_pubacks_drain)
    from 2 drain_quiet [of "(send_pubcomp s, w)" ops Pubcomp i] st
    show "quiet (snd st) (snd (snd (send_pubcomps ops i st)))" by (simp add: send_pubcomps_drain)
  qed
  have c: "quiet (snd st) (snd (snd (if v = PartiallySent then (Ok PartiallySent, st) else send_pubcomps ops 0 st)))" for v st
    using a(2) by (cases v) simp_all
  have b: "quiet (snd st) (snd (snd (if v = PartiallySent then (Ok PartiallySent, st) else and_then (send_pubrecs ops n 0 st)
      (\<lambda>r st2. if r = PartiallySent then (Ok PartiallySent, st2) else send_pubcomps ops 0 st2))))" for v st
    using quiet_and_then [OF r c] by (cases v) simp_all
  show ?thesis unfolding receives_send_packets_def by (rule quiet_and_then [OF a(1) b])
qed

lemma file_request_quiet: "quiet (snd st) (snd (file_request ops n r st))"
proof -
  obtain now s w where rc: "read_clock ops st = (now, s, w)" by (rule prod_cases3)
  with quiet_read_clock [of st ops] have "quiet (snd st) w" by simp
  with rc show ?thesis by (auto simp: file_request_def new_await_ack_def split: sum.split)
qed

lemma send_requests_quiet: "quiet (snd st) (snd (snd (send_requests ops cd n st)))"
proof (induction "length (send_request (fst st))" arbitrary: st rule: less_induct)
  case less
  show ?case
  proof (cases "send_request (fst st)")
    case Nil
    then show ?thesis by (subst send_requests.simps) simp
  next
    case (Cons q rest)
    obtain s w where st: "st = (s, w)" by (rule prod.exhaust)
    show ?thesis
    proof (cases "create_packet cd q")
      case (Ok p)
      obtain o1 w1 where w: "try_write ops p (s, w) = (o1, s, w1)" "quiet w w1" by (rule try_write_cases)
      let ?f = "file_request ops n q (s\<lparr>send_request := rest\<rparr>, w1)"
      have "quiet w1 (snd ?f)" using file_request_quiet [of "(s\<lparr>send_request := rest\<rparr>, w1)"] by simp
      moreover have "quiet (snd ?f) (snd (snd (send_requests ops cd n ?f)))" using less [of ?f] Cons st by simp
      ultimately have "quiet w (snd (snd (send_requests ops cd n ?f)))" using w(2) quiet_trans by blast
      with Cons st Ok w show ?thesis by (subst send_requests.simps) (cases o1; auto)
    qed (use Cons st in \<open>subst send_requests.simps, simp\<close>)+
  qed
qed

lemma resend_entries_quiet: "quiet w (snd (snd (resend_entries ops cd now (xs, w))))"
proof (induction xs arbitrary: w)
  case (Cons x xs)
  show ?case
  proof (cases "SUB_RESEND_DURATION < now - request_sent x")
    case True
    show ?thesis
    proof (cases "create_packet cd (aa_request x)")
      case (Ok p)
      obtain o1 w1 where w: "try_write ops p (x # xs, w) = (o1, x # xs, w1)" "quiet w w1" by (rule try_write_cases)
      obtain t w2 where rc: "read_clock ops (x # xs, w1) = (t, x # xs, w2)" "quiet w1 w2" by (rule read_clock_cases)
      have "quiet w (snd (snd (resend_entries ops cd now (xs, w2))))"
        using quiet_trans [OF quiet_trans [OF w(2) rc(2)] Cons.IH] .
      with True Ok w rc show ?thesis by (cases o1) (auto split: prod.splits)
    qed (use True in simp_all)
  next
    case False
    with Cons.IH [of w] show ?thesis by (auto split: prod.splits)
  qed
qed simp

lemma subs_send_quiet: "quiet (snd st) (snd (snd (subs_send ops cd n st)))"
proof -
  have "quiet (snd st) (snd (snd (resend_requests ops cd st)))" for st
  proof -
    obtain now s w where rc: "read_clock ops st = (now, s, w)" by (rule prod_cases3)
    with quiet_read_clock [of st ops] have "quiet (snd st) w" by simp
    from quiet_trans [OF this resend_entries_quiet [of w ops cd now "await_acks s"]] rc show ?thesis
      by (auto simp: resend_requests_def split: prod.splits)
  qed
  then show ?thesis unfolding subs_send_def by (intro quiet_and_then quiet_send_next send_requests_quiet)
qed

section \<open>A round of the client\<close>

text \<open>The operations of the components on the state of a client.\<close>

lemma in_component_published:
  "published k j (snd st) (snd (snd (f (publishes (fst st), snd st)))) \<Longrightarrow> published k j (snd st) (snd (snd (in_publishes f st)))"
  "published k j (snd st) (snd (snd (g (received_publishes (fst st), snd st)))) \<Longrightarrow> published k j (snd st) (snd (snd (in_receives g st)))"
  "published k j (snd st) (snd (snd (h (subscribes (fst st), snd st)))) \<Longrightarrow> published k j (snd st) (snd (snd (in_subscribes h st)))"
  "published k j (snd st) (snd (snd (i (ping (fst st), snd st)))) \<Longrightarrow> published k j (snd st) (snd (snd (in_ping i st)))"
  by (auto simp: in_publishes_def in_receives_def in_subscribes_def in_ping_def split: prod.splits)

lemma on_connection_published: "published k j (snd st) (snd (snd (on_connection f st)))"
  by (simp add: on_connection_def published_none split: prod.splits)

lemma process_packet_published: "published 1 1 (snd st) (snd (snd (process_packet rt p st)))"
proof (cases p)
  case (Publish m)
  have "published 1 1 w (snd (snd (on_publish n m (s, w))))" for n s w
    by (auto simp: on_publish_def on_qos_2_publish_def deliver_eq Let_def published_def split: qospid.splits sum.splits and_then_split)
  with Publish show ?thesis by (auto simp: process_packet_def intro!: in_component_published(2))
next
  case (Pubrel i)
  have "published 1 1 w (snd (snd (on_pubrel n i (s, w))))" for n s w
    by (auto simp: on_pubrel_def Let_def published_def split: sum.splits option.splits)
  with Pubrel show ?thesis by (auto simp: process_packet_def intro!: in_component_published(2))
next
  case (Suback i codes)
  have "published 1 1 w (snd (snd (on_suback i codes (s, w))))" for s w
    by (auto simp: on_suback_def Let_def published_def split: option.splits request_type.splits)
  with Suback show ?thesis by (auto simp: process_packet_def intro!: in_component_published(3))
next
  case (Unsuback i)
  have "published 1 1 w (snd (on_unsuback i (s, w)))" for s w
    by (auto simp: on_unsuback_def Let_def published_def split: option.splits)
  with Unsuback show ?thesis by (auto simp: process_packet_def intro!: in_component_published(3))
next
  case Pingresp
  then show ?thesis
    by (auto simp: process_packet_def in_ping_def on_ping_response_def read_clock_def published_def split: prod.splits)
qed (auto simp: process_packet_def process_incoming_packet_def process_puback_def process_pubrec_def process_pubcomp_def
    in_publishes_def Let_def published_def split: prod.splits option.splits sum.splits)

lemma consume_packet_published: "published 1 1 (snd st) (snd (snd (consume_packet rt m st)))"
proof -
  obtain r st1 where x: "process_packet rt (snd m) st = (r, st1)" by (rule prod.exhaust)
  with process_packet_published [of st rt "snd m"] have 1: "published 1 1 (snd st) (snd st1)" by simp
  obtain d st2 where y: "on_connection (drop_packet m) st1 = (d, st2)" by (rule prod.exhaust)
  with on_connection_published [of 0 0 st1 "drop_packet m"] have 2: "published 0 0 (snd st1) (snd st2)" by simp
  from published_trans [OF 1 2] x y show ?thesis by (cases d) (simp_all add: consume_packet_def)
qed

lemma perform_published: "published 0 0 (snd st) (snd (perform rt req st))"
proof -
  have q: "published 0 0 (snd st) (snd (snd (take_qospid q st)))" for q st
    by (auto simp: take_qospid_def world_next_pid_def published_none split: qos.split prod.splits and_then_split)
  have a: "published 0 0 (snd st) (snd (snd (in_subscribes (add_request n ty topics uid) st)))" for n ty topics uid st
    by (auto simp: in_subscribes_def add_request_def world_next_pid_def published_none Let_def
        split: prod.splits and_then_split if_splits)
  have u: "published 0 0 (snd st) (snd (update_request f st))" for f :: "'c request_state \<Rightarrow> 'c request_state" and st
    by (simp add: update_request_def published_none)
  have sub: "published (0 + 0) (0 + 0) (snd st) (snd (snd (and_then (in_subscribes (add_request n ty topics uid) st)
      (\<lambda>_ st. (Ok (), update_request f st)))))" for n ty topics uid f st
    by (rule published_and_then [OF a]) (simp add: update_request_def published_none)
  show ?thesis
  proof (cases req)
    case (Publish_Request topic bytes q retained uid)
    have "published (0 + (0 + 0)) (0 + (0 + 0)) (snd st) (snd (snd (state_publish rt topic bytes q retained uid st)))"
      unfolding state_publish_def Let_def
    proof (intro published_and_then q)
      fix qp st1
      let ?m = "\<lparr>dup = False, qospid = qp, retain = retained, topic_name = topic, payload = bytes\<rparr>"
      show "published 0 0 (snd st1) (snd (snd (in_publishes (\<lambda>(p, w). case publishes_publish (rt_sizes rt) ?m uid p of (r, p') \<Rightarrow> (r, p', w)) st1)))"
        by (rule in_component_published(1)) (simp add: published_none split: prod.split)
    qed (simp add: u)
    with Publish_Request show ?thesis by simp
  qed (use sub u in \<open>simp_all add: state_subscribe_def state_unsubscribe_def state_disconnect_def add_subscribe_request_def [abs_def]
      add_unsubscribe_request_def [abs_def]\<close>)
qed

lemma other_tasks_published: "published 0 0 (snd st) (snd (other_tasks rt st))"
proof -
  obtain rs k where x: "rt_others rt (snd (env (snd st))) = (rs, k)" by (rule prod.exhaust)
  have all: "published 0 0 (snd st1) (snd (fold (perform rt) rs st1))" for st1
  proof (induction rs arbitrary: st1)
    case (Cons req rs)
    from published_trans [OF perform_published Cons.IH] show ?case by simp
  qed (simp add: published_none)
  have "published 0 0 (snd st) (snd (fst st, (snd st)\<lparr>env := (conn st, k)\<rparr>))" by (simp add: published_none)
  from published_trans [OF this all] x show ?thesis by (simp add: other_tasks_def)
qed

lemma poll_request_published: "poll_request rt st = (q, st') \<Longrightarrow> published 0 0 (snd st) (snd st')"
  by (auto simp: poll_request_def published_none split: prod.splits)

lemma send_components_published:
  "published (length (send_publish (publishes (fst st)))) 0 (snd st) (snd (snd (send_components rt st)))"
proof -
  have p: "published (length (send_publish (publishes (fst st)))) 0 (snd st)
      (snd (snd (in_publishes (publishes_send_packets (rt_ops rt) (rt_sizes rt)) st)))"
    by (rule in_component_published(1)) (use publishes_send_published [of "(publishes (fst st), snd st)"] in simp)
  have "published 0 0 (snd st1) (snd (snd (send_next r (in_receives (receives_send_packets (rt_ops rt) (rt_sizes rt))) st1)))"
    "published 0 0 (snd st1) (snd (snd (send_next r (in_subscribes (subs_send (rt_ops rt) (rt_codec rt) (rt_sizes rt))) st1)))"
    "published 0 0 (snd st1) (snd (snd (send_next r (in_ping (ping_send (rt_ops rt))) st1)))" for r st1
  proof -
    have "quiet (snd st1) (snd (snd (ping_send (rt_ops rt) (ping (fst st1), snd st1))))"
      using ping_send_quiet by (metis prod.collapse)
    then show "published 0 0 (snd st1) (snd (snd (send_next r (in_ping (ping_send (rt_ops rt))) st1)))"
      by (cases r) (simp_all add: published_none in_component_published(4) published_quiet)
    show "published 0 0 (snd st1) (snd (snd (send_next r (in_receives (receives_send_packets (rt_ops rt) (rt_sizes rt))) st1)))"
      using receives_send_quiet [of "(received_publishes (fst st1), snd st1)" "rt_ops rt" "rt_sizes rt"]
      by (cases r) (simp_all add: published_none in_component_published(2) published_quiet)
    show "published 0 0 (snd st1) (snd (snd (send_next r (in_subscribes (subs_send (rt_ops rt) (rt_codec rt) (rt_sizes rt))) st1)))"
      using subs_send_quiet [of "(subscribes (fst st1), snd st1)" "rt_ops rt" "rt_codec rt" "rt_sizes rt"]
      by (cases r) (simp_all add: published_none in_component_published(3) published_quiet)
  qed
  then have "published (length (send_publish (publishes (fst st))) + (0 + (0 + 0))) (0 + (0 + (0 + 0))) (snd st) (snd (snd (send_components rt st)))"
    unfolding send_components_def by (intro published_and_then p)
  then show ?thesis by simp
qed

lemma await_event_round_published: "published 1 1 (snd st) (snd (snd (await_event_round rt st)))"
proof -
  obtain q st1 where p: "poll_request rt st = (q, st1)" by (rule prod.exhaust)
  note 1 = poll_request_published [OF p]
  show ?thesis
  proof (cases q)
    case (Some n)
    with p published_mono [OF 1, of 1 1] show ?thesis by (simp add: await_event_round_def)
  next
    case None
    obtain pause s w where pp: "ping_pause (rt_ops rt) (ping (fst st1), snd st1) = (pause, s, w)" by (rule prod_cases3)
    then have "published 0 0 (snd st1) w"
      by (auto simp: ping_pause_def read_clock_def published_none split: prod.splits)
    with published_trans [OF 1 this] have 2: "published 0 0 (snd st) w" by simp
    obtain r st2 where io: "on_connection (run_io (rt_codec rt) (rt_net rt)) (fst st1, w) = (r, st2)" by (rule prod.exhaust)
    with published_trans [OF 2, of 0 0 "snd st2"] on_connection_published [of 0 0 "(fst st1, w)" "run_io (rt_codec rt) (rt_net rt)"]
    have 3: "published 0 0 (snd st) (snd st2)" by simp
    obtain q2 st3 where p2: "poll_request rt (other_tasks rt st2) = (q2, st3)" by (rule prod.exhaust)
    have 4: "published 0 0 (snd st) (snd st3)"
      using published_trans [OF 3 published_trans [OF other_tasks_published poll_request_published [OF p2]]] by simp
    then have 5: "published 1 1 (snd st) (snd (sleep_for rt pause st3))" by (simp add: published_def sleep_for_def)
    have 6: "published 1 1 (snd st) (snd (snd (and_then (consume_packet rt m st2) (\<lambda>_ st. (Ok True, st)))))" for m
    proof -
      have "published (1 + 0) (1 + 0) (snd st2) (snd (snd (and_then (consume_packet rt m st2) (\<lambda>_ st. (Ok True, st)))))"
        by (rule published_and_then [OF consume_packet_published]) (simp add: published_none)
      from published_trans [OF 3 this] show ?thesis by simp
    qed
    show ?thesis
      using None p pp io p2 5 6 published_mono [OF 2, of 1 1] published_mono [OF 3, of 1 1] published_mono [OF 4, of 1 1]
      by (cases r; cases q2) (auto simp: await_event_round_def)
  qed
qed

lemma run_once_published:
  assumes "length (send_publish (publishes (fst st))) \<le> N"
  shows "published (N + 1) 1 (snd st) (snd (snd (run_once rt st)))"
proof -
  obtain r st1 where e: "ensure_connected rt st = (r, st1)" by (rule prod.exhaust)
  then have st1: "publishes (fst st1) = publishes (fst st)" "published 0 0 (snd st) (snd st1)"
    by (auto simp: ensure_connected_def published_none split: prod.splits if_splits)
  have c: "published 1 1 (snd st2) (snd (snd (and_then (consume_packet rt m st2) (\<lambda>_ st. (Ok True, st)))))" for m st2
  proof -
    have "published (1 + 0) (1 + 0) (snd st2) (snd (snd (and_then (consume_packet rt m st2) (\<lambda>_ st. (Ok True, st)))))"
      by (rule published_and_then [OF consume_packet_published]) (simp add: published_none)
    then show ?thesis by simp
  qed
  have io: "published (0 + 1) (0 + 1) (snd st2) (snd (snd (and_then (on_connection (run_io_nonblocking (rt_codec rt) (rt_net rt)) st2)
      (\<lambda>packet st. case packet of Some m \<Rightarrow> and_then (consume_packet rt m st) (\<lambda>_ st. (Ok True, st)) | None \<Rightarrow> (Ok True, st)))))" for st2
    by (rule published_and_then [OF on_connection_published]) (use c in \<open>auto simp: published_none split: option.split\<close>)
  have rest: "published (length (send_publish (publishes (fst st1))) + 1) (0 + 1) (snd st1)
      (snd (snd (and_then (send_components rt st1) (\<lambda>send_packet_result st.
        if send_packet_result = PartiallySent then
          and_then (on_connection (run_io_nonblocking (rt_codec rt) (rt_net rt)) st) (\<lambda>packet st.
            case packet of Some m \<Rightarrow> and_then (consume_packet rt m st) (\<lambda>_ st. (Ok True, st)) | None \<Rightarrow> (Ok True, st))
        else await_event_round rt st))))"
    by (rule published_and_then [OF send_components_published]) (use io await_event_round_published in \<open>auto split: if_split\<close>)
  show ?thesis
  proof (cases r)
    case (Ok u)
    with e published_trans [OF st1(2) rest] have "published (length (send_publish (publishes (fst st))) + 1) 1 (snd st) (snd (snd (run_once rt st)))"
      by (simp add: run_once_def st1(1))
    then show ?thesis by (rule published_mono) (use assms in simp_all)
  qed (use e published_mono [OF st1(2), of "N + 1" 1] in \<open>simp_all add: run_once_def\<close>)
qed

lemma run_round_published:
  assumes "client_inv (rt_sizes rt) (fst st)"
  shows "published (QUEUE (rt_sizes rt) + 1) 1 (snd st) (snd (snd (run_round rt st)))"
proof -
  let ?st = "other_tasks rt st"
  have "client_inv (rt_sizes rt) (fst ?st)" using frame_other_tasks [of rt st] assms by (simp add: frame_def kept_def)
  then have "length (send_publish (publishes (fst ?st))) \<le> QUEUE (rt_sizes rt)" by (simp add: client_inv_def pub_inv_def)
  from published_trans [OF other_tasks_published run_once_published [OF this]]
  have p: "published (QUEUE (rt_sizes rt) + 1) 1 (snd st) (snd (snd (run_once rt ?st)))" by simp
  obtain r st1 where x: "run_once rt ?st = (r, st1)" by (rule prod.exhaust)
  have d: "published (QUEUE (rt_sizes rt) + 1) 1 (snd st)
      (snd (snd (and_then (on_connection (tcp_disconnect (rt_codec rt) (rt_net rt)) st1) (\<lambda>_ st. (Ok (Some ()), st)))))"
  proof -
    have "published (0 + 0) (0 + 0) (snd st1)
        (snd (snd (and_then (on_connection (tcp_disconnect (rt_codec rt) (rt_net rt)) st1) (\<lambda>_ st. (Ok (Some ()), st)))))"
      by (rule published_and_then [OF on_connection_published]) (simp add: published_none)
    moreover have "published (QUEUE (rt_sizes rt) + 1) 1 (snd st) (snd st1)" using p x by simp
    ultimately show ?thesis using published_trans by fastforce
  qed
  have e: "published (QUEUE (rt_sizes rt) + 1) 1 (snd st) (snd (set_error_and_sleep rt st1))"
    using p x by (simp add: published_def set_error_and_sleep_def)
  show ?thesis
    using p d e x by (cases r) (auto simp: run_round_def split: bool.split)
qed

end
