(* ===== verification/Client_Channels.thy ===== *)
theory Client_Channels
  imports Event_Channels Client_Properties
begin

text \<open>
  The rounds of the event loop over the bounded channels of \<open>src/src/state/mod.rs\<close> and
  \<open>src/src/state/receives2.rs\<close>: when their subscribers keep up, no publication waits, and
  the logs of the model stand for the channels.
\<close>

definition EVENT_CAPACITY :: nat where
  \<comment> \<open>\<open>events: PubSubChannel<M, MqttEvent, 8, 16, 2>\<close>\<close>
  "EVENT_CAPACITY = 8"

definition MESSAGE_CAPACITY :: nat where
  \<comment> \<open>\<open>queue: PubSubChannel<M, ReceivedPublish<BUFFER, TOPIC_SIZE>, 1, 8, 1>\<close>\<close>
  "MESSAGE_CAPACITY = 1"

section \<open>Subscribers that keep up\<close>

text \<open>C16: a round of the event loop publishes at most one event for every place of the publish queue and one
  for the packet it receives, and delivers at most one message.  So no publication waits when every
  subscriber has that much room and has taken the message of the round before; and a client call
  that waits on the channel then sees exactly the events of the log.\<close>

theorem round_fits_channels:
  assumes "round_start rt (new_state rt config will net k wakers) st" and "run_round rt st = (r, st')"
    and events: "pubsub_channel EVENT_CAPACITY ev_unread ev_publish ev_read"
    and messages: "pubsub_channel MESSAGE_CAPACITY msg_unread msg_publish msg_read"
    and "\<forall>s us. ev_unread ec s = Some us \<longrightarrow> length us + QUEUE (rt_sizes rt) < EVENT_CAPACITY"
    and "\<forall>s us. msg_unread mc s = Some us \<longrightarrow> us = []"
  shows "\<exists>es ms ec' mc'. event_log (snd st') = event_log (snd st) @ es \<and> length es \<le> QUEUE (rt_sizes rt) + 1
    \<and> received_log (snd st') = received_log (snd st) @ ms \<and> length ms \<le> 1
    \<and> publish_all ev_publish es ec = Some ec' \<and> publish_all msg_publish ms mc = Some mc'
    \<and> (\<forall>s us. ev_unread ec s = Some us \<longrightarrow> fst (next_until ev_read s f ec') = await_event f (us @ es))"
proof -
  have "client_inv (rt_sizes rt) (fst st)" using round_start_inv [OF assms(1) round_inv_new] by (simp add: round_inv_def)
  from run_round_published [OF this] assms(2) obtain es ms where
    es: "event_log (snd st') = event_log (snd st) @ es" "length es \<le> QUEUE (rt_sizes rt) + 1" and
    ms: "received_log (snd st') = received_log (snd st) @ ms" "length ms \<le> 1" by (auto simp: published_def)
  have "\<forall>s us. ev_unread ec s = Some us \<longrightarrow> length us + length es \<le> EVENT_CAPACITY"
    using assms(5) es(2) by fastforce
  with pubsub_channel.publish_all_iff [OF events] obtain ec' where ec: "publish_all ev_publish es ec = Some ec'" by blast
  have "\<forall>s us. msg_unread mc s = Some us \<longrightarrow> length us + length ms \<le> MESSAGE_CAPACITY"
    using assms(6) ms(2) by (fastforce simp: MESSAGE_CAPACITY_def)
  with pubsub_channel.publish_all_iff [OF messages] obtain mc' where mc: "publish_all msg_publish ms mc = Some mc'" by blast
  have "fst (next_until ev_read s f ec') = await_event f (us @ es)" if "ev_unread ec s = Some us" for s us
    using pubsub_channel.next_until_unread [OF events, of ec' s "us @ es" f]
      pubsub_channel.publish_all_unread [OF events ec, of s] that by simp
  with es ms ec mc show ?thesis by blast
qed

theorem round_fits_channels_witness:
  "\<exists>es ec'. event_log (snd (snd (run_round (sample_rt two_requests) (sample_client [])))) = event_log (snd (sample_client [])) @ es
    \<and> publish_all (log_publish EVENT_CAPACITY) es \<lparr>log_messages = [], log_places = [(0 :: nat, 0)]\<rparr> = Some ec'"
proof -
  obtain r st' where r: "run_round (sample_rt two_requests) (sample_client []) = (r, st')" by (rule prod.exhaust)
  have s: "sample_client [] = new_state (sample_rt two_requests) (new_config (Ip (V4 0)) None [] None) None
      \<lparr>bytes_sent = [], bytes_received = []\<rparr> 0 ([], [])"
    by (simp add: sample_client_def new_state_def sample_rt_def rt_ops_def)
  have start: "round_start (sample_rt two_requests) (new_state (sample_rt two_requests) (new_config (Ip (V4 0)) None [] None) None
      \<lparr>bytes_sent = [], bytes_received = []\<rparr> 0 ([], [])) (sample_client [])"
    unfolding s by (rule round_start.first_round)
  have u: "\<forall>s us. log_unread \<lparr>log_messages = [], log_places = [(0 :: nat, 0)]\<rparr> s = Some us
      \<longrightarrow> length us + QUEUE (rt_sizes (sample_rt two_requests)) < EVENT_CAPACITY"
    by (auto simp: log_unread_def sample_rt_def sample_sizes_def EVENT_CAPACITY_def split: if_splits)
  have m: "\<forall>s us. log_unread \<lparr>log_messages = [] :: received_publish list, log_places = [] :: (nat \<times> nat) list\<rparr> s = Some us \<longrightarrow> us = []"
    by (auto simp: log_unread_def)
  from round_fits_channels [OF start r lc.pubsub_channel_axioms lc.pubsub_channel_axioms u m, of "\<lambda>_. None"] r
  show ?thesis by auto
qed

section \<open>A subscriber that does not\<close>

text \<open>Messages of QoS 0 are completed as soon as they are written: their completions are published in one
  call, which holds the lock of the publishes.\<close>

lemma completions_in_one_call:
  assumes "accepting ops" and "list_all (\<lambda>m. qospid m = QP_AtMostOnce) (send_publish s)"
  shows "\<exists>w'. send_pending_publishes ops n 0 (s, w) = (Ok SentAll, s\<lparr>send_publish := []\<rparr>, w')
    \<and> event_log w' = event_log w @ map (\<lambda>m. PublishDone (op_unique_id m)) (send_publish s)"
  using assms(2)
proof (induction "send_publish s" arbitrary: s w)
  case Nil
  from Nil(1) [symmetric] have "s\<lparr>send_publish := []\<rparr> = s" by (cases s) simp
  with Nil show ?case by (simp add: send_pending_publishes.simps)
next
  case (Cons m ms)
  from assms(1) obtain e where w: "try_write ops (borrow m) (s, w) = (Ok True, s, w\<lparr>env := e\<rparr>)" by (rule try_write_accepting)
  let ?s = "s\<lparr>send_publish := ms\<rparr>" let ?w = "publish_event (PublishDone (op_unique_id m)) (w\<lparr>env := e\<rparr>)"
  have q: "qospid m = QP_AtMostOnce" "list_all (\<lambda>m. qospid m = QP_AtMostOnce) (send_publish ?s)"
    using Cons.prems Cons.hyps(2) [symmetric] by simp_all
  have "send_pending_publishes ops n 0 (s, w) = send_pending_publishes ops n 0 (?s, ?w)"
    using w q Cons.hyps(2) [symmetric]
    by (subst send_pending_publishes.simps) (simp add: has_space_def file_published_def vec_remove_def)
  moreover from Cons.hyps(1) [of ?s ?w] q obtain w' where
    "send_pending_publishes ops n 0 (?s, ?w) = (Ok SentAll, ?s\<lparr>send_publish := []\<rparr>, w')"
    "event_log w' = event_log ?w @ map (\<lambda>m. PublishDone (op_unique_id m)) ms" by auto
  ultimately show ?case using Cons.hyps(2) [symmetric] by simp
qed

text \<open>When they and what a subscriber has not read yet are more than the channel holds, a subscriber that
  does not read between two of them stops the call, for instance a publish call that waits for the lock
  or for room in the queue.\<close>

lemma completions_overflow_channel:
  assumes "accepting ops" and "list_all (\<lambda>m. qospid m = QP_AtMostOnce) (send_publish s)"
    and channel: "pubsub_channel EVENT_CAPACITY ev_unread ev_publish ev_read" and "ev_unread ec subscriber = Some us"
    and "send_publish s \<noteq> []" and "EVENT_CAPACITY < length us + length (send_publish s)"
  shows "\<exists>es w'. send_pending_publishes ops n 0 (s, w) = (Ok SentAll, s\<lparr>send_publish := []\<rparr>, w')
    \<and> event_log w' = event_log w @ es \<and> publish_all ev_publish es ec = None"
proof -
  let ?es = "map (\<lambda>m. PublishDone (op_unique_id m)) (send_publish s)"
  from completions_in_one_call [OF assms(1,2)] obtain w' where
    w': "send_pending_publishes ops n 0 (s, w) = (Ok SentAll, s\<lparr>send_publish := []\<rparr>, w')" "event_log w' = event_log w @ ?es" by blast
  have "\<not> (\<exists>ec'. publish_all ev_publish ?es ec = Some ec')"
    using pubsub_channel.publish_all_iff [OF channel, of ?es ec] assms(4-6) by fastforce
  with w' show ?thesis by (intro exI [of _ ?es] exI [of _ w']) (cases "publish_all ev_publish ?es ec"; simp)
qed

text \<open>The channel of received messages holds one.  A task that has subscribed to it and waits for something
  else, such as the SUBACK of its topic, stops the event loop with the second message it is sent; the
  broker may send them before the SUBACK.\<close>

lemma two_messages_overflow_channel:
  assumes "on_publish n p1 (s, w) = (Ok (), s1, w1)" and "on_publish n p2 (s1, w1) = (Ok (), s2, w2)"
    and "qospid p1 = QP_AtMostOnce" and "qospid p2 = QP_AtMostOnce"
    and channel: "pubsub_channel MESSAGE_CAPACITY msg_unread msg_publish msg_read" and "msg_unread mc subscriber = Some us"
  shows "\<exists>ms. received_log w2 = received_log w @ ms \<and> publish_all msg_publish ms mc = None"
proof -
  from assms(1-4) obtain m1 m2 where m: "received_log w2 = received_log w @ [m1, m2]"
    by (auto simp: on_publish_def deliver_def and_then_Ok)
  have "\<not> (\<exists>mc'. publish_all msg_publish [m1, m2] mc = Some mc')"
    using pubsub_channel.publish_all_iff [OF channel, of "[m1, m2]" mc] assms(6) by (fastforce simp: MESSAGE_CAPACITY_def)
  with m show ?thesis by (intro exI [of _ "[m1, m2]"]) (cases "publish_all msg_publish [m1, m2] mc"; simp)
qed

end
