(* ===== verification/Waiting_Publications.thy ===== *)
theory Waiting_Publications
  imports Client_Channels Locked_Components
begin

text \<open>
  Publications that wait.  \<open>send_pending_publishes\<close> of \<open>src/src/state/publish2.rs\<close> awaits the publication of
  a completion while it holds the lock of the publishes; here it is a future that is polled again and
  keeps its place.  While the subscribers read it ends, and what it has done then is stated in full; it
  does what \<open>Publish_Out.send_pending_publishes\<close> does as long as the channel takes the completions.
  A publish call that waits for that lock and is itself the subscriber without room never returns,
  and neither does the event loop.
\<close>

section \<open>The future of sending\<close>

text \<open>The place of the future: the event it waits to publish, if any, and the index of its loop.\<close>

type_synonym send_future = "mqtt_event option \<times> nat"

definition keep_place :: "send_future \<Rightarrow> 'c \<Rightarrow> 'a outcome \<times> 's \<Rightarrow> 'a outcome \<times> send_future \<times> 'c \<times> 's" where
  "keep_place fut c x = (case x of (r, st) \<Rightarrow> (r, fut, c, st))"

lemma keep_place_eq [simp]: "keep_place fut c (r, st) = (r, fut, c, st)"
  by (simp add: keep_place_def)

lemma keep_place_iff: "keep_place fut c x = (r, fut', c', st) \<longleftrightarrow> x = (r, st) \<and> fut' = fut \<and> c' = c"
  by (cases x) auto

function poll_sending :: "'e ops \<Rightarrow> sizes \<Rightarrow> (mqtt_event \<Rightarrow> 'c \<Rightarrow> 'c option) \<Rightarrow> mqtt_event option \<Rightarrow> nat \<Rightarrow> 'c
    \<Rightarrow> publishes_inner \<times> 'e world \<Rightarrow> send_result outcome \<times> send_future \<times> 'c \<times> publishes_inner \<times> 'e world" where
  "poll_sending ops n publish (Some event) i c st =
     (case publish event c of
        None \<Rightarrow> (Pending, (Some event, i), c, st)
      | Some c' \<Rightarrow> poll_sending ops n publish None i c' (fst st, publish_event event (snd st)))"
| "poll_sending ops n publish None i c st =
     (if i < length (send_publish (fst st)) then
        if has_space n (send_publish (fst st) ! i) (fst st) then
          and_then (keep_place (None, i) c (try_write ops (borrow (send_publish (fst st) ! i)) st)) (\<lambda>sent (_, c, st1).
            if \<not> sent then (Ok PartiallySent, (None, i), c, st1)
            else
              let current = (send_publish (fst st1) ! i)\<lparr>dup := True\<rparr>;
                  st2 = ((fst st1)\<lparr>send_publish := vec_remove i (send_publish (fst st1))\<rparr>, snd st1)
              in if qospid_qos (qospid current) = AtMostOnce then
                   poll_sending ops n publish (Some (PublishDone (op_unique_id current))) i c st2
                 else
                   and_then (keep_place (None, i) c (file_published ops n current st2)) (\<lambda>_ (_, c, st3).
                     poll_sending ops n publish None i c st3))
        else poll_sending ops n publish None (i + 1) c st
      else (Ok SentAll, (None, i), c, st))"
  by pat_completeness auto
termination
  by (relation "measure (\<lambda>(ops, n, publish, ev, i, c, st).
        2 * (length (send_publish (fst st)) - i) + (if ev = None then 0 else 1))")
    (auto simp: keep_place_iff dest!: try_write_frame file_published_send_publish)

declare poll_sending.simps(2) [simp del]

text \<open>\<open>agrees\<close>: the poll ends like the operation on logs, with its events in the channel, or it waits for a
  place in the channel.\<close>

definition agrees :: "(mqtt_event \<Rightarrow> 'c \<Rightarrow> 'c option) \<Rightarrow> mqtt_event list \<Rightarrow> 'c \<Rightarrow> send_result outcome \<times> publishes_inner \<times> 'e world
    \<Rightarrow> send_result outcome \<times> send_future \<times> 'c \<times> publishes_inner \<times> 'e world \<Rightarrow> bool" where
  "agrees publish es c x y \<longleftrightarrow>
     (case publish_all publish es c of
        Some c' \<Rightarrow> \<exists>fut. y = (fst x, fut, c', snd x)
      | None \<Rightarrow> \<exists>event i c' st. y = (Pending, (Some event, i), c', st) \<and> publish event c' = None)"

lemma agrees_none: "agrees publish [] c (r, st) (r, fut, c, st)"
  by (simp add: agrees_def)

lemma sending_extends_log:
  obtains es where "event_log (snd (snd (send_pending_publishes ops n i st))) = event_log (snd st) @ es"
  using send_pending_publishes_published [of st i ops n] by (auto simp: published_def)

lemma file_published_events:
  assumes "file_published ops n m (s, w) = (r, s', w')"
  shows "event_log w' = (if qospid_qos (qospid m) = AtMostOnce then event_log w @ [PublishDone (op_unique_id m)] else event_log w)"
proof (cases "qospid_qos (qospid m)")
  case AtMostOnce
  with assms show ?thesis by (auto simp: file_published_def publish_event_def)
next
  case AtLeastOnce
  have "quiet w (snd (snd (file_published ops n m (s, w))))"
    unfolding file_published_def AtLeastOnce qos.case
    by (intro quiet_and_then) (use quiet_await_from(1) [of "(s, w)"] in \<open>auto simp: vec_push_unchecked_def split: prod.split and_then_split\<close>)
  with assms AtLeastOnce show ?thesis by (simp add: quiet_def)
next
  case ExactlyOnce
  have "quiet w (snd (snd (file_published ops n m (s, w))))"
    unfolding file_published_def ExactlyOnce qos.case
    by (intro quiet_and_then) (use quiet_await_from(2) [of "(s, w)"] in \<open>auto simp: vec_push_unchecked_def split: prod.split and_then_split\<close>)
  with assms ExactlyOnce show ?thesis by (simp add: quiet_def)
qed

lemma poll_sending_agrees:
  assumes "event_log (snd (snd (send_pending_publishes ops n i st))) = event_log (snd st) @ es"
  shows "agrees publish es c (send_pending_publishes ops n i st) (poll_sending ops n publish None i c st)"
  using assms
proof (induction "length (send_publish (fst st)) - i" arbitrary: i st c es rule: less_induct)
  case less
  let ?m = "send_publish (fst st) ! i"
  consider (stop) "\<not> i < length (send_publish (fst st))"
    | (full) "i < length (send_publish (fst st))" "\<not> has_space n ?m (fst st)"
    | (send) "i < length (send_publish (fst st))" "has_space n ?m (fst st)" by blast
  then show ?case
  proof cases
    case stop
    with less.prems show ?thesis by (simp add: send_pending_publishes.simps [of _ _ i] poll_sending.simps(2) agrees_none)
  next
    case full
    with less.prems less.hyps [of st "Suc i"] show ?thesis
      by (simp add: send_pending_publishes.simps [of _ _ i] poll_sending.simps(2) [of _ _ _ i])
  next
    case send
    obtain o1 s1 w1 where w: "try_write ops (borrow ?m) st = (o1, s1, w1)" by (rule prod_cases3)
    with try_write_frame [OF w] have f: "s1 = fst st" "event_log w1 = event_log (snd st)" by (simp_all add: quiet_def)
    show ?thesis
    proof (cases "o1 = Ok True")
      case False
      with w send less.prems f show ?thesis
        by (cases o1) (auto simp: send_pending_publishes.simps [of _ _ i] poll_sending.simps(2) [of _ _ _ i] agrees_none)
    next
      case True
      let ?m = "(send_publish s1 ! i)\<lparr>dup := True\<rparr>"
      let ?s = "s1\<lparr>send_publish := vec_remove i (send_publish s1)\<rparr>"
      obtain o2 s2 w2 where p: "file_published ops n ?m (?s, w1) = (o2, s2, w2)" by (rule prod_cases3)
      from True w send p have step: "send_pending_publishes ops n i st
          = and_then (o2, s2, w2) (\<lambda>_ st2. send_pending_publishes ops n i st2)"
        using f(1) by (simp add: send_pending_publishes.simps [of _ _ i st])
      have lt: "length (send_publish s2) - i < length (send_publish (fst st)) - i"
        using file_published_send_publish [OF p] send(1) f(1) by simp
      show ?thesis
      proof (cases "qospid_qos (qospid ?m) = AtMostOnce")
        case q: True
        then have p': "o2 = Ok ()" "s2 = ?s" "w2 = publish_event (PublishDone (op_unique_id ?m)) w1"
          using p by (simp_all add: file_published_def)
        let ?ev = "PublishDone (op_unique_id ?m)"
        have poll: "poll_sending ops n publish None i c st = poll_sending ops n publish (Some ?ev) i c (?s, w1)"
          using True w send q f(1) by (simp add: poll_sending.simps(2) [of _ _ _ i _ st] Let_def)
        obtain es' where es': "event_log (snd (snd (send_pending_publishes ops n i (s2, w2)))) = event_log w2 @ es'"
          by (rule sending_extends_log [of ops n i "(s2, w2)"]) simp
        with less.prems step p' f(2) have es: "es = ?ev # es'" by (simp add: publish_event_def)
        show ?thesis
        proof (cases "publish ?ev c")
          case None
          with poll es show ?thesis by (simp add: agrees_def)
        next
          case (Some c1)
          have "agrees publish es' c1 (send_pending_publishes ops n i (s2, w2)) (poll_sending ops n publish None i c1 (s2, w2))"
            using less.hyps [of "(s2, w2)" i] lt es' by simp
          with Some poll es step p' show ?thesis by (simp add: agrees_def)
        qed
      next
        case q: False
        have poll: "poll_sending ops n publish None i c st
            = and_then (o2, (None, i), c, s2, w2) (\<lambda>_ (_, c, st3). poll_sending ops n publish None i c st3)"
          using True w send q f(1) p by (simp add: poll_sending.simps(2) [of _ _ _ i _ st] Let_def)
        have e: "event_log w2 = event_log (snd st)" using file_published_events [OF p] q f(2) by simp
        show ?thesis
        proof (cases "o2 = Ok ()")
          case True
          with less.prems step e have "event_log (snd (snd (send_pending_publishes ops n i (s2, w2)))) = event_log w2 @ es" by simp
          with less.hyps [of "(s2, w2)" i] lt True step poll show ?thesis by simp
        next
          case False
          with less.prems step e poll show ?thesis by (cases o2) (auto simp: agrees_none)
        qed
      qed
    qed
  qed
qed

section \<open>Sending while the subscribers read\<close>

























section \<open>The event loop and a publish call\<close>

text \<open>The event loop sends under the lock of the publishes, a publish call is polled for that lock, and other
  tasks read their events.\<close>

record ('w, 'c, 's, 'e) contest =
  cs_wakers :: "'w waker_ops"
  cs_publish :: "mqtt_event \<Rightarrow> 'c \<Rightarrow> 'c option"
  cs_read :: "'s \<Rightarrow> 'c \<Rightarrow> (mqtt_event \<times> 'c) option"
  cs_ops :: "'e ops"
  cs_sizes :: sizes
  cs_task :: task
  cs_message :: publish
  cs_unique_id :: unique_id

record ('w, 'c, 'e) contest_state =
  cs_future :: send_future
  cs_channel :: 'c
  cs_mutex :: "'w publishes_mutex"
  cs_world :: "'e world"

datatype 's contender = Event_Loop | Publish_Call | Reader 's

fun poll_contender :: "('w, 'c, 's, 'e) contest \<Rightarrow> 's contender \<Rightarrow> ('w, 'c, 'e) contest_state
    \<Rightarrow> unit outcome \<times> ('w, 'c, 'e) contest_state" where
  \<comment> \<open>The event loop holds the lock, and goes on holding it for the rest of \<open>send_packets\<close>.\<close>
  "poll_contender cs Event_Loop st =
     (case poll_sending (cs_ops cs) (cs_sizes cs) (cs_publish cs) (fst (cs_future st)) (snd (cs_future st)) (cs_channel st)
             (mx_value (cs_mutex st), cs_world st) of
        (r, fut, c, s, w) \<Rightarrow>
          (obind r (\<lambda>_. Ok ()),
           st\<lparr>cs_future := fut, cs_channel := c, cs_mutex := (cs_mutex st)\<lparr>mx_value := s\<rparr>, cs_world := w\<rparr>))"
| "poll_contender cs Publish_Call st =
     (case poll_publish (cs_wakers cs) (cs_task cs) (cs_sizes cs) (cs_message cs) (cs_unique_id cs) (cs_mutex st) of
        (r, m) \<Rightarrow> (r, st\<lparr>cs_mutex := m\<rparr>))"
| "poll_contender cs (Reader s) st =
     (case cs_read cs s (cs_channel st) of
        Some (_, c) \<Rightarrow> (Ok (), st\<lparr>cs_channel := c\<rparr>)
      | None \<Rightarrow> (Pending, st))"

primrec polls :: "('w, 'c, 's, 'e) contest \<Rightarrow> 's contender list \<Rightarrow> ('w, 'c, 'e) contest_state
    \<Rightarrow> ('s contender \<times> unit outcome) list \<times> ('w, 'c, 'e) contest_state" where
  "polls cs [] st = ([], st)"
| "polls cs (x # xs) st =
     (case poll_contender cs x st of (r, st1) \<Rightarrow> (case polls cs xs st1 of (rs, st2) \<Rightarrow> ((x, r) # rs, st2)))"

text \<open>The completions still to be published do not fit what the subscriber has not read yet.\<close>

definition overflows :: "nat \<Rightarrow> mqtt_event list option \<Rightarrow> mqtt_event option \<Rightarrow> publishes_inner \<Rightarrow> bool" where
  "overflows cap us ev s \<longleftrightarrow> list_all (\<lambda>m. qospid m = QP_AtMostOnce) (send_publish s)
     \<and> (ev \<noteq> None \<or> send_publish s \<noteq> [])
     \<and> (\<exists>ms. us = Some ms \<and> cap < length ms + (if ev = None then 0 else 1) + length (send_publish s))"

context pubsub_channel begin

lemma read_others: "read s c = Some (m, c') \<Longrightarrow> s' \<noteq> s \<Longrightarrow> unread c' s' = unread c s'"
  using read_message [of c s] read_waits [of c s] read_subscribed [of c s]
  by (cases "unread c s"; cases "the (unread c s)") force+

lemma published_room:
  assumes "publish m c = Some c'" and "unread c s = Some us"
  shows "length us < cap \<and> unread c' s = Some (us @ [m])"
proof -
  have "\<not> cap \<le> length us" using assms publish_waits [of m c] by auto
  with publish_appends [OF assms(1), of s] assms(2) show ?thesis by simp
qed

end

lemma poll_sending_waits:
  assumes channel: "pubsub_channel cap unread publish read" and "accepting ops" and "overflows cap (unread c s) ev p"
    and "poll_sending ops n publish ev 0 c (p, w) = (r, fut, c', p', w')"
  shows "r = Pending \<and> (\<exists>event. fut = (Some event, 0) \<and> overflows cap (unread c' s) (Some event) p')"
  using assms(3,4)
proof (induction "2 * length (send_publish p) + (if ev = None then 0 else 1)" arbitrary: ev c p w rule: less_induct)
  case less
  from less.prems(1) obtain us where us: "unread c s = Some us" by (auto simp: overflows_def)
  show ?case
  proof (cases ev)
    case None
    with less.prems(1) obtain m ms where q: "send_publish p = m # ms" "qospid m = QP_AtMostOnce"
      by (cases "send_publish p") (auto simp: overflows_def)
    obtain e where w: "try_write ops (borrow m) (p, w) = (Ok True, p, w\<lparr>env := e\<rparr>)" by (rule try_write_accepting [OF assms(2)])
    let ?ev = "PublishDone (op_unique_id m)" let ?p = "p\<lparr>send_publish := ms\<rparr>"
    have "poll_sending ops n publish ev 0 c (p, w) = poll_sending ops n publish (Some ?ev) 0 c (?p, w\<lparr>env := e\<rparr>)"
      using None q w by (simp add: poll_sending.simps(2) [of _ _ _ 0 _ "(p, w)"] has_space_def vec_remove_def Let_def)
    moreover have "overflows cap (unread c s) (Some ?ev) ?p" using less.prems(1) None q by (simp add: overflows_def)
    ultimately show ?thesis using less.hyps [of ?p "Some ?ev" c] less.prems(2) None q by simp
  next
    case (Some event)
    show ?thesis
    proof (cases "publish event c")
      case None
      with Some less.prems show ?thesis by auto
    next
      case c1: (Some c1)
      with pubsub_channel.published_room [OF channel c1 us]
      have "unread c1 s = Some (us @ [event])" "length us < cap" by simp_all
      with less.prems(1) Some us have "overflows cap (unread c1 s) None p" by (auto simp: overflows_def)
      with less.hyps [of p None c1] less.prems(2) Some c1 show ?thesis by simp
    qed
  qed
qed

lemma poll_publish_locked:
  assumes "locked m"
  shows "poll_publish wops t n p uid m = (Pending, m\<lparr>mx_wakers := wr_register wops t (mx_wakers m)\<rparr>)"
  using assms by (simp add: poll_publish_def poll_try_with_lock_def)

text \<open>No poll of a task other than the subscriber's own reading leads out of this state.\<close>

definition blocked :: "nat \<Rightarrow> mqtt_event list option \<Rightarrow> ('w, 'c, 'e) contest_state \<Rightarrow> bool" where
  "blocked cap us st \<longleftrightarrow> locked (cs_mutex st) \<and> snd (cs_future st) = 0 \<and> overflows cap us (fst (cs_future st)) (mx_value (cs_mutex st))"

lemma blocked_kept:
  assumes channel: "pubsub_channel cap unread (cs_publish cs) (cs_read cs)" and "accepting (cs_ops cs)"
    and "blocked cap (unread (cs_channel st) subscriber) st" and "x \<noteq> Reader subscriber"
    and "poll_contender cs x st = (r, st')"
  shows "blocked cap (unread (cs_channel st') subscriber) st' \<and> (x = Event_Loop \<or> x = Publish_Call \<longrightarrow> r = Pending)"
proof (cases x)
  case Event_Loop
  obtain r1 fut c p w where x: "poll_sending (cs_ops cs) (cs_sizes cs) (cs_publish cs) (fst (cs_future st)) (snd (cs_future st)) (cs_channel st)
      (mx_value (cs_mutex st), cs_world st) = (r1, fut, c, p, w)" by (metis prod_cases5)
  have "snd (cs_future st) = 0" using assms(3) by (simp add: blocked_def)
  with x poll_sending_waits [OF channel assms(2), of "cs_channel st" subscriber "fst (cs_future st)" "mx_value (cs_mutex st)"] assms(3)
  have "r1 = Pending" "\<exists>event. fut = (Some event, 0) \<and> overflows cap (unread c subscriber) (Some event) p"
    by (auto simp: blocked_def)
  with x Event_Loop assms(3,5) show ?thesis by (auto simp: blocked_def)
next
  case Publish_Call
  with assms(3,5) show ?thesis by (auto simp: blocked_def poll_publish_locked)
next
  case (Reader s)
  show ?thesis
  proof (cases "cs_read cs s (cs_channel st)")
    case (Some mc)
    with pubsub_channel.read_others [OF channel, of s "cs_channel st" "fst mc" "snd mc" subscriber] Reader assms(3-5)
    show ?thesis by (auto simp: blocked_def split: prod.splits)
  qed (use Reader assms(3,5) in auto)
qed

lemma blocked_forever:
  assumes channel: "pubsub_channel cap unread (cs_publish cs) (cs_read cs)" and "accepting (cs_ops cs)"
    and "blocked cap (unread (cs_channel st) subscriber) st" and "Reader subscriber \<notin> set xs"
    and "polls cs xs st = (rs, st')"
  shows "\<forall>(x, r) \<in> set rs. x = Event_Loop \<or> x = Publish_Call \<longrightarrow> r = Pending"
  using assms(3-5)
proof (induction xs arbitrary: st rs)
  case (Cons x xs)
  obtain r st1 where x: "poll_contender cs x st = (r, st1)" by (rule prod.exhaust)
  obtain rs1 where xs: "polls cs xs st1 = (rs1, st')" "rs = (x, r) # rs1" using Cons.prems(3) x by (auto split: prod.splits)
  from blocked_kept [OF channel assms(2) Cons.prems(1) _ x] Cons.prems(2) Cons.IH [OF _ _ xs(1)] xs(2) show ?case by auto
qed simp

section \<open>Properties\<close>






text \<open>C17: the event loop and a publish call can block each other for good.  The loop holds the lock of the
  publishes and has messages of QoS 0 to send, which the connection takes; a call that waits for the
  lock has subscribed to the events before; and what this subscriber has not read yet and the
  completions are more than the 8 places of the channel.  Then however often the two are polled,
  and whatever the other subscribers read in between, neither of them ever returns.\<close>

theorem publication_deadlock:
  assumes "pubsub_channel EVENT_CAPACITY ev_unread (cs_publish cs) (cs_read cs)" and "accepting (cs_ops cs)"
    and "locked (cs_mutex st)" and "cs_future st = (None, 0)"
    and "list_all (\<lambda>m. qospid m = QP_AtMostOnce) (send_publish (mx_value (cs_mutex st)))"
    and "send_publish (mx_value (cs_mutex st)) \<noteq> []"
    and "ev_unread (cs_channel st) subscriber = Some us"
    and "EVENT_CAPACITY < length us + length (send_publish (mx_value (cs_mutex st)))"
    and "Reader subscriber \<notin> set schedule"
  shows "\<forall>(x, r) \<in> set (fst (polls cs schedule st)). x = Event_Loop \<or> x = Publish_Call \<longrightarrow> r = Pending"
proof -
  have "blocked EVENT_CAPACITY (ev_unread (cs_channel st) subscriber) st"
    using assms(3-8) by (simp add: blocked_def overflows_def)
  moreover obtain rs st' where "polls cs schedule st = (rs, st')" by (rule prod.exhaust)
  ultimately show ?thesis using blocked_forever [OF assms(1,2) _ assms(9)] by simp
qed

text \<open>Eight messages are queued, and the caller has one event to read; task 5 makes the call.\<close>

definition full_contest :: "(task list \<times> task list, (mqtt_event, nat) log_channel, nat, packet list) contest" where
  "full_contest = \<lparr>cs_wakers = multi_registry 2, cs_publish = log_publish EVENT_CAPACITY, cs_read = log_read, cs_ops = log_ops,
     cs_sizes = \<lparr>QUEUE = 8, BUFFER = 8, TOPIC = 8\<rparr>, cs_task = 5, cs_message = sample_publish QP_AtMostOnce, cs_unique_id = UniqueID 9\<rparr>"

definition full_contest_state :: "(task list \<times> task list, (mqtt_event, nat) log_channel, packet list) contest_state" where
  "full_contest_state = \<lparr>cs_future = (None, 0),
     cs_channel = \<lparr>log_messages = [UnsubscribeDone (UniqueID 1)], log_places = [(0, 0)]\<rparr>,
     cs_mutex = \<lparr>mx_value = new_publishes\<lparr>send_publish := replicate 8 (sample_owned QP_AtMostOnce)\<rparr>, mx_wakers = ([], []), locked = True\<rparr>,
     cs_world = sample_world []\<rparr>"

theorem publication_deadlock_witness:
  "map snd (fst (polls full_contest [Event_Loop, Publish_Call, Event_Loop] full_contest_state)) = [Pending, Pending, Pending]"
proof -
  let ?rs = "fst (polls full_contest [Event_Loop, Publish_Call, Event_Loop] full_contest_state)"
  have channel: "pubsub_channel EVENT_CAPACITY log_unread (cs_publish full_contest) (cs_read full_contest)"
    using lc.pubsub_channel_axioms by (simp add: full_contest_def)
  have "\<forall>(x, r) \<in> set ?rs. x = Event_Loop \<or> x = Publish_Call \<longrightarrow> r = Pending"
    by (rule publication_deadlock [OF channel, where subscriber = 0 and us = "[UnsubscribeDone (UniqueID 1)]"])
      (simp_all add: full_contest_def full_contest_state_def accepting_log_ops log_unread_def EVENT_CAPACITY_def sample_owned_def
        list_all_iff)
  then show ?thesis by (auto simp del: poll_contender.simps split: prod.splits)
qed

end
