(* ===== verification/Example_Wifi.thy ===== *)
theory Example_Wifi
  imports Tcp_Connection
begin

text \<open>
  \<open>src/examples/embassy-rp-mqtt/src/wifi.rs\<close>: how the example application brings up its network.  The
  radio chip, the network stack and the timers are libraries; they are the fields of \<open>board\<close>,
  operations on a state of their own.
\<close>

section \<open>The board\<close>

datatype join_options = Join_Key "byte list" | Join_Open

datatype app_task = Cyw43_Task | Net_Task | Run_Mqtt_Loop | Send_Data | Receive_Data

text \<open>\<open>board_join\<close> is \<open>Control::join\<close>, which fails with a status; \<open>board_config_up d\<close> is the \<open>select\<close> of
  \<open>wait_config_up\<close> with a timer: whether the configuration came first.\<close>

record 'b board =
  board_new_chip :: "'b \<Rightarrow> 'b"
  board_init_chip :: "'b \<Rightarrow> 'b"
  board_power_save :: "'b \<Rightarrow> 'b"
  board_random :: "'b \<Rightarrow> 64 word \<times> 'b"
  board_new_stack :: "64 word \<Rightarrow> 'b \<Rightarrow> 'b"
  board_spawn :: "app_task \<Rightarrow> 'b \<Rightarrow> bool \<times> 'b"
  board_sleep :: "duration \<Rightarrow> 'b \<Rightarrow> 'b"
  board_join :: "string \<Rightarrow> join_options \<Rightarrow> 'b \<Rightarrow> (nat + unit) \<times> 'b"
  board_config_up :: "duration \<Rightarrow> 'b \<Rightarrow> bool \<times> 'b"

record wifi_params =
  ssid :: string
  key :: "string option"

definition spawn_task :: "'b board \<Rightarrow> app_task \<Rightarrow> 'b \<Rightarrow> unit outcome \<times> 'b" where
  \<comment> \<open>\<open>unwrap!(spawner.spawn(..))\<close>\<close>
  "spawn_task bd t b = (case board_spawn bd t b of (spawned, b) \<Rightarrow> (if spawned then Ok () else Panic, b))"

section \<open>Joining the network\<close>

definition join_wpa2 :: "'b board \<Rightarrow> wifi_params \<Rightarrow> string \<Rightarrow> 'b \<Rightarrow> unit outcome \<times> 'b" where
  "join_wpa2 bd params k =
     (let options = Join_Key (string_bytes k) in
      run_loop (\<lambda>b. case board_join bd (ssid params) options b of
        (Inr _, b) \<Rightarrow> (Ok (Some ()), b)
      | (Inl status, b) \<Rightarrow> (Ok None, board_sleep bd (from_secs 20) b)))"

definition join_open :: "'b board \<Rightarrow> wifi_params \<Rightarrow> 'b \<Rightarrow> unit outcome \<times> 'b" where
  "join_open bd params =
     (let options = Join_Open in
      run_loop (\<lambda>b. case board_join bd (ssid params) options b of
        (Inr _, b) \<Rightarrow> (Ok (Some ()), b)
      | (Inl status, b) \<Rightarrow> (Ok None, board_sleep bd (from_secs 20) b)))"

definition wifi_join :: "'b board \<Rightarrow> wifi_params \<Rightarrow> 'b \<Rightarrow> unit outcome \<times> 'b" where
  "wifi_join bd params b =
     (case key params of Some k \<Rightarrow> join_wpa2 bd params k b | None \<Rightarrow> join_open bd params b)"

definition wifi_connect :: "'b board \<Rightarrow> wifi_params \<Rightarrow> 'b \<Rightarrow> unit outcome \<times> 'b" where
  "wifi_connect bd params b =
     and_then (spawn_task bd Cyw43_Task (board_new_chip bd b)) (\<lambda>_ b.
     case board_random bd (board_power_save bd (board_init_chip bd b)) of (seed, b) \<Rightarrow>
     and_then (spawn_task bd Net_Task (board_new_stack bd seed b)) (\<lambda>_ b.
     and_then (wifi_join bd params (board_sleep bd (from_millis 500) b)) (\<lambda>_ b.
     case board_config_up bd (from_secs 30) b of (up, b) \<Rightarrow> (if up then Ok () else Panic, b))))"

section \<open>The first attempt that succeeds\<close>

definition options_of :: "wifi_params \<Rightarrow> join_options" where
  "options_of params = (case key params of Some k \<Rightarrow> Join_Key (string_bytes k) | None \<Rightarrow> Join_Open)"

definition attempt :: "'b board \<Rightarrow> wifi_params \<Rightarrow> 'b \<Rightarrow> (nat + unit) \<times> 'b" where
  "attempt bd params = board_join bd (ssid params) (options_of params)"

definition retry :: "'b board \<Rightarrow> wifi_params \<Rightarrow> 'b \<Rightarrow> 'b" where
  \<comment> \<open>An attempt that failed and the pause after it\<close>
  "retry bd params b = board_sleep bd (from_secs 20) (snd (attempt bd params b))"

lemma wifi_join_loop:
  "wifi_join bd params = run_loop (\<lambda>b. case attempt bd params b of
     (Inr _, b) \<Rightarrow> (Ok (Some ()), b) | (Inl status, b) \<Rightarrow> (Ok None, board_sleep bd (from_secs 20) b))"
  by (simp add: fun_eq_iff wifi_join_def join_wpa2_def join_open_def attempt_def options_of_def split: option.split)

lemma join_after_success:
  "attempt bd params b = (Inr (), b') \<Longrightarrow> wifi_join bd params b = (Ok (), b')"
  by (simp add: wifi_join_loop run_loop_leave [where r = "Ok (Some ())"])

lemma join_after_failure:
  assumes "attempt bd params b = (Inl status, b')" and "fst (wifi_join bd params (retry bd params b)) \<noteq> Diverges"
  shows "wifi_join bd params b = wifi_join bd params (retry bd params b)"
  using assms by (simp add: wifi_join_loop retry_def run_loop_again)

lemma joins_at_first_success:
  assumes "\<forall>i < k. isl (fst (attempt bd params ((retry bd params ^^ i) b)))"
    and "attempt bd params ((retry bd params ^^ k) b) = (Inr (), b')"
  shows "wifi_join bd params b = (Ok (), b')"
  using assms
proof (induction k arbitrary: b)
  case (Suc k)
  from Suc.prems(1) obtain status b1 where a: "attempt bd params b = (Inl status, b1)"
    by (cases "attempt bd params b") (auto simp: isl_def dest!: spec [of _ 0])
  have "\<forall>i < k. isl (fst (attempt bd params ((retry bd params ^^ i) (retry bd params b))))"
    using Suc.prems(1) by (metis Suc_less_eq comp_apply funpow_Suc_right)
  with Suc.IH Suc.prems(2) have "wifi_join bd params (retry bd params b) = (Ok (), b')"
    by (simp add: funpow_Suc_right del: funpow.simps)
  with join_after_failure [OF a] show ?case by simp
qed (simp add: join_after_success)

lemma join_without_success:
  assumes "\<forall>i. isl (fst (attempt bd params ((retry bd params ^^ i) b)))"
  shows "fst (wifi_join bd params b) = Diverges"
proof -
  let ?body = "\<lambda>b. case attempt bd params b of
     (Inr _, b) \<Rightarrow> (Ok (Some ()), b) | (Inl status, b) \<Rightarrow> (Ok None, board_sleep bd (from_secs 20) b)"
  let ?I = "\<lambda>b. \<forall>i. isl (fst (attempt bd params ((retry bd params ^^ i) b)))"
  have body: "?body b = (Ok None, retry bd params b)" if I: "?I b" for b
  proof -
    from I obtain status b1 where "attempt bd params b = (Inl status, b1)"
      by (cases "attempt bd params b") (auto simp: isl_def dest!: spec [of _ 0])
    then show ?thesis by (simp add: retry_def)
  qed
  have step: "?I (retry bd params b)" if "?I b" for b
    using that by (metis comp_apply funpow_Suc_right)
  have "loop_result ?body b = None"
  proof (rule ccontr)
    assume "loop_result ?body b \<noteq> None"
    then obtain r b' where "loop_result ?body b = Some (r, b')" by auto
    then have False
      using assms
    proof (rule loop_result_partial [where I = ?I and Q = "\<lambda>_ _. False"])
      show "?I s'" if "?I s" "?body s = (Ok None, s')" for s s' using body [OF that(1)] step [OF that(1)] that(2) by simp
      show False if "?I s" "?body s = (r, s')" "r \<noteq> Ok None" for s r s' using body [OF that(1)] that(2,3) by simp
    qed
    then show False .
  qed
  then show ?thesis by (simp add: wifi_join_loop run_loop_def)
qed

text \<open>Joining returns iff some attempt succeeds, and then after the first that does: every failure is
  followed by a pause of 20 seconds, and nothing else ends the loop.\<close>

lemma wifi_join_returns_iff:
  "fst (wifi_join bd params b) = Ok () \<longleftrightarrow> (\<exists>k. \<not> isl (fst (attempt bd params ((retry bd params ^^ k) b))))"
proof (cases "\<exists>k. \<not> isl (fst (attempt bd params ((retry bd params ^^ k) b)))")
  case True
  define k where "k = (LEAST k. \<not> isl (fst (attempt bd params ((retry bd params ^^ k) b))))"
  have "\<not> isl (fst (attempt bd params ((retry bd params ^^ k) b)))" unfolding k_def using True by (rule LeastI_ex)
  then obtain b' where "attempt bd params ((retry bd params ^^ k) b) = (Inr (), b')"
    by (cases "attempt bd params ((retry bd params ^^ k) b)", cases "fst (attempt bd params ((retry bd params ^^ k) b))") auto
  moreover have "\<forall>i < k. isl (fst (attempt bd params ((retry bd params ^^ i) b)))" using not_less_Least k_def by blast
  ultimately show ?thesis using joins_at_first_success True by fastforce
qed (use join_without_success in force)

text \<open>Connecting returns only when a network was joined and its configuration came up.\<close>

lemma wifi_connect_Ok:
  assumes "wifi_connect bd params b = (Ok (), b')"
  shows "\<exists>b0 b1 b2. wifi_join bd params (board_sleep bd (from_millis 500) b0) = (Ok (), b1)
    \<and> board_config_up bd (from_secs 30) b1 = (True, b2) \<and> b' = b2"
proof -
  from assms obtain b0 b1 where "wifi_join bd params (board_sleep bd (from_millis 500) b0) = (Ok (), b1)"
    "(case board_config_up bd (from_secs 30) b1 of (up, b) \<Rightarrow> (if up then Ok () else Panic, b)) = (Ok (), b')"
    by (auto simp: wifi_connect_def and_then_Ok case_prod_unfold)
  then show ?thesis
    by (intro exI conjI) (auto split: prod.splits if_splits)
qed

end
