(* ===== verification/Example_App.thy ===== *)
theory Example_App
  imports Example_Wifi Client_Channels
begin

text \<open>
  \<open>src/examples/embassy-rp-mqtt/src/main.rs\<close>: the example application of the repository.  Its
  options are environment variables of the build; its three tasks run the event loop, publish a
  message every ten seconds, and log what they receive.
\<close>

section \<open>Configuration\<close>

record build_options =
  MQTT_HOST :: "string option"
  MQTT_PORT :: "string option"
  MQTT_CLIENT_ID :: "string option"
  MQTT_USERNAME :: "string option"
  MQTT_PASSWORD :: "string option"
  MQTT_SUBSCIBE_TO :: "string option"
  MQTT_PUBLISH_TO :: "string option"
  WIFI_SSID :: "string option"
  WIFI_PASSWORD :: "string option"

text \<open>\<open>str::parse::<u16>\<close>: an optional plus sign and at least one digit, at most \<open>u16::MAX\<close>.\<close>

definition digit_value :: "char \<Rightarrow> nat option" where
  "digit_value c = (let n = of_char c :: nat in if 48 \<le> n \<and> n \<le> 57 then Some (n - 48) else None)"

fun parse_digits :: "nat \<Rightarrow> string \<Rightarrow> nat option" where
  "parse_digits n [] = Some n"
| "parse_digits n (c # cs) =
     (case digit_value c of
        Some d \<Rightarrow> if 10 * n + d < 2 ^ 16 then parse_digits (10 * n + d) cs else None
      | None \<Rightarrow> None)"

definition parse_u16 :: "string \<Rightarrow> u16 option" where
  "parse_u16 s =
     (let digits = (case s of c # cs \<Rightarrow> if c = CHR ''+'' then cs else s | [] \<Rightarrow> [])
      in if digits = [] then None else map_option of_nat (parse_digits 0 digits))"

definition example_config :: "build_options \<Rightarrow> client_config outcome" where
  "example_config opts =
     obind (case MQTT_USERNAME opts of
              Some user \<Rightarrow> obind (unwrap_option (MQTT_PASSWORD opts)) (\<lambda>p.
                Ok (Some \<lparr>cred_username = user, cred_password = p\<rparr>))
            | None \<Rightarrow> Ok None) (\<lambda>mqtt_credentials.
     obind (unwrap_option (MQTT_HOST opts)) (\<lambda>mqtt_host.
     obind (case MQTT_PORT opts of
              Some port_string \<Rightarrow> obind (unwrap_option (parse_u16 port_string)) (\<lambda>p. Ok (Some p))
            | None \<Rightarrow> Ok None) (\<lambda>mqtt_port.
     obind (unwrap_option (MQTT_CLIENT_ID opts)) (\<lambda>id.
       Ok \<lparr>config_host = Hostname mqtt_host, config_port = mqtt_port, config_client_id = id,
           config_credentials = mqtt_credentials, config_auto_subscribes = []\<rparr>))))"

definition example_sizes :: sizes where
  \<comment> \<open>\<open>StaticMqttState\<close>: \<open>State<.., 1024, 128, 8>\<close>\<close>
  "example_sizes = \<lparr>QUEUE = 8, BUFFER = 1024, TOPIC = 128\<rparr>"

section \<open>Tasks\<close>

fun unwrap :: "'a outcome \<times> 's \<Rightarrow> 'a outcome \<times> 's" where
  \<comment> \<open>\<open>Result::unwrap\<close> on the result of a call with state\<close>
  "unwrap (Err e, st) = (Panic, st)"
| "unwrap r = r"

definition run_mqtt_loop :: "('n, 'k, 'w) runtime \<Rightarrow> ('n, 'k, 'w) client \<Rightarrow> unit outcome \<times> ('n, 'k, 'w) client" where
  "run_mqtt_loop rt st = unwrap (run rt st)"

text \<open>While a task waits, the others run: \<open>meanwhile\<close> during a call, \<open>pause\<close> during a timer.\<close>

definition send_data :: "('n, 'k, 'w) runtime \<Rightarrow> build_options \<Rightarrow> (('n, 'k, 'w) client \<Rightarrow> ('n, 'k, 'w) client)
    \<Rightarrow> (duration \<Rightarrow> ('n, 'k, 'w) client \<Rightarrow> ('n, 'k, 'w) client)
    \<Rightarrow> ('n, 'k, 'w) client \<Rightarrow> unit outcome \<times> ('n, 'k, 'w) client" where
  "send_data rt opts meanwhile pause st =
     and_then (unwrap_option (MQTT_PUBLISH_TO opts), st) (\<lambda>topic st.
       run_loop (\<lambda>st.
         and_then (unwrap (client_publish rt topic (string_bytes ''i am a test payload'') AtLeastOnce True meanwhile st)) (\<lambda>_ st.
           (Ok None, pause (from_secs 10) st))) st)"

definition MAX_MESSAGE_SUBSCRIBERS :: nat where
  "MAX_MESSAGE_SUBSCRIBERS = 8"

definition subscribe_publishes :: "nat \<Rightarrow> nat outcome" where
  \<comment> \<open>With the number of subscribers the channel of received messages has\<close>
  "subscribe_publishes n = (if n < MAX_MESSAGE_SUBSCRIBERS then Ok (n + 1) else Err (PubsubError 0))"

text \<open>The task's state: the client, how many received messages it has read, and the topics it has logged.\<close>

definition log_received ::
  "('n, 'k, 'w) client \<times> nat \<times> string list \<Rightarrow> unit outcome \<times> ('n, 'k, 'w) client \<times> nat \<times> string list" where
  \<comment> \<open>The loop at the end of \<open>receive_data\<close>; after the last message it waits.\<close>
  "log_received =
     run_loop (\<lambda>(st, i, topics).
       if i < length (received_log (snd st))
       then (Ok None, st, Suc i, topics @ [rp_topic_name (received_log (snd st) ! i)])
       else (Pending, st, i, topics))"

definition receive_data :: "('n, 'k, 'w) runtime \<Rightarrow> build_options \<Rightarrow> nat \<Rightarrow> (('n, 'k, 'w) client \<Rightarrow> ('n, 'k, 'w) client)
    \<Rightarrow> ('n, 'k, 'w) client \<Rightarrow> unit outcome \<times> ('n, 'k, 'w) client \<times> nat \<times> string list" where
  "receive_data rt opts subscribers meanwhile st =
     (let start = length (received_log (snd st)) in
      and_then (unwrap (subscribe_publishes subscribers, st, start, [])) (\<lambda>_ (st, start, topics).
      and_then (case MQTT_SUBSCIBE_TO opts of
                  Some topic \<Rightarrow>
                    (case unwrap (client_subscribe rt topic AtLeastOnce meanwhile st) of (r, st) \<Rightarrow> (r, st, start, topics))
                | None \<Rightarrow> (Ok (), st, start, topics)) (\<lambda>_ st.
        log_received st)))"

definition example_main :: "'b board \<Rightarrow> ('n, 'k, 'w) runtime \<Rightarrow> build_options \<Rightarrow> 'n \<Rightarrow> 'k \<Rightarrow> 'w
    \<Rightarrow> 'b \<Rightarrow> ('n, 'k, 'w) client outcome \<times> 'b" where
  \<comment> \<open>\<open>main\<close>: gives the state of the client with which the three tasks start.\<close>
  "example_main bd rt opts net k wakers b =
     and_then (unwrap_option (WIFI_SSID opts), b) (\<lambda>name b.
     and_then (wifi_connect bd \<lparr>ssid = name, key = WIFI_PASSWORD opts\<rparr> b) (\<lambda>_ b.
     and_then (example_config opts, b) (\<lambda>mqtt_client_config b.
     let mqtt_state = new_state rt mqtt_client_config None net k wakers in
     and_then (spawn_task bd Run_Mqtt_Loop b) (\<lambda>_ b.
     and_then (spawn_task bd Send_Data b) (\<lambda>_ b.
     and_then (spawn_task bd Receive_Data b) (\<lambda>_ b. (Ok mqtt_state, b)))))))"

section \<open>What the application starts with\<close>

text \<open>The overflow checks in the middle of the digits give what one check of the number they spell gives.\<close>

lemma parse_digits_eq:
  assumes "list_all (\<lambda>c. digit_value c \<noteq> None) cs" and "n < 2 ^ 16"
  shows "parse_digits n cs =
    (let m = foldl (\<lambda>n c. 10 * n + the (digit_value c)) n cs in if m < 2 ^ 16 then Some m else None)"
  using assms
proof (induction n cs rule: parse_digits.induct)
  case (2 n c cs)
  then obtain d where d: "digit_value c = Some d" by auto
  have grows: "m \<le> foldl (\<lambda>n c. 10 * n + the (digit_value c)) m cs" for m
  proof (induction cs arbitrary: m)
    case (Cons a cs)
    have "m \<le> 10 * m + the (digit_value a)" by simp
    also have "\<dots> \<le> foldl (\<lambda>n c. 10 * n + the (digit_value c)) (10 * m + the (digit_value a)) cs" by (rule Cons.IH)
    finally show ?case by simp
  qed simp
  show ?case
  proof (cases "10 * n + d < 2 ^ 16")
    case True
    with 2 d show ?thesis by simp
  next
    case False
    with d grows [of "10 * n + d"] show ?thesis by (simp add: Let_def)
  qed
qed (simp add: Let_def)

lemma example_config_iff:
  "(\<exists>config. example_config opts = Ok config) \<longleftrightarrow>
    MQTT_HOST opts \<noteq> None \<and> MQTT_CLIENT_ID opts \<noteq> None
    \<and> (MQTT_USERNAME opts \<noteq> None \<longrightarrow> MQTT_PASSWORD opts \<noteq> None)
    \<and> (\<forall>s. MQTT_PORT opts = Some s \<longrightarrow> parse_u16 s \<noteq> None)"
  "example_config opts = Panic \<or> (\<exists>config. example_config opts = Ok config)"
  unfolding example_config_def
  by (cases "MQTT_USERNAME opts"; cases "MQTT_PASSWORD opts"; cases "MQTT_HOST opts"; cases "MQTT_PORT opts";
      cases "parse_u16 (the (MQTT_PORT opts))"; cases "MQTT_CLIENT_ID opts"; simp)+

text \<open>When \<open>main\<close> returns, a network is joined, and the tasks share a new client; so what holds of new clients
  holds of the application.\<close>

lemma example_main_Ok:
  assumes "example_main bd rt opts net k wakers b = (Ok st, b')"
  shows "\<exists>config. example_config opts = Ok config \<and> st = new_state rt config None net k wakers"
  using assms by (auto simp: example_main_def and_then_Ok Let_def)

text \<open>The application's queue holds as many messages as the channel of events: with one event not yet read,
  a full queue of QoS 0 messages is more than the channel takes in one call.\<close>

lemma example_queue_overflows_channel:
  assumes "accepting ops" and "list_all (\<lambda>m. qospid m = QP_AtMostOnce) (send_publish s)"
    and "pubsub_channel EVENT_CAPACITY ev_unread ev_publish ev_read" and "ev_unread ec subscriber = Some us"
    and "length (send_publish s) = QUEUE example_sizes" and "us \<noteq> []"
  shows "\<exists>es w'. send_pending_publishes ops n 0 (s, w) = (Ok SentAll, s\<lparr>send_publish := []\<rparr>, w')
    \<and> event_log w' = event_log w @ es \<and> publish_all ev_publish es ec = None"
  by (rule completions_overflow_channel [OF assms(1-4)])
    (use assms(5,6) in \<open>auto simp: example_sizes_def EVENT_CAPACITY_def Suc_le_eq\<close>)

section \<open>The tasks\<close>

lemma send_data_never_returns: "fst (send_data rt opts meanwhile pause st) \<noteq> Ok ()"
proof (cases "MQTT_PUBLISH_TO opts")
  case (Some topic)
  let ?body = "\<lambda>st. and_then (unwrap (client_publish rt topic (string_bytes ''i am a test payload'') AtLeastOnce True meanwhile st))
     (\<lambda>_ st. (Ok None, pause (from_secs 10) st))"
  have "fst (run_loop ?body st) \<noteq> Ok ()"
    by (rule run_loop_rel [where R = "\<lambda>_ _. True" and Q = "\<lambda>_ r _. r \<noteq> Ok ()"])
      (auto simp: and_then_Ok elim!: leave.elims)
  with Some show ?thesis by (simp add: send_data_def)
qed (simp add: send_data_def)

lemma log_received_result:
  "i \<le> length (received_log (snd st)) \<Longrightarrow> log_received (st, i, topics) =
    (Pending, st, length (received_log (snd st)), topics @ map rp_topic_name (drop i (received_log (snd st))))"
proof (induction "length (received_log (snd st)) - i" arbitrary: i topics)
  case 0
  then show ?case by (simp add: log_received_def run_loop_leave [where r = Pending])
next
  case (Suc d)
  then have i: "i < length (received_log (snd st))" by simp
  let ?s = "(st, Suc i, topics @ [rp_topic_name (received_log (snd st) ! i)])"
  have "log_received ?s = (Pending, st, length (received_log (snd st)),
      topics @ map rp_topic_name (drop i (received_log (snd st))))"
    using Suc(1) [of "Suc i"] Suc(2) i by (simp add: Cons_nth_drop_Suc [symmetric])
  with i show ?case
    unfolding log_received_def by (subst run_loop_again [where s' = ?s]) simp_all
qed

text \<open>The receiving task logs every message from its start on, once and in order, also those that arrive
  while it waits for the SUBACK.\<close>

lemma receive_data_logs_all:
  assumes "client_subscribe rt topic AtLeastOnce meanwhile st = (Ok (), st')" and "MQTT_SUBSCIBE_TO opts = Some topic"
    and "subscribers < MAX_MESSAGE_SUBSCRIBERS" and "received_log (snd st') = received_log (snd st) @ ms"
  shows "receive_data rt opts subscribers meanwhile st =
    (Pending, st', length (received_log (snd st')), map rp_topic_name ms)"
  using assms by (simp add: receive_data_def subscribe_publishes_def log_received_result)

section \<open>Name resolution\<close>

lemma conn_others:
  fixes rt :: "('n, 'k, 'w) runtime"
  shows "conn (other_tasks rt st) = conn st"
proof -
  have "conn (fold (perform rt) rs st) = conn st" for rs and st :: "('n, 'k, 'w) client"
    by (induction rs arbitrary: st) (simp_all add: conn_perform)
  then show ?thesis by (auto simp: other_tasks_def conn_def split: prod.splits)
qed

lemma reset_idle:
  assumes "idle c"
  obtains c' where "reset_buffers c = (Ok (), c')" "tcp_config c' = tcp_config c"
  using assms that
  by (auto simp: idle_def reset_buffers_def with_send_buffer_def with_recv_buffer_def cell_borrow_def bufref_drop_def on_send_def
      on_recv_def unit_step_def)

lemma unresolved_round:
  assumes "idle (conn st)" and "watch (conn st) = None \<or> watch (conn st) = Some ErrorState"
    and "config_host (tcp_config (conn st)) = Hostname name" and "nw_resolve (rt_net rt) name = None"
  obtains st' where "run_round rt st = (Err DnsFailed, st')"
proof -
  let ?st = "other_tasks rt st"
  from reset_idle [OF assms(1)] obtain c where c: "reset_buffers (conn st) = (Ok (), c)" "tcp_config c = tcp_config (conn st)" .
  have "tcp_connect (rt_codec rt) (rt_net rt) (conn st, p) = (Err DnsFailed, c, p)" for p
    using assms(2-4) c by (auto simp: tcp_connect_def on_tcp_def open_connection_def resolve_def Let_def)
  then obtain st1 where "ensure_connected rt ?st = (Err DnsFailed, st1)"
    using assms(2) by (auto simp: ensure_connected_def get_state_def conn_others)
  with that show ?thesis by (simp add: run_round_def run_once_def)
qed

text \<open>C24: a client that is not connected and whose broker's name cannot be resolved ends its event loop
  with DnsFailed, in whatever round the resolver fails (\<open>rt\<close> is the runtime of the rounds before,
  \<open>rt'\<close> that of this one); the loop does not wait and try again, as it does when the TCP connection
  fails, and the task of the example application panics.\<close>

theorem dns_failure_ends_loop:
  assumes "byte_stream (rt_net rt) sent incoming" and "round_start rt (new_state rt config will net k wakers) st"
    and "watch (conn st) \<noteq> Some Connected" and "config_host (tcp_config (conn st)) = Hostname name"
    and "nw_resolve (rt_net rt') name = None"
  shows "\<exists>st'. run rt' st = (Err DnsFailed, st') \<and> run_mqtt_loop rt' st = (Panic, st')"
proof -
  from assms(1) have "streaming_client rt sent incoming" by (simp add: streaming_client_def)
  from streaming_client.rounds_buffers [OF this assms(2) buffers_inv_new] have "idle (conn st)"
    by (simp add: buffers_inv_def buffers_in_order_def idle_def)
  moreover have "watch (conn st) = None \<or> watch (conn st) = Some ErrorState"
    using round_start_inv [OF assms(2) round_inv_new] assms(3) by (simp add: round_inv_def)
  ultimately obtain st' where "run_round rt' st = (Err DnsFailed, st')"
    using unresolved_round assms(4,5) by metis
  then show ?thesis by (simp add: run_mqtt_loop_def run_def run_loop_leave)
qed

definition lost_dns :: "(test_network, nat, task list \<times> task list) runtime" where
  "lost_dns = (sample_rt [])\<lparr>rt_net := sample_net\<lparr>nw_resolve := \<lambda>_. None\<rparr>\<rparr>"

theorem dns_failure_ends_loop_witness:
  "fst (run_mqtt_loop lost_dns (new_state (sample_rt []) (new_config (Hostname ''broker'') None [] None) None
     \<lparr>bytes_sent = [], bytes_received = []\<rparr> 0 ([], []))) = Panic"
proof -
  let ?st = "new_state (sample_rt []) (new_config (Hostname ''broker'') None [] None) None
     \<lparr>bytes_sent = [], bytes_received = []\<rparr> 0 ([], [])"
  have st: "watch (conn ?st) = None" "config_host (tcp_config (conn ?st)) = Hostname ''broker''"
    by (simp_all add: new_state_def new_ping_def read_clock_def rt_ops_def tcp_ops_def sample_rt_def tick_def conn_def
        new_tcp_def new_config_def)
  have "byte_stream (rt_net (sample_rt [])) bytes_sent bytes_received" by (simp add: sample_rt_simps sample_stream)
  from dns_failure_ends_loop [OF this round_start.first_round [of "sample_rt []" ?st], of "''broker''" lost_dns] st
  show ?thesis by (auto simp: lost_dns_def)
qed

end
