(* ===== verification/Spec2Isabelle.thy ===== *)
theory Spec2Isabelle
  imports Client_Properties Client_Config Tcp_Reading Tcp_Connecting Unit_Tests
    Locked_Components Waiting_Publications Example_App
begin

text \<open>
  \<^bold>\<open>embedded-mqttc\<close>, an MQTT 3.1.1 client for embedded systems: a model of the crate under
  \<open>src/src\<close> and the theorems about it.

  \<^bold>\<open>The program.\<close>  A \<open>State\<close> (\<open>state/mod.rs\<close>) owns a connection to the broker and one component for
  each part of the protocol: outgoing publishes, incoming publishes, subscriptions and keep-alive.
  Its event loop \<open>run\<close> connects, lets every component write its pending packets into the send
  buffer of the connection, and then waits for the first of three things: a request of another task,
  the end of the ping pause, or a packet from the broker, which it dispatches to its component.
  Other tasks use an \<open>MqttClient\<close> (\<open>client.rs\<close>), whose calls queue a request, notify the loop and
  wait for the event that reports the request's completion.  The components are behind
  asynchronous mutexes; packet identifiers and the ids of requests come from two static pools.

  \<^bold>\<open>The theories\<close>, in the order they build on each other:

  \<^item> \<open>Mqtt_Prelude\<close>, \<open>Mqtt_Types\<close>: bounded vectors of the \<open>heapless\<close> library, packets of \<open>mqttrs2\<close>, errors and
    events (\<open>lib.rs\<close>), and \<open>outcome\<close>, the result of an operation: \<open>Ok\<close>, \<open>Err\<close>, \<open>Panic\<close>, undefined
    behaviour of an unsafe call, \<open>Pending\<close> (the future has to wait) and \<open>Diverges\<close> (a loop without end).
  \<^item> \<open>Control_Flow\<close>: \<open>and_then\<close>, the \<open>?\<close> operator with explicit state, and \<open>run_loop\<close>, a Rust \<open>loop\<close>.  A loop
    that never leaves has the value \<open>Diverges\<close>, so that returning is a property and not an assumption; there
    is no fuel anywhere in the model.
  \<^item> \<open>Stack_Buffer\<close> (\<open>buffer.rs\<close>): the byte buffer, the cell that lends it, and the references it lends.
  \<^item> \<open>Id_Pool\<close>: a locale for pools of identifiers and the runs of such a pool against callers that hand back
    only what they hold; \<open>Pid_Pool\<close> (\<open>state/pid.rs\<close>) and \<open>Unique_Ids\<close> (\<open>lib.rs\<close>) interpret it.
  \<^item> \<open>Session_World\<close>: what the components share, namely the pool of packet identifiers, the events and
    messages published so far, and the environment with the connection and the clock; \<open>SendResult\<close>; and the
    locale \<open>packet_sink\<close> for a connection that takes or refuses packets, in which the theorems
    about sending are proved once.
  \<^item> \<open>Client_Config\<close> (\<open>lib.rs\<close>): configuration, automatic subscriptions and host resolution.
  \<^item> \<open>Tcp_Connection\<close> (\<open>state/connection/mod.rs\<close>): \<open>TcpConnectionState\<close>, whole; its interpretation of
    \<open>packet_sink\<close>.  \<open>Tcp_Streams\<close> has the locale \<open>byte_stream\<close> for networks that are ordered byte streams and
    shows that I/O conserves both streams; \<open>Tcp_Session\<close> follows the connection state and \<open>Tcp_Orderly\<close> the
    buffers; \<open>Tcp_Properties\<close>, \<open>Tcp_Reading\<close> (packets received) and \<open>Tcp_Connecting\<close> (packets sent while
    connecting) state the theorems.
  \<^item> \<open>Test_Doubles\<close> (\<open>state/connection/test.rs\<close>): the test connection and test network of the repository, as
    interpretations of \<open>packet_sink\<close> and \<open>byte_stream\<close>; they are the parameters of the witnesses.
  \<^item> \<open>Receive_In\<close>, \<open>Receive_Properties\<close> (\<open>state/receives2.rs\<close>), \<open>Publish_Out\<close>, \<open>Publish_Accounting\<close>,
    \<open>Publish_Properties\<close> (\<open>state/publish2.rs\<close>), \<open>Subscriptions\<close>, \<open>Subscription_Properties\<close> (\<open>state/sub2.rs\<close>)
    and \<open>Ping\<close> (\<open>state/ping.rs\<close>): the protocol components.
  \<^item> \<open>Notifications\<close> (\<open>state/request.rs\<close>, \<open>mutex.rs\<close>): notifications of requests and the mutex, over a locale
    \<open>waker_registry\<close> for the wakers of \<open>embassy_sync\<close>.
  \<^item> \<open>Client_State\<close> (\<open>state/mod.rs\<close>, \<open>client.rs\<close>): the state of a client, the event loop and the calls;
    \<open>Client_Safety\<close> has its invariant.  \<open>Client_Rounds\<close> has the rounds of the event loop and the locale
    \<open>client_invariant\<close>: an invariant that the steps of a round keep holds in every round.  \<open>Client_Pids\<close>
    interprets it with the packet identifiers in flight, over the lending of identifiers by
    each component in \<open>Pid_Lending\<close>; \<open>Client_Buffers\<close> with the state of the buffers, as a sublocale of a
    client over a byte stream.  \<open>Client_Properties\<close> states the theorems about the loop.
  \<^item> \<open>Locked_Components\<close>: \<open>Publishes\<close>, \<open>Receives\<close> and \<open>Subs\<close>, the bare components in a mutex.  On a free mutex their
    operations are those of the bare component, which is what the event loop of \<open>Client_State\<close> uses.
  \<^item> \<open>Event_Channels\<close>, \<open>Client_Channels\<close>: the two bounded channels of a client.  The locale \<open>pubsub_channel\<close> is the
    contract of the library's channel, with the model's logs as an instance; a round is shown to publish no
    more than the channels take while subscribers keep up, and where a subscriber can stop the loop.
  \<^item> \<open>Waiting_Publications\<close>: the sending of publishes as a future over a bounded channel, polled again after
    each turn of the other tasks, and its polls against those of a publish call and other readers.
  \<^item> \<open>Example_Wifi\<close>, \<open>Example_App\<close> (\<open>examples/embassy-rp-mqtt\<close>): the example application: joining the network, the
    configuration from build options, its tasks, and what ends its event loop.
  \<^item> \<open>Test_Time\<close> (\<open>time.rs\<close>): the clock of the crate's unit tests and the sleeps that wait on it.
  \<^item> \<open>Test_Support\<close> (\<open>testutils.rs\<close>), \<open>Receive_Tests\<close>, \<open>Publish_Tests\<close>, \<open>Subscription_Tests\<close>, \<open>Module_Tests\<close>, \<open>Connection_Tests\<close>: the crate's
    own unit tests as lists of steps on the model; \<open>Unit_Tests\<close> states that they pass.

  \<^bold>\<open>Correspondence.\<close>  Each Rust struct is a record with its fields, each enum a datatype, each method a
  definition of its name (prefixed where two modules share it) that takes the state of its component
  together with the shared world and returns an outcome with the new state, also on errors.
  \<open>heapless\<close> vectors are lists with the capacity written at each push, \<open>push_unchecked\<close> on a full
  vector is undefined behaviour, and \<open>remove\<close>, \<open>unwrap\<close>, \<open>expect\<close> and \<open>assert\<close> panic as they do in Rust.
  Packet identifiers and unique ids are machine words, with the overflow checks of the source.  Positions in
  buffers are natural numbers below the capacity.  An awaited future that is not ready gives \<open>Pending\<close> with
  the state it left behind.

  \<^bold>\<open>Parameters.\<close>  Code outside the crate is an argument of the definitions: the codec \<open>mqttrs2\<close>
  (\<open>codec\<close>), network and name resolution (\<open>network_ops\<close>), clock and timers, wakers (\<open>waker_ops\<close>) and the
  behaviour of other tasks (\<open>rt_others\<close> of \<open>runtime\<close>).  What a theorem needs of them is a named
  assumption in its statement (\<open>byte_stream\<close>, \<open>reliable\<close>, \<open>encodes_as\<close>, \<open>waker_registry\<close>), and its witness
  instantiates it with the repository's own test doubles.

  \<^bold>\<open>What is shown.\<close>
  \<^item> Safety of the whole client: no undefined behaviour in any run, the invariants of all components in
    every round, the connection states a round may start in, buffers that are free again in every round,
    packet identifiers that are never used for two requests at a time across all components, which
    errors end the loop, that a disconnect request ends it with everything sent, and that a call
    returns only on its own completion; how many events and messages a round publishes, and that a
    failed name resolution ends the loop.
  \<^item> Channels: sending over the bounded channel ends while the subscribers read, and what it has published,
    filed and left then; and the state in which the event loop and a publish call wait for each other for
    good.
  \<^item> Protocol components: exactly-once delivery of QoS 2 messages, conservation of requests (none
    completed twice, and the only ones lost are those whose PUBREC finds the queue of PUBRELs full), order
    of sending, retransmission of exactly the overdue, complete exchanges, and the error paths, among
    them several in which the code loses a request, swallows a message or panics.
  \<^item> Connection: both byte streams are conserved by all I/O; packets are read in the order of the stream
    however the network cuts it; connecting sends CONNECT and subscribes to every configured topic,
    with every byte handed to the network when it returns; disconnecting terminates and sends everything;
    the two write methods agree, up to the packets longer than the rest of the array, which the one that
    does not compact the buffer refuses even when nothing is left to send; a complete packet that is left waiting; the loop at the
    end of a stream.
  \<^item> Buffer, pools, mutex and notifications: a bounded queue, exclusive references, identifiers that are not in
    use twice, mutual exclusion and no lost wake-ups, also under the test clock and for publish calls that
    wait for room in the queue.
  \<^item> Conformance: the unit tests of the crate pass in the model, for every codec that carries their packets.

  \<^bold>\<open>Not modelled.\<close>  Logging (\<open>fmt.rs\<close>), the commented-out \<open>packet.rs\<close> and tests of \<open>state/mod.rs\<close>, and the
  integration tests, which need a broker.  An operation of the model that waits ends with \<open>Pending\<close> and is
  not resumed; only \<open>Connection_Tests\<close> goes on with a future that was polled, and
  \<open>Waiting_Publications\<close> the sending of publishes.  Elsewhere publications go to logs that take every
  message: one that waits is not a state of the model, but \<open>Client_Channels\<close> shows when none has to.  Requests of
  other tasks take effect at the beginning of a round and where the loop waits, not inside an
  operation of a component, which holds that component's mutex.
\<close>

end
